(* ===== verification/Rust_Prelude.thy ===== *)
theory Rust_Prelude
  imports Main "HOL-Library.Word" "HOL-Library.AList" "HOL-Library.Code_Target_Nat"
begin

text \<open>
  What the Keylix sources use of Rust and its standard library, once for all components:
  the machine integer types, \<open>Result\<close> with its \<open>?\<close> operator, byte and string slices,
  \<open>HashMap\<close>, and the collections of rewrite rules the component theories share.

  \<^item> A Rust \<open>str\<close> is the list of its UTF-8 bytes, each byte a \<open>char\<close>; so \<open>length\<close> is
    \<open>str::len\<close>. A byte slice \<open>[u8]\<close> is a list of \<open>8 word\<close>.
  \<^item> \<open>Result<T, E>\<close> is the sum \<open>'e + 'a\<close>: \<open>Inl\<close> is \<open>Err\<close>, \<open>Inr\<close> is \<open>Ok\<close>, and \<open>bindE\<close> is
    the \<open>?\<close> operator.
  \<^item> \<open>i64\<close> is \<open>int\<close> with its range written out (\<open>in_i64\<close>, \<open>checked_add_i64\<close>); \<open>usize\<close> values
    that are lengths or counts are \<open>nat\<close>; \<open>u8\<close> and \<open>u16\<close> are words.
  \<^item> A \<open>HashMap\<close> is an association list with distinct keys; its order is not observable
    through the operations used.
\<close>

named_theorems result_simps \<open>rewriting of results and the ? operator\<close>
named_theorems hm_simps \<open>rewriting of hash maps\<close>

section \<open>Types\<close>

type_synonym u8 = "8 word"
type_synonym u16 = "16 word"
type_synonym u64 = "64 word"
type_synonym i64 = int
type_synonym bytes = "u8 list"
type_synonym str = string

section \<open>Result and Option\<close>

text \<open>\<open>bindE m f\<close> is the body \<open>f\<close> after \<open>let x = m?\<close>.\<close>

definition bindE :: "'e + 'a \<Rightarrow> ('a \<Rightarrow> 'e + 'b) \<Rightarrow> 'e + 'b" where
  "bindE m f = (case m of Inl e \<Rightarrow> Inl e | Inr x \<Rightarrow> f x)"

definition map_err :: "('e \<Rightarrow> 'f) \<Rightarrow> 'e + 'a \<Rightarrow> 'f + 'a" where
  "map_err g m = (case m of Inl e \<Rightarrow> Inl (g e) | Inr x \<Rightarrow> Inr x)"

definition map_ok :: "('a \<Rightarrow> 'b) \<Rightarrow> 'e + 'a \<Rightarrow> 'e + 'b" where
  "map_ok g m = (case m of Inl e \<Rightarrow> Inl e | Inr x \<Rightarrow> Inr (g x))"

definition ok_or :: "'e \<Rightarrow> 'a option \<Rightarrow> 'e + 'a" where
  "ok_or e m = (case m of None \<Rightarrow> Inl e | Some x \<Rightarrow> Inr x)"

definition is_ok :: "'e + 'a \<Rightarrow> bool" where
  "is_ok m = (case m of Inl _ \<Rightarrow> False | Inr _ \<Rightarrow> True)"

text \<open>\<open>require c e\<close> is the guard \<open>if !c \{ return Err(e) \}\<close>.\<close>

definition require :: "bool \<Rightarrow> 'e \<Rightarrow> 'e + unit" where
  "require c e = (if c then Inr () else Inl e)"

section \<open>Integers\<close>

definition in_i64 :: "int \<Rightarrow> bool" where
  "in_i64 n \<longleftrightarrow> - (2 ^ 63) \<le> n \<and> n < 2 ^ 63"

definition checked_add_i64 :: "i64 \<Rightarrow> i64 \<Rightarrow> i64 option" where
  "checked_add_i64 a b = (if in_i64 (a + b) then Some (a + b) else None)"

text \<open>\<open>u64::to_be_bytes\<close>: the eight bytes of a word, most significant first.\<close>

definition to_be_bytes :: "u64 \<Rightarrow> bytes" where
  "to_be_bytes w = map (\<lambda>i. ucast (drop_bit (8 * (7 - i)) w)) [0..<8]"

section \<open>Bytes and strings\<close>

definition byte_of :: "char \<Rightarrow> u8" where
  "byte_of c = of_char c"

definition char_from :: "u8 \<Rightarrow> char" where
  "char_from b = char_of (unat b)"

definition as_bytes :: "str \<Rightarrow> bytes" where
  "as_bytes s = map byte_of s"

definition from_bytes :: "bytes \<Rightarrow> str" where
  "from_bytes bs = map char_from bs"

definition is_ascii :: "str \<Rightarrow> bool" where
  "is_ascii s = list_all (\<lambda>c. byte_of c < 128) s"

definition is_ascii_digit :: "u8 \<Rightarrow> bool" where
  "is_ascii_digit b \<longleftrightarrow> 0x30 \<le> b \<and> b \<le> 0x39"

definition is_ascii_upper :: "u8 \<Rightarrow> bool" where
  "is_ascii_upper b \<longleftrightarrow> 0x41 \<le> b \<and> b \<le> 0x5A"

definition is_ascii_lower :: "u8 \<Rightarrow> bool" where
  "is_ascii_lower b \<longleftrightarrow> 0x61 \<le> b \<and> b \<le> 0x7A"

definition is_ascii_alphanumeric :: "u8 \<Rightarrow> bool" where
  "is_ascii_alphanumeric b \<longleftrightarrow> is_ascii_digit b \<or> is_ascii_upper b \<or> is_ascii_lower b"

definition ascii_lower :: "char \<Rightarrow> char" where
  "ascii_lower c = (if is_ascii_upper (byte_of c) then char_from (byte_of c + 32) else c)"

definition to_ascii_lowercase :: "str \<Rightarrow> str" where
  "to_ascii_lowercase s = map ascii_lower s"

definition eq_ignore_ascii_case :: "str \<Rightarrow> str \<Rightarrow> bool" where
  "eq_ignore_ascii_case a b \<longleftrightarrow> to_ascii_lowercase a = to_ascii_lowercase b"

text \<open>\<open>str_find P s\<close> is the index of the first byte of \<open>s\<close> that satisfies \<open>P\<close>
  (\<open>str::find\<close>), \<open>str_rfind\<close> that of the last one.\<close>

fun str_find :: "('a \<Rightarrow> bool) \<Rightarrow> 'a list \<Rightarrow> nat option" where
  "str_find P [] = None"
| "str_find P (c # cs) = (if P c then Some 0 else map_option Suc (str_find P cs))"

definition str_rfind :: "('a \<Rightarrow> bool) \<Rightarrow> 'a list \<Rightarrow> nat option" where
  "str_rfind P s = map_option (\<lambda>i. length s - 1 - i) (str_find P (rev s))"

definition str_contains :: "str \<Rightarrow> char \<Rightarrow> bool" where
  "str_contains s c = list_ex (\<lambda>d. d = c) s"

definition starts_with :: "str \<Rightarrow> str \<Rightarrow> bool" where
  "starts_with s p \<longleftrightarrow> take (length p) s = p"

definition strip_prefix :: "str \<Rightarrow> str \<Rightarrow> str option" where
  "strip_prefix s p = (if starts_with s p then Some (drop (length p) s) else None)"

text \<open>\<open>str::split\<close> on one ASCII character: always at least one piece.\<close>

fun str_split :: "char \<Rightarrow> str \<Rightarrow> str list" where
  "str_split c [] = [[]]"
| "str_split c (d # ds) =
     (if d = c then [] # str_split c ds
      else (case str_split c ds of [] \<Rightarrow> [[d]] | p # ps \<Rightarrow> (d # p) # ps))"

definition split_once :: "str \<Rightarrow> char \<Rightarrow> (str \<times> str) option" where
  "split_once s c = map_option (\<lambda>i. (take i s, drop (Suc i) s)) (str_find (\<lambda>d. d = c) s)"

definition rsplit_once :: "str \<Rightarrow> char \<Rightarrow> (str \<times> str) option" where
  "rsplit_once s c = map_option (\<lambda>i. (take i s, drop (Suc i) s)) (str_rfind (\<lambda>d. d = c) s)"

section \<open>Hash maps\<close>

type_synonym ('k, 'v) hashmap = "('k \<times> 'v) list"

definition hm_get :: "('k, 'v) hashmap \<Rightarrow> 'k \<Rightarrow> 'v option" where
  "hm_get m k = map_of m k"

definition hm_contains :: "('k, 'v) hashmap \<Rightarrow> 'k \<Rightarrow> bool" where
  "hm_contains m k \<longleftrightarrow> hm_get m k \<noteq> None"

definition hm_insert :: "'k \<Rightarrow> 'v \<Rightarrow> ('k, 'v) hashmap \<Rightarrow> ('k, 'v) hashmap" where
  "hm_insert k v m = AList.update k v m"

definition hm_remove :: "'k \<Rightarrow> ('k, 'v) hashmap \<Rightarrow> ('k, 'v) hashmap" where
  "hm_remove k m = AList.delete k m"

definition hm_retain :: "('v \<Rightarrow> bool) \<Rightarrow> ('k, 'v) hashmap \<Rightarrow> ('k, 'v) hashmap" where
  "hm_retain P m = filter (\<lambda>kv. P (snd kv)) m"

definition hm_len :: "('k, 'v) hashmap \<Rightarrow> nat" where
  "hm_len m = length m"

definition hm_wf :: "('k, 'v) hashmap \<Rightarrow> bool" where
  "hm_wf m \<longleftrightarrow> distinct (map fst m)"

section \<open>Lemmas on results\<close>

lemma bindE_simps [simp]:
  "bindE (Inl e) f = Inl e"
  "bindE (Inr x) f = f x"
  by (simp_all add: bindE_def)

lemma bindE_Inr_iff [result_simps]:
  "bindE m f = Inr y \<longleftrightarrow> (\<exists>x. m = Inr x \<and> f x = Inr y)"
  by (cases m) simp_all

lemma bindE_Inl_iff [result_simps]:
  "bindE m f = Inl e \<longleftrightarrow> m = Inl e \<or> (\<exists>x. m = Inr x \<and> f x = Inl e)"
  by (cases m) simp_all

lemma map_err_simps [simp]:
  "map_err g (Inl e) = Inl (g e)"
  "map_err g (Inr x) = Inr x"
  by (simp_all add: map_err_def)

lemma map_err_Inr_iff [result_simps]: "map_err g m = Inr x \<longleftrightarrow> m = Inr x"
  by (cases m) simp_all

lemma map_err_Inl_iff [result_simps]: "map_err g m = Inl e \<longleftrightarrow> (\<exists>d. m = Inl d \<and> e = g d)"
  by (cases m) auto

lemma map_ok_simps [simp]:
  "map_ok g (Inl e) = Inl e"
  "map_ok g (Inr x) = Inr (g x)"
  by (simp_all add: map_ok_def)

lemma map_ok_Inr_iff [result_simps]: "map_ok g m = Inr y \<longleftrightarrow> (\<exists>x. m = Inr x \<and> y = g x)"
  by (cases m) auto

lemma ok_or_simps [simp]:
  "ok_or e None = Inl e"
  "ok_or e (Some x) = Inr x"
  by (simp_all add: ok_or_def)

lemma ok_or_Inr_iff [result_simps]: "ok_or e m = Inr x \<longleftrightarrow> m = Some x"
  by (cases m) simp_all

lemma ok_or_Inl_iff [result_simps]: "ok_or e m = Inl d \<longleftrightarrow> m = None \<and> d = e"
  by (cases m) auto

lemma require_simps [simp]:
  "require True e = Inr ()"
  "require False e = Inl e"
  by (simp_all add: require_def)

lemma require_Inr_iff [result_simps]: "require c e = Inr u \<longleftrightarrow> c"
  by (cases c) simp_all

lemma require_Inl_iff [result_simps]: "require c e = Inl d \<longleftrightarrow> \<not> c \<and> d = e"
  by (cases c) auto

text \<open>The guard \<open>if c \{ return Err(e) \}\<close>.\<close>

lemma guard_Inr_iff [result_simps]: "(if c then Inl e else m) = Inr x \<longleftrightarrow> \<not> c \<and> m = Inr x"
  by simp

lemma is_ok_simps [simp]:
  "is_ok (Inl e) = False"
  "is_ok (Inr x) = True"
  by (simp_all add: is_ok_def)

lemma is_ok_iff [result_simps]: "is_ok m \<longleftrightarrow> (\<exists>x. m = Inr x)"
  by (cases m) simp_all

section \<open>Lemmas on bytes and strings\<close>

lemma byte_of_nat: "byte_of c = word_of_nat (of_char c)"
  by (simp only: byte_of_def of_nat_of_char)

lemma unat_byte_of [simp]: "unat (byte_of c) = of_char c"
  using nat_of_char_less_256 [of c] by (simp add: byte_of_nat unat_of_nat)

lemma char_from_byte_of [simp]: "char_from (byte_of c) = c"
  by (simp add: char_from_def)

lemma byte_of_inject [simp]: "byte_of c = byte_of d \<longleftrightarrow> c = d"
  by (metis char_from_byte_of)

lemma byte_of_char_from [simp]: "byte_of (char_from b) = b"
proof -
  have "unat b < 256"
    using unsigned_less [of b, where 'a = nat] by simp
  then show ?thesis
    by (simp add: char_from_def byte_of_nat)
qed

lemma as_bytes_inject [simp]: "as_bytes a = as_bytes b \<longleftrightarrow> a = b"
proof
  assume "as_bytes a = as_bytes b"
  then have "map char_from (as_bytes a) = map char_from (as_bytes b)" by simp
  then show "a = b" by (simp add: as_bytes_def comp_def)
qed simp

lemma as_bytes_from_bytes [simp]: "as_bytes (from_bytes bs) = bs"
  by (simp add: as_bytes_def from_bytes_def comp_def)

lemma from_bytes_as_bytes [simp]: "from_bytes (as_bytes s) = s"
  by (simp add: as_bytes_def from_bytes_def comp_def)

lemma length_as_bytes [simp]: "length (as_bytes s) = length s"
  by (simp add: as_bytes_def)

lemma as_bytes_append [simp]: "as_bytes (a @ b) = as_bytes a @ as_bytes b"
  by (simp add: as_bytes_def)

lemma str_contains_iff [simp]: "str_contains s c \<longleftrightarrow> c \<in> set s"
  by (auto simp: str_contains_def list_ex_iff)

lemma str_find_None_iff: "str_find P s = None \<longleftrightarrow> (\<forall>c \<in> set s. \<not> P c)"
  by (induction s) auto

lemma str_find_Some_take:
  "str_find P s = Some i \<Longrightarrow> i < length s \<and> P (s ! i) \<and> (\<forall>c \<in> set (take i s). \<not> P c)"
  by (induction s arbitrary: i) (auto split: if_splits)

lemma str_find_append:
  "\<forall>c \<in> set a. \<not> P c \<Longrightarrow> P c \<Longrightarrow> str_find P (a @ c # b) = Some (length a)"
  by (induction a) auto

lemma str_split_no_sep: "c \<notin> set s \<Longrightarrow> str_split c s = [s]"
  by (induction s) auto

lemma str_split_append: "c \<notin> set s \<Longrightarrow> str_split c (s @ c # t) = s # str_split c t"
  by (induction s) auto

lemma str_split_pieces_no_sep: "p \<in> set (str_split c s) \<Longrightarrow> c \<notin> set p"
  by (induction s arbitrary: p) (auto split: list.splits if_splits)

lemma starts_with_append [simp]: "starts_with (p @ s) p"
  by (simp add: starts_with_def)

lemma starts_withE: "starts_with s p \<Longrightarrow> \<exists>t. s = p @ t"
  unfolding starts_with_def by (metis append_take_drop_id)

lemma strip_prefix_Some_iff: "strip_prefix s p = Some t \<longleftrightarrow> s = p @ t"
  by (auto simp: strip_prefix_def dest!: starts_withE)

text \<open>Claims about one byte or character become linear arithmetic on its number.\<close>

lemma u8_eq_iff: "(a::u8) = b \<longleftrightarrow> unat a = unat b"
  by (rule word_unat_eq_iff)

lemma char_nat_eq_iff: "c = d \<longleftrightarrow> of_char c = (of_char d :: nat)"
  by simp

lemma of_char_char_from [simp]: "(of_char (char_from b) :: nat) = unat b"
  using unat_byte_of [of "char_from b"] by simp

lemmas byte_arith = word_le_nat_alt word_less_nat_alt unat_sub unat_word_ariths u8_eq_iff

lemma ascii_lower_ascii [simp]: "byte_of (ascii_lower c) < 128 \<longleftrightarrow> byte_of c < 128"
  by (auto simp: ascii_lower_def is_ascii_upper_def byte_arith)

lemma ascii_lower_idem [simp]: "ascii_lower (ascii_lower c) = ascii_lower c"
  by (auto simp: ascii_lower_def is_ascii_upper_def byte_arith split: if_splits)

lemma ascii_lower_cases: "ascii_lower c = c \<or> is_ascii_lower (byte_of (ascii_lower c))"
  by (auto simp: ascii_lower_def is_ascii_upper_def is_ascii_lower_def byte_arith)

lemma is_ascii_simps [simp]:
  "is_ascii []"
  "is_ascii (c # s) \<longleftrightarrow> byte_of c < 128 \<and> is_ascii s"
  "is_ascii (s @ t) \<longleftrightarrow> is_ascii s \<and> is_ascii t"
  by (simp_all add: is_ascii_def)

section \<open>Lemmas on hash maps\<close>

lemma hm_wf_Nil [simp]: "hm_wf []"
  by (simp add: hm_wf_def)

lemma hm_get_Nil [hm_simps]: "hm_get [] k = None"
  by (simp add: hm_get_def)

lemma hm_wf_insert [simp]: "hm_wf m \<Longrightarrow> hm_wf (hm_insert k v m)"
  by (simp add: hm_wf_def hm_insert_def distinct_update)

lemma hm_wf_remove [simp]: "hm_wf m \<Longrightarrow> hm_wf (hm_remove k m)"
  by (simp add: hm_wf_def hm_remove_def distinct_delete)

lemma hm_wf_retain [simp]: "hm_wf m \<Longrightarrow> hm_wf (hm_retain P m)"
  by (simp add: hm_wf_def hm_retain_def distinct_map_filter)

lemma hm_get_insert [hm_simps]: "hm_get (hm_insert k v m) k' = (if k' = k then Some v else hm_get m k')"
  by (simp add: hm_get_def hm_insert_def update_conv')

lemma hm_get_remove [hm_simps]: "hm_get (hm_remove k m) k' = (if k' = k then None else hm_get m k')"
  by (simp add: hm_get_def hm_remove_def delete_conv')

lemma hm_get_retain [hm_simps]:
  "hm_wf m \<Longrightarrow> hm_get (hm_retain P m) k = (case hm_get m k of None \<Rightarrow> None | Some v \<Rightarrow> if P v then Some v else None)"
  unfolding hm_wf_def hm_get_def hm_retain_def
  by (induction m) (force split: option.splits dest: map_of_SomeD)+

lemma hm_len_retain_le: "hm_len (hm_retain P m) \<le> hm_len m"
  by (simp add: hm_len_def hm_retain_def)

lemma hm_len_insert:
  "hm_len (hm_insert k v m) = (if hm_contains m k then hm_len m else Suc (hm_len m))"
  unfolding hm_len_def hm_insert_def hm_contains_def hm_get_def
  by (induction m) auto

lemma hm_len_remove_le: "hm_len (hm_remove k m) \<le> hm_len m"
  by (simp add: hm_len_def hm_remove_def length_delete_le)

end
