(* ===== verification/Externs.thy ===== *)
theory Externs
  imports Rust_Prelude "HOL-Library.List_Lexorder" "HOL-Library.Char_ord"
begin

text \<open>
  The third-party code Keylix calls (\<open>aws-lc-rs\<close>, \<open>base64\<close>, \<open>serde_json\<close>) is not part of
  the repository. It enters the model as one record of functions, \<open>externs\<close>, which every
  definition that reaches such code takes as an argument; what a theorem needs of it is one
  of the laws below, as an explicit premise.

  JSON documents are trees that keep duplicate members and member order (what a \<open>serde\<close>
  visitor sees). \<open>js_parse\<close> is the syntax layer of \<open>serde_json\<close>; the \<open>#[derive(Deserialize)]\<close>
  of a source struct is a function from such trees, built from \<open>de_struct\<close> below: members are
  found by name, unknown members are skipped (or refused under \<open>deny_unknown_fields\<close>), a
  duplicate of a declared member is an error, and a JSON array is read positionally.
\<close>

datatype json =
    JNull
  | JBool bool
  | JInt int
  | JFloat str
  | JStr str
  | JArr "json list"
  | JObj "(str \<times> json) list"

record externs =
  sha256 :: "bytes \<Rightarrow> bytes"
  b64_encode :: "bytes \<Rightarrow> str"
  b64_decode :: "str \<Rightarrow> bytes option"
  js_parse :: "bytes \<Rightarrow> json option"
  js_print :: "json \<Rightarrow> bytes"
  p256_point :: "bytes \<Rightarrow> bool"
  p256_verify :: "bytes \<Rightarrow> bytes \<Rightarrow> bytes \<Rightarrow> bool"
  hmac_sign :: "bytes \<Rightarrow> bytes \<Rightarrow> bytes"
  hmac_verify :: "bytes \<Rightarrow> bytes \<Rightarrow> bytes \<Rightarrow> bool"

section \<open>Laws of the external functions\<close>

definition is_b64url_char :: "char \<Rightarrow> bool" where
  "is_b64url_char c \<longleftrightarrow>
     is_ascii_alphanumeric (byte_of c) \<or> c = CHR ''-'' \<or> c = CHR ''_''"

text \<open>Unpadded base64url: decoding inverts encoding, the output uses the URL-safe alphabet
  only, and \<open>n\<close> bytes give \<open>\<lceil>4n/3\<rceil>\<close> characters.\<close>

definition b64_law :: "externs \<Rightarrow> bool" where
  "b64_law X \<longleftrightarrow>
     (\<forall>bs. b64_decode X (b64_encode X bs) = Some bs) \<and>
     (\<forall>bs. list_all is_b64url_char (b64_encode X bs)) \<and>
     (\<forall>bs. length (b64_encode X bs) = (4 * length bs + 2) div 3)"

definition sha256_law :: "externs \<Rightarrow> bool" where
  "sha256_law X \<longleftrightarrow> (\<forall>m. length (sha256 X m) = 32)"

text \<open>The digest separates the members of \<open>S\<close>: no two of them collide.\<close>

definition sha256_separates :: "externs \<Rightarrow> bytes set \<Rightarrow> bool" where
  "sha256_separates X S \<longleftrightarrow> inj_on (sha256 X) S"

text \<open>A tag verifies exactly when it is the computed tag, which has 32 bytes.\<close>

definition hmac_law :: "externs \<Rightarrow> bool" where
  "hmac_law X \<longleftrightarrow>
     (\<forall>k m. length (hmac_sign X k m) = 32) \<and>
     (\<forall>k m t. hmac_verify X k m t = (t = hmac_sign X k m))"

text \<open>Printing and reading back gives the document \<open>j\<close>.\<close>

definition json_roundtrips :: "externs \<Rightarrow> json \<Rightarrow> bool" where
  "json_roundtrips X j \<longleftrightarrow> js_parse X (js_print X j) = Some j"

section \<open>Derived deserializers\<close>

text \<open>
  \<open>de_struct deny names j\<close> gives, for each declared member, the value found for it, and
  whether the document was an array (a member missing from an array is an error unless it is
  declared \<open>default\<close>; one missing from an object may also be an \<open>Option\<close>).
\<close>

fun de_struct :: "bool \<Rightarrow> str list \<Rightarrow> json \<Rightarrow> (bool \<times> json option list) option" where
  "de_struct deny names (JObj ms) =
     (if \<not> distinct (filter (\<lambda>k. k \<in> set names) (map fst ms)) then None
      else if deny \<and> list_ex (\<lambda>k. k \<notin> set names) (map fst ms) then None
      else Some (False, map (map_of ms) names))"
| "de_struct deny names (JArr xs) =
     (if length xs > length names then None
      else Some (True, map Some xs @ replicate (length names - length xs) None))"
| "de_struct deny names _ = None"

fun de_string :: "json option \<Rightarrow> str option" where
  "de_string (Some (JStr s)) = Some s"
| "de_string _ = None"

text \<open>\<open>de_option_string missing j\<close>: \<open>Option<String>\<close>; \<open>missing\<close> is what an absent member gives.\<close>

fun de_option_string :: "str option option \<Rightarrow> json option \<Rightarrow> str option option" where
  "de_option_string missing None = missing"
| "de_option_string missing (Some JNull) = Some None"
| "de_option_string missing (Some (JStr s)) = Some (Some s)"
| "de_option_string missing (Some _) = None"

fun de_int :: "int \<Rightarrow> int \<Rightarrow> json option \<Rightarrow> int option" where
  "de_int lo hi (Some (JInt n)) = (if lo \<le> n \<and> n \<le> hi then Some n else None)"
| "de_int lo hi _ = None"

definition de_i64 :: "json option \<Rightarrow> i64 option" where
  "de_i64 j = de_int (- (2 ^ 63)) (2 ^ 63 - 1) j"

definition de_u16 :: "json option \<Rightarrow> u16 option" where
  "de_u16 j = map_option (\<lambda>n. word_of_int n) (de_int 0 65535 j)"

text \<open>A document held as \<open>serde_json::Value\<close>: an object is a \<open>BTreeMap\<close>, so its members are in
  key order and the last of several duplicates is kept.\<close>

fun to_value :: "json \<Rightarrow> json" where
  "to_value (JArr xs) = JArr (map to_value xs)"
| "to_value (JObj ms) =
     JObj (sort_key fst (fold (\<lambda>(k, v) acc. AList.update k v acc) (map (\<lambda>(k, v). (k, to_value v)) ms) []))"
| "to_value j = j"

section \<open>Lemmas\<close>

lemma b64_decode_encode: "b64_law X \<Longrightarrow> b64_decode X (b64_encode X bs) = Some bs"
  by (simp add: b64_law_def)

lemma b64_encode_alphabet: "b64_law X \<Longrightarrow> list_all is_b64url_char (b64_encode X bs)"
  by (simp add: b64_law_def)

lemma b64_encode_length: "b64_law X \<Longrightarrow> length (b64_encode X bs) = (4 * length bs + 2) div 3"
  by (simp add: b64_law_def)

lemma b64_encode_inj: "b64_law X \<Longrightarrow> b64_encode X a = b64_encode X b \<longleftrightarrow> a = b"
  by (metis b64_decode_encode option.inject)

lemma b64url_char_distinct:
  "\<not> is_b64url_char (CHR ''.'')"
  "\<not> is_b64url_char (CHR '','')"
  "\<not> is_b64url_char (CHR ''='')"
  by code_simp+

lemma b64_encode_no_char:
  assumes "b64_law X"
  shows "CHR ''.'' \<notin> set (b64_encode X bs)"
    and "CHR '','' \<notin> set (b64_encode X bs)"
    and "CHR ''='' \<notin> set (b64_encode X bs)"
  using b64_encode_alphabet [OF assms, of bs] b64url_char_distinct
  by (auto simp: list_all_iff)

lemma sha256_length: "sha256_law X \<Longrightarrow> length (sha256 X m) = 32"
  by (simp add: sha256_law_def)

lemma sha256_separatesD:
  "sha256_separates X S \<Longrightarrow> a \<in> S \<Longrightarrow> b \<in> S \<Longrightarrow> sha256 X a = sha256 X b \<longleftrightarrow> a = b"
  by (auto simp: sha256_separates_def dest: inj_onD)

lemma de_string_Some_iff [simp]: "de_string j = Some s \<longleftrightarrow> j = Some (JStr s)"
  by (cases j rule: de_string.cases) auto

lemma de_int_Some_iff: "de_int lo hi j = Some n \<longleftrightarrow> j = Some (JInt n) \<and> lo \<le> n \<and> n \<le> hi"
  by (cases "(lo, hi, j)" rule: de_int.cases) auto

lemma de_i64_Some_iff: "de_i64 j = Some n \<longleftrightarrow> j = Some (JInt n) \<and> in_i64 n"
  by (auto simp: de_i64_def de_int_Some_iff in_i64_def)

lemma de_struct_obj:
  "distinct (map fst ms) \<Longrightarrow> \<not> deny \<Longrightarrow> de_struct deny names (JObj ms) = Some (False, map (map_of ms) names)"
  by simp

text \<open>Keeping an object as a \<open>Value\<close> does not change what a member lookup finds in it.\<close>

lemma map_sort_key_fst: "map fst (sort_key fst xs) = sort (map fst xs)"
proof -
  have "map fst (insort_key fst x ys) = insort (fst x) (map fst ys)"
    for x :: "'a :: linorder \<times> 'b" and ys
    by (induction ys) simp_all
  then show ?thesis by (induction xs) simp_all
qed

lemma map_of_sort_key: "distinct (map fst xs) \<Longrightarrow> map_of (sort_key fst xs) = map_of xs"
  by (subst map_of_inject_set) (simp_all add: map_sort_key_fst)

lemma fold_update:
  fixes xs acc :: "('k \<times> 'v) list"
  defines "r \<equiv> fold (\<lambda>(k, v) acc. AList.update k v acc) xs acc"
  shows "distinct (map fst acc) \<Longrightarrow> distinct (map fst r)" and "map_of r = map_of acc ++ map_of (rev xs)"
  unfolding r_def
  by (induction xs arbitrary: acc) (auto simp: distinct_update update_conv')

lemma to_value_obj:
  assumes "distinct (map fst ms)"
  obtains vs where "to_value (JObj ms) = JObj vs" "distinct (map fst vs)"
    "map_of vs = map_option to_value \<circ> map_of ms"
proof -
  let ?ms = "map (\<lambda>(k, v). (k, to_value v)) ms"
  let ?r = "fold (\<lambda>(k, v) acc. AList.update k v acc) ?ms []"
  have d: "distinct (map fst ?r)"
    by (rule fold_update(1)) simp
  have "map fst ?ms = map fst ms"
    by (simp add: case_prod_beta comp_def)
  then have "distinct (map fst ?ms)" "distinct (map fst (rev ?ms))"
    using assms by (simp_all only: rev_map [symmetric] distinct_rev)
  then have "map_of (rev ?ms) = map_of ?ms"
    by (subst map_of_inject_set) (simp_all only: set_rev)
  then have "map_of ?r = map_option to_value \<circ> map_of ms"
    by (simp add: fold_update(2) map_of_map case_prod_beta)
  then show ?thesis
    using d by (intro that [of "sort_key fst ?r"]) (simp_all add: map_sort_key_fst map_of_sort_key)
qed

end
