(* ===== verification/Extern_Model.thy ===== *)
theory Extern_Model
  imports Externs
begin

text \<open>
  A concrete instance of the external functions, which shows that their laws can hold together
  and on which properties with premises about them are evaluated. Base64url is the real
  encoding; the digest, the tag and the signature check are simple functions with the right
  lengths; the JSON library knows the documents of a given table.
\<close>

section \<open>Unpadded base64url\<close>

definition b64_char :: "nat \<Rightarrow> char" where
  "b64_char n =
     (if n < 26 then char_of (65 + n)
      else if n < 52 then char_of (71 + n)
      else if n < 62 then char_of (n - 4)
      else if n = 62 then CHR ''-'' else CHR ''_'')"

definition b64_index :: "char \<Rightarrow> nat option" where
  "b64_index c =
     (let n = of_char c in
      if 65 \<le> n \<and> n \<le> 90 then Some (n - 65)
      else if 97 \<le> n \<and> n \<le> 122 then Some (n - 71)
      else if 48 \<le> n \<and> n \<le> 57 then Some (n + 4)
      else if n = 45 then Some 62 else if n = 95 then Some 63 else None)"

fun sextets :: "nat list \<Rightarrow> nat list" where
  "sextets [] = []"
| "sextets [a] = [a div 4, a mod 4 * 16]"
| "sextets [a, b] = [a div 4, a mod 4 * 16 + b div 16, b mod 16 * 4]"
| "sextets (a # b # c # r) =
     a div 4 # (a mod 4 * 16 + b div 16) # (b mod 16 * 4 + c div 64) # c mod 64 # sextets r"

text \<open>Trailing bits that do not belong to a byte must be zero.\<close>

fun octets :: "nat list \<Rightarrow> nat list option" where
  "octets [] = Some []"
| "octets [p] = None"
| "octets [p, q] = (if q mod 16 = 0 then Some [p * 4 + q div 16] else None)"
| "octets [p, q, r] =
     (if r mod 4 = 0 then Some [p * 4 + q div 16, q mod 16 * 16 + r div 4] else None)"
| "octets (p # q # r # s # t) =
     map_option (\<lambda>bs. (p * 4 + q div 16) # (q mod 16 * 16 + r div 4) # (r mod 4 * 64 + s) # bs) (octets t)"

definition real_b64_encode :: "bytes \<Rightarrow> str" where
  "real_b64_encode bs = map b64_char (sextets (map unat bs))"

definition real_b64_decode :: "str \<Rightarrow> bytes option" where
  "real_b64_decode s =
     Option.bind (those (map b64_index s)) (\<lambda>ns. map_option (map word_of_nat) (octets ns))"

lemma b64_index_char: "n < 64 \<Longrightarrow> b64_index (b64_char n) = Some n"
  by (auto simp: b64_char_def b64_index_def Let_def)

lemma b64_char_alphabet: "n < 64 \<Longrightarrow> is_b64url_char (b64_char n)"
  by (auto simp: b64_char_def is_b64url_char_def is_ascii_alphanumeric_def is_ascii_upper_def
      is_ascii_lower_def is_ascii_digit_def byte_arith)

lemma div_bounds:
  fixes a b :: nat
  assumes "a < 256"
  shows "a div 4 < 64" "a div 16 < 16" "a div 64 < 4" "b mod 4 * 16 < 64" "b mod 16 * 4 < 64"
proof -
  show "a div 4 < 64" "a div 16 < 16" "a div 64 < 4"
    using assms by (simp_all add: less_mult_imp_div_less)
  have "b mod 4 < 4" "b mod 16 < 16" by simp_all
  then show "b mod 4 * 16 < 64" "b mod 16 * 4 < 64" by linarith+
qed

lemma pack_div_mod: "z < m \<Longrightarrow> (y * m + z) div m = (y::nat)" "z < m \<Longrightarrow> (y * m + z) mod m = z"
  by simp_all

lemma sextets_bound:
  assumes "\<forall>a \<in> set bs. a < 256" "n \<in> set (sextets bs)"
  shows "n < 64"
proof -
  have sum: "b mod 4 * 16 + a div 16 < 64" "b mod 16 * 4 + a div 64 < 64" if "a < 256" for a b :: nat
  proof -
    have "b mod 4 < 4" "b mod 16 < 16" by simp_all
    with div_bounds(2,3) [OF that] show "b mod 4 * 16 + a div 16 < 64" "b mod 16 * 4 + a div 64 < 64"
      by linarith+
  qed
  show ?thesis
    using assms by (induction bs rule: sextets.induct) (auto simp: div_bounds sum)
qed

lemma length_sextets: "length (sextets bs) = (4 * length bs + 2) div 3"
  by (induction bs rule: sextets.induct) (simp_all add: algebra_simps)

lemma octets_sextets: "\<forall>a \<in> set bs. a < 256 \<Longrightarrow> octets (sextets bs) = Some bs"
proof (induction bs rule: sextets.induct)
  case (2 a)
  then show ?case by simp
next
  case (3 a b)
  then have "b div 16 < 16" by (simp add: div_bounds)
  then show ?case by (simp add: pack_div_mod)
next
  case (4 a b c r)
  then have "b div 16 < 16" "c div 64 < 4" by (simp_all add: div_bounds)
  then show ?case using 4 by (simp add: pack_div_mod)
qed simp_all

lemma those_map_some: "\<forall>x \<in> set xs. f (g x) = Some x \<Longrightarrow> those (map f (map g xs)) = Some xs"
  by (induction xs) simp_all

lemma unat_u8_bound: "\<forall>a \<in> set (map unat (bs :: bytes)). a < 256"
  using unsigned_less [where 'b = 8 and 'a = nat] by auto

lemma real_b64_roundtrip: "real_b64_decode (real_b64_encode bs) = Some bs"
proof -
  let ?ns = "map unat bs"
  have "those (map b64_index (map b64_char (sextets ?ns))) = Some (sextets ?ns)"
    using sextets_bound [OF unat_u8_bound] by (intro those_map_some) (auto simp: b64_index_char)
  then show ?thesis
    using octets_sextets [OF unat_u8_bound [of bs]]
    by (simp add: real_b64_decode_def real_b64_encode_def comp_def)
qed

section \<open>The instance\<close>

definition last32 :: "bytes \<Rightarrow> bytes" where
  "last32 m = take 32 (rev m @ replicate 32 0)"

definition first32 :: "bytes \<Rightarrow> bytes" where
  "first32 m = take 32 (m @ replicate 32 0)"

definition sample_externs :: "(json \<times> bytes) list \<Rightarrow> externs" where
  "sample_externs docs =
     \<lparr>sha256 = last32,
      b64_encode = real_b64_encode,
      b64_decode = real_b64_decode,
      js_parse = (\<lambda>bs. map_of (map prod.swap docs) bs),
      js_print = (\<lambda>j. case map_of docs j of Some bs \<Rightarrow> bs | None \<Rightarrow> []),
      p256_point = (\<lambda>p. length p = 65 \<and> hd p = 4),
      p256_verify = (\<lambda>p m s. s = replicate 64 7),
      hmac_sign = (\<lambda>k m. first32 (m @ k)),
      hmac_verify = (\<lambda>k m t. t = first32 (m @ k))\<rparr>"

lemma sample_externs_sel:
  "b64_encode (sample_externs docs) = real_b64_encode"
  "b64_decode (sample_externs docs) = real_b64_decode"
  "sha256 (sample_externs docs) = last32"
  "js_print (sample_externs docs) j = (case map_of docs j of Some bs \<Rightarrow> bs | None \<Rightarrow> [])"
  "p256_point (sample_externs docs) p \<longleftrightarrow> length p = 65 \<and> hd p = 4"
  "p256_verify (sample_externs docs) p m s \<longleftrightarrow> s = replicate 64 7"
  "hmac_sign (sample_externs docs) k m = first32 (m @ k)"
  by (simp_all add: sample_externs_def)

lemma length_last32 [simp]: "length (last32 m) = 32"
  by (simp add: last32_def)

lemma length_first32 [simp]: "length (first32 m) = 32"
  by (simp add: first32_def)

lemma sample_b64_law: "b64_law (sample_externs docs)"
proof -
  have "list_all is_b64url_char (real_b64_encode bs)" for bs
    using sextets_bound [OF unat_u8_bound] b64_char_alphabet
    by (auto simp: real_b64_encode_def list_all_iff)
  then show ?thesis
    using length_sextets
    by (simp add: b64_law_def sample_externs_def real_b64_roundtrip) (simp add: real_b64_encode_def)
qed

lemma sample_sha256_law: "sha256_law (sample_externs docs)"
  by (simp add: sha256_law_def sample_externs_def)

lemma sample_hmac_law: "hmac_law (sample_externs docs)"
  by (simp add: hmac_law_def sample_externs_def)

lemma sample_json_roundtrips:
  assumes "distinct (map snd docs)" "map_of docs j = Some bs"
  shows "json_roundtrips (sample_externs docs) j"
proof -
  have "(bs, j) \<in> set (map prod.swap docs)"
    using map_of_SomeD [OF assms(2)] by force
  moreover have "distinct (map fst (map prod.swap docs))"
    using assms(1) by (simp add: comp_def)
  ultimately show ?thesis
    using assms(2) by (simp add: json_roundtrips_def sample_externs_def)
qed

end
