(* ===== verification/Core_Jwk.thy ===== *)
theory Core_Jwk
  imports Extern_Model
begin

text \<open>
  The crate \<open>keylix-core\<close>: public P-256 keys as JSON Web Keys (\<open>jwk.rs\<close>), their RFC 7638
  thumbprints (\<open>thumbprint.rs\<close>) and the errors of parsing them (\<open>error.rs\<close>).
  \<open>wf_jwk\<close> is the invariant of the type \<open>PublicP256Jwk\<close>: both coordinates have 32 bytes and
  they encode a point that the crypto backend accepts. Every constructor establishes it.
\<close>

section \<open>Definitions\<close>

datatype JwkError =
    InvalidJson
  | UnsupportedKeyType
  | UnsupportedCurve
  | PrivateKeyMaterial
  | InvalidCoordinateEncoding str
  | InvalidCoordinateLength str
  | InvalidPublicPoint

definition COORDINATE_BYTES :: nat where
  "COORDINATE_BYTES = 32"

record PublicP256Jwk =
  jwk_x :: bytes
  jwk_y :: bytes

record PublicP256JwkWire =
  wire_kty :: str
  wire_crv :: str
  wire_x :: str
  wire_y :: str
  wire_private_member :: bool

type_synonym JwkThumbprint = bytes

text \<open>\<open>PrivateMemberPresence\<close>: any value at all, \<open>null\<close> included, counts as present.\<close>

fun private_member_presence :: "json option \<Rightarrow> bool" where
  "private_member_presence None = False"
| "private_member_presence (Some _) = True"

definition jwk_wire_names :: "str list" where
  "jwk_wire_names = [''kty'', ''crv'', ''x'', ''y'', ''d'']"

definition jwk_wire_deserialize :: "json \<Rightarrow> PublicP256JwkWire option" where
  "jwk_wire_deserialize j =
     (case de_struct False jwk_wire_names j of
        Some (_, [k, c, x, y, d]) \<Rightarrow>
          Option.bind (de_string k) (\<lambda>k.
          Option.bind (de_string c) (\<lambda>c.
          Option.bind (de_string x) (\<lambda>x.
          Option.bind (de_string y) (\<lambda>y.
            Some \<lparr>wire_kty = k, wire_crv = c, wire_x = x, wire_y = y,
                  wire_private_member = private_member_presence d\<rparr>))))
      | _ \<Rightarrow> None)"

definition decode_coordinate :: "externs \<Rightarrow> str \<Rightarrow> str \<Rightarrow> JwkError + bytes" where
  "decode_coordinate X coordinate encoded =
     bindE (ok_or (InvalidCoordinateEncoding coordinate) (b64_decode X encoded)) (\<lambda>decoded.
       if length decoded \<noteq> COORDINATE_BYTES then Inl (InvalidCoordinateLength coordinate)
       else if b64_encode X decoded \<noteq> encoded then Inl (InvalidCoordinateEncoding coordinate)
       else Inr decoded)"

text \<open>The uncompressed SEC1 point: a tag byte and the two coordinates.\<close>

definition sec1_point :: "bytes \<Rightarrow> bytes \<Rightarrow> bytes" where
  "sec1_point x y = 0x04 # x @ y"

definition validate_public_point :: "externs \<Rightarrow> bytes \<Rightarrow> bytes \<Rightarrow> JwkError + unit" where
  "validate_public_point X x y =
     (if p256_point X (sec1_point x y) then Inr () else Inl InvalidPublicPoint)"

definition from_wire :: "externs \<Rightarrow> PublicP256JwkWire \<Rightarrow> JwkError + PublicP256Jwk" where
  "from_wire X wire =
     (if wire_private_member wire then Inl PrivateKeyMaterial
      else if wire_kty wire \<noteq> ''EC'' then Inl UnsupportedKeyType
      else if wire_crv wire \<noteq> ''P-256'' then Inl UnsupportedCurve
      else bindE (decode_coordinate X ''x'' (wire_x wire)) (\<lambda>x.
           bindE (decode_coordinate X ''y'' (wire_y wire)) (\<lambda>y.
           bindE (validate_public_point X x y) (\<lambda>_.
             Inr \<lparr>jwk_x = x, jwk_y = y\<rparr>))))"

text \<open>\<open>Deserialize for PublicP256Jwk\<close>, on a document that is already syntax-checked, and
  \<open>PublicP256Jwk::from_json\<close>.\<close>

definition jwk_deserialize :: "externs \<Rightarrow> json \<Rightarrow> JwkError + PublicP256Jwk" where
  "jwk_deserialize X j =
     bindE (ok_or InvalidJson (jwk_wire_deserialize j)) (from_wire X)"

definition jwk_from_json :: "externs \<Rightarrow> str \<Rightarrow> JwkError + PublicP256Jwk" where
  "jwk_from_json X input =
     bindE (ok_or InvalidJson (Option.bind (js_parse X (as_bytes input)) jwk_wire_deserialize))
       (from_wire X)"

definition jwk_serialize :: "externs \<Rightarrow> PublicP256Jwk \<Rightarrow> json" where
  "jwk_serialize X jwk =
     JObj [(''kty'', JStr ''EC''), (''crv'', JStr ''P-256''),
           (''x'', JStr (b64_encode X (jwk_x jwk))), (''y'', JStr (b64_encode X (jwk_y jwk)))]"

definition canonical_thumbprint_input :: "externs \<Rightarrow> PublicP256Jwk \<Rightarrow> str" where
  \<open>canonical_thumbprint_input X jwk =
     ''{"crv":"P-256","kty":"EC","x":"'' @ b64_encode X (jwk_x jwk) @
     ''","y":"'' @ b64_encode X (jwk_y jwk) @ ''"}''\<close>

definition thumbprint :: "externs \<Rightarrow> PublicP256Jwk \<Rightarrow> JwkThumbprint" where
  "thumbprint X jwk = sha256 X (as_bytes (canonical_thumbprint_input X jwk))"

definition to_base64url :: "externs \<Rightarrow> JwkThumbprint \<Rightarrow> str" where
  "to_base64url X t = b64_encode X t"

definition wf_jwk :: "externs \<Rightarrow> PublicP256Jwk \<Rightarrow> bool" where
  "wf_jwk X jwk \<longleftrightarrow>
     length (jwk_x jwk) = COORDINATE_BYTES \<and> length (jwk_y jwk) = COORDINATE_BYTES \<and>
     p256_point X (sec1_point (jwk_x jwk) (jwk_y jwk))"

section \<open>Lemmas\<close>

lemma decode_coordinate_Inr_iff:
  "decode_coordinate X c s = Inr b \<longleftrightarrow>
     b64_decode X s = Some b \<and> length b = COORDINATE_BYTES \<and> b64_encode X b = s"
  by (cases "b64_decode X s") (auto simp: decode_coordinate_def)

lemma validate_public_point_Inr_iff [simp]:
  "validate_public_point X x y = Inr u \<longleftrightarrow> p256_point X (sec1_point x y)"
  by (simp add: validate_public_point_def)

text \<open>Exactly which wire documents become keys.\<close>

lemma from_wire_Inr_iff:
  "from_wire X w = Inr jwk \<longleftrightarrow>
     \<not> wire_private_member w \<and> wire_kty w = ''EC'' \<and> wire_crv w = ''P-256'' \<and>
     b64_decode X (wire_x w) = Some (jwk_x jwk) \<and> b64_encode X (jwk_x jwk) = wire_x w \<and>
     b64_decode X (wire_y w) = Some (jwk_y jwk) \<and> b64_encode X (jwk_y jwk) = wire_y w \<and>
     wf_jwk X jwk"
  by (cases jwk)
    (auto simp: from_wire_def wf_jwk_def result_simps decode_coordinate_Inr_iff)

lemma from_wire_wf: "from_wire X w = Inr jwk \<Longrightarrow> wf_jwk X jwk"
  by (simp add: from_wire_Inr_iff)

lemma jwk_from_json_wf: "jwk_from_json X s = Inr jwk \<Longrightarrow> wf_jwk X jwk"
  by (auto simp: jwk_from_json_def result_simps intro: from_wire_wf)

text \<open>Reading an object: only the five declared members matter, whatever the order of the
  members and whatever else the object holds.\<close>

lemma jwk_wire_deserialize_obj:
  assumes "distinct (map fst ms)"
  shows "jwk_wire_deserialize (JObj ms) = Some w \<longleftrightarrow>
     map_of ms ''kty'' = Some (JStr (wire_kty w)) \<and> map_of ms ''crv'' = Some (JStr (wire_crv w)) \<and>
     map_of ms ''x'' = Some (JStr (wire_x w)) \<and> map_of ms ''y'' = Some (JStr (wire_y w)) \<and>
     wire_private_member w = (map_of ms ''d'' \<noteq> None)"
proof -
  have d: "private_member_presence (map_of ms ''d'') = (map_of ms ''d'' \<noteq> None)"
    by (cases "map_of ms ''d''") simp_all
  show ?thesis
    using assms
    by (cases w) (auto simp: jwk_wire_deserialize_def jwk_wire_names_def d bind_eq_Some_conv)
qed

lemma jwk_serialize_wire:
  "jwk_wire_deserialize (jwk_serialize X jwk) =
     Some \<lparr>wire_kty = ''EC'', wire_crv = ''P-256'', wire_x = b64_encode X (jwk_x jwk),
           wire_y = b64_encode X (jwk_y jwk), wire_private_member = False\<rparr>"
  unfolding jwk_serialize_def by (subst jwk_wire_deserialize_obj) simp_all

lemma jwk_from_wire_serialize:
  assumes "b64_law X" and "wf_jwk X jwk"
  shows "jwk_deserialize X (jwk_serialize X jwk) = Inr jwk"
  using assms by (simp add: jwk_deserialize_def jwk_serialize_wire from_wire_Inr_iff b64_decode_encode)

lemma jwk_from_json_deserialize:
  "jwk_from_json X s =
     (case js_parse X (as_bytes s) of None \<Rightarrow> Inl InvalidJson | Some j \<Rightarrow> jwk_deserialize X j)"
  by (simp add: jwk_from_json_def jwk_deserialize_def split: option.splits)

lemma append_same_length_eq:
  "length a = length a' \<Longrightarrow> a @ b = a' @ b' \<longleftrightarrow> a = a' \<and> b = b'"
  by simp

lemma canonical_thumbprint_input_inj:
  assumes "b64_law X" and "wf_jwk X j" and "wf_jwk X k"
    and "canonical_thumbprint_input X j = canonical_thumbprint_input X k"
  shows "j = k"
proof -
  have len: "length (b64_encode X (jwk_x j)) = length (b64_encode X (jwk_x k))"
    using assms(1-3) by (simp add: b64_encode_length wf_jwk_def)
  have "b64_encode X (jwk_x j) = b64_encode X (jwk_x k) \<and> b64_encode X (jwk_y j) = b64_encode X (jwk_y k)"
    using assms(4) by (simp add: canonical_thumbprint_input_def append_same_length_eq [OF len])
  then show ?thesis
    using assms(1) by (cases j, cases k) (simp add: b64_encode_inj)
qed

text \<open>A key that went through \<open>serde_json::Value\<close>, as the one in a proof header does, is read
  back as the same key.\<close>

lemma jwk_value_wire:
  "jwk_wire_deserialize (to_value (jwk_serialize X jwk)) = jwk_wire_deserialize (jwk_serialize X jwk)"
proof -
  define ms where "ms = [(''kty'', JStr ''EC''), (''crv'', JStr ''P-256''),
    (''x'', JStr (b64_encode X (jwk_x jwk))), (''y'', JStr (b64_encode X (jwk_y jwk)))]"
  have ser: "jwk_serialize X jwk = JObj ms"
    by (simp add: jwk_serialize_def ms_def)
  have "distinct (map fst ms)"
    by (simp add: ms_def)
  then obtain vs where vs: "to_value (JObj ms) = JObj vs" "distinct (map fst vs)"
    "map_of vs = map_option to_value \<circ> map_of ms"
    by (rule to_value_obj)
  show ?thesis
    unfolding jwk_serialize_wire unfolding ser vs(1) jwk_wire_deserialize_obj [OF vs(2)]
    by (simp add: vs(3) ms_def)
qed

lemma jwk_from_json_value:
  assumes "b64_law X" "wf_jwk X jwk" "json_roundtrips X (to_value (jwk_serialize X jwk))"
  shows "jwk_from_json X (from_bytes (js_print X (to_value (jwk_serialize X jwk)))) = Inr jwk"
proof -
  have "jwk_deserialize X (to_value (jwk_serialize X jwk)) = Inr jwk"
    using jwk_from_wire_serialize [OF assms(1,2)] by (simp add: jwk_deserialize_def jwk_value_wire)
  then show ?thesis
    using assms(3) by (simp add: jwk_from_json_deserialize json_roundtrips_def)
qed

section \<open>The accepted documents\<close>

text \<open>All values that an object has for a name.\<close>

definition values_of :: "(str \<times> json) list \<Rightarrow> str \<Rightarrow> json list" where
  "values_of ms name = map snd (filter (\<lambda>(n, v). n = name) ms)"

lemma values_of_simps [simp]:
  "values_of [] name = []"
  "values_of ((n, v) # ms) name = (if n = name then v # values_of ms name else values_of ms name)"
  by (simp_all add: values_of_def)

lemma values_of_empty: "values_of ms name = [] \<longleftrightarrow> name \<notin> fst ` set ms"
  by (induction ms) (auto split: if_splits)

lemma map_of_values: "map_of ms name = (case values_of ms name of [] \<Rightarrow> None | v # _ \<Rightarrow> Some v)"
  by (induction ms) auto

lemma distinct_declared:
  "distinct (filter (\<lambda>k. k \<in> set names) (map fst ms)) \<longleftrightarrow> list_all (\<lambda>n. length (values_of ms n) \<le> 1) names"
proof (induction ms)
  case (Cons m ms)
  obtain n v where m: "m = (n, v)" by fastforce
  have "n \<notin> fst ` set ms \<longleftrightarrow> length (values_of ms n) = 0" by (simp add: values_of_empty)
  then show ?case using Cons by (auto simp: m list_all_iff)
qed (simp add: list_all_iff)

text \<open>The members of the wire document: in an object, every declared name once and in any order; in an array, by position.\<close>

definition wire_members :: "json \<Rightarrow> json \<Rightarrow> json \<Rightarrow> json \<Rightarrow> json \<Rightarrow> json list \<Rightarrow> bool" where
  "wire_members j kty crv x y d \<longleftrightarrow>
     (case j of
        JObj ms \<Rightarrow> values_of ms ''kty'' = [kty] \<and> values_of ms ''crv'' = [crv] \<and>
          values_of ms ''x'' = [x] \<and> values_of ms ''y'' = [y] \<and> values_of ms ''d'' = d \<and> length d \<le> 1
      | JArr vs \<Rightarrow> vs = [kty, crv, x, y] @ d \<and> length d \<le> 1
      | _ \<Rightarrow> False)"

lemma private_member_iff: "private_member_presence v \<longleftrightarrow> v \<noteq> None"
  by (cases v) simp_all

lemma jwk_wire_deserialize_iff:
  "jwk_wire_deserialize j = Some w \<longleftrightarrow>
     (\<exists>d. wire_members j (JStr (wire_kty w)) (JStr (wire_crv w)) (JStr (wire_x w)) (JStr (wire_y w)) d \<and>
        wire_private_member w = (d \<noteq> []))"
proof (cases j)
  case (JObj ms)
  have head: "map_of ms n = Some v \<longleftrightarrow> values_of ms n = [v]" if "length (values_of ms n) \<le> 1" for n v
    using that by (auto simp: map_of_values split: list.splits)
  have d: "private_member_presence (map_of ms ''d'') \<longleftrightarrow> values_of ms ''d'' \<noteq> []"
    by (simp add: private_member_iff map_of_values split: list.splits)
  let ?once = "list_all (\<lambda>n. length (values_of ms n) \<le> 1) jwk_wire_names"
  have de: "de_struct False jwk_wire_names (JObj ms) = (if ?once then Some (False, map (map_of ms) jwk_wire_names) else None)"
    by (simp add: distinct_declared)
  show ?thesis
  proof (cases ?once)
    case True
    then have "length (values_of ms n) \<le> 1" if "n \<in> {''kty'', ''crv'', ''x'', ''y'', ''d''}" for n
      using that by (auto simp: jwk_wire_names_def)
    then show ?thesis
      using de True head unfolding JObj jwk_wire_deserialize_def wire_members_def
      by (cases w) (auto simp: jwk_wire_names_def bind_eq_Some_conv d)
  next
    case False
    then show ?thesis
      using de unfolding JObj jwk_wire_deserialize_def wire_members_def
      by (auto simp: jwk_wire_names_def)
  qed
next
  case (JArr vs)
  consider "length vs \<le> 3" | a b c d r where "vs = a # b # c # d # r"
    by (cases vs; cases "tl vs"; cases "tl (tl vs)"; cases "tl (tl (tl vs))") auto
  then show ?thesis
  proof cases
    case 1
    then have "vs = [] \<or> (\<exists>a. vs = [a]) \<or> (\<exists>a b. vs = [a, b]) \<or> (\<exists>a b c. vs = [a, b, c])"
      by (cases vs; cases "tl vs"; cases "tl (tl vs)") auto
    then show ?thesis unfolding JArr jwk_wire_deserialize_def wire_members_def
      by (auto simp: jwk_wire_names_def bind_eq_Some_conv)
  next
    case (2 a b c d r)
    then show ?thesis unfolding JArr jwk_wire_deserialize_def wire_members_def
      by (cases w; cases r; cases "tl r") (auto simp: jwk_wire_names_def bind_eq_Some_conv private_member_iff)
  qed
qed (simp_all add: jwk_wire_deserialize_def wire_members_def)

lemma wire_document_iff:
  "Option.bind (js_parse X b) jwk_wire_deserialize = Some w \<longleftrightarrow>
     (\<exists>j d. js_parse X b = Some j \<and>
        wire_members j (JStr (wire_kty w)) (JStr (wire_crv w)) (JStr (wire_x w)) (JStr (wire_y w)) d \<and>
        wire_private_member w = (d \<noteq> []))"
  by (auto simp: bind_eq_Some_conv jwk_wire_deserialize_iff)

lemma ex_wire: "(\<exists>w. P w) \<longleftrightarrow> (\<exists>kty crv x y p. P \<lparr>wire_kty = kty, wire_crv = crv, wire_x = x, wire_y = y, wire_private_member = p\<rparr>)"
  by (metis PublicP256JwkWire.cases)

lemma wire_members_d: "wire_members j kty crv x y d \<Longrightarrow> d \<noteq> [] \<Longrightarrow> \<exists>v. d = [v]"
  by (cases d; cases "tl d") (auto simp: wire_members_def split: json.splits)

lemma decode_coordinate_errors:
  "decode_coordinate X c s \<noteq> Inl PrivateKeyMaterial" "decode_coordinate X c s \<noteq> Inl InvalidJson"
  by (cases "b64_decode X s"; simp add: decode_coordinate_def)+

lemma from_wire_private: "from_wire X w = Inl PrivateKeyMaterial \<longleftrightarrow> wire_private_member w"
  using decode_coordinate_errors(1) [of X]
  by (auto simp: from_wire_def bindE_def validate_public_point_def split: sum.splits)

lemma from_wire_not_json: "from_wire X w \<noteq> Inl InvalidJson"
  using decode_coordinate_errors(2) [of X]
  by (auto simp: from_wire_def bindE_def validate_public_point_def split: sum.splits)

section \<open>Properties\<close>

definition sample_jwk :: PublicP256Jwk where
  "sample_jwk = \<lparr>jwk_x = replicate 32 1, jwk_y = replicate 32 2\<rparr>"

definition other_jwk :: PublicP256Jwk where
  "other_jwk = \<lparr>jwk_x = replicate 32 1, jwk_y = replicate 32 3\<rparr>"

lemma sample_jwk_wf: "wf_jwk (sample_externs docs) sample_jwk" "wf_jwk (sample_externs docs) other_jwk"
  by (simp_all add: wf_jwk_def sample_jwk_def other_jwk_def sample_externs_def sec1_point_def
      COORDINATE_BYTES_def)

text \<open>C35. Exactly these documents are accepted as public keys: JSON objects with one member \<open>kty\<close> that is the
  string \<open>EC\<close>, one \<open>crv\<close> that is \<open>P-256\<close>, one \<open>x\<close> and one \<open>y\<close>, each the canonical
  base64url text of 32 bytes, the two forming a point that the backend accepts, and no member \<open>d\<close>, in any order
  and among any other members; or the array of the four strings. The key holds the two decoded coordinates.
  A document with the four strings and one \<open>d\<close> of any value, \<open>null\<close> included, is refused as private key
  material, and a document without the four strings, or with a declared member twice, as invalid JSON.\<close>

theorem jwk_from_json_accepts_iff:
  "(jwk_from_json X s = Inr jwk \<longleftrightarrow>
     (\<exists>j. js_parse X (as_bytes s) = Some j \<and>
        wire_members j (JStr ''EC'') (JStr ''P-256'') (JStr (b64_encode X (jwk_x jwk))) (JStr (b64_encode X (jwk_y jwk))) [] \<and>
        b64_decode X (b64_encode X (jwk_x jwk)) = Some (jwk_x jwk) \<and> b64_decode X (b64_encode X (jwk_y jwk)) = Some (jwk_y jwk) \<and>
        length (jwk_x jwk) = 32 \<and> length (jwk_y jwk) = 32 \<and> p256_point X (0x04 # jwk_x jwk @ jwk_y jwk))) \<and>
   (jwk_from_json X s = Inl PrivateKeyMaterial \<longleftrightarrow>
     (\<exists>j kty crv x y d. js_parse X (as_bytes s) = Some j \<and>
        wire_members j (JStr kty) (JStr crv) (JStr x) (JStr y) [d])) \<and>
   (jwk_from_json X s = Inl InvalidJson \<longleftrightarrow>
     \<not> (\<exists>j kty crv x y d. js_parse X (as_bytes s) = Some j \<and>
        wire_members j (JStr kty) (JStr crv) (JStr x) (JStr y) d))"
proof -
  let ?doc = "Option.bind (js_parse X (as_bytes s)) jwk_wire_deserialize"
  have doc: "jwk_from_json X s = Inr jwk \<longleftrightarrow> (\<exists>w. ?doc = Some w \<and> from_wire X w = Inr jwk)"
    "jwk_from_json X s = Inl PrivateKeyMaterial \<longleftrightarrow> (\<exists>w. ?doc = Some w \<and> wire_private_member w)"
    "jwk_from_json X s = Inl InvalidJson \<longleftrightarrow> \<not> (\<exists>w. ?doc = Some w)"
    using from_wire_private [of X] from_wire_not_json [of X]
    by (cases ?doc; simp add: jwk_from_json_def)+
  show ?thesis
    unfolding doc ex_wire wire_document_iff from_wire_Inr_iff wf_jwk_def COORDINATE_BYTES_def sec1_point_def
  proof (intro conjI, goal_cases)
    case 1
    show ?case by (simp, fastforce)
  next
    case 2
    show ?case by (simp, metis wire_members_d list.distinct(1))
  next
    case 3
    show ?case by (simp, blast)
  qed
qed

text \<open>A valid key that is serialized and read back, directly or through a
  \<open>serde_json::Value\<close>, is the same key.\<close>

lemma jwk_serialize_roundtrip:
  assumes "b64_law X" "wf_jwk X jwk"
  shows "jwk_deserialize X (jwk_serialize X jwk) = Inr jwk \<and>
    jwk_deserialize X (to_value (jwk_serialize X jwk)) = Inr jwk"
  using jwk_from_wire_serialize [OF assms] by (simp add: jwk_deserialize_def jwk_value_wire)

text \<open>The thumbprint separates keys: different valid keys have different thumbprints, as long
  as the digest does not collide on their two canonical texts.\<close>

lemma thumbprint_separates:
  assumes "b64_law X" "wf_jwk X j" "wf_jwk X k" "j \<noteq> k"
    and "sha256_separates X {as_bytes (canonical_thumbprint_input X j), as_bytes (canonical_thumbprint_input X k)}"
  shows "thumbprint X j \<noteq> thumbprint X k"
  using canonical_thumbprint_input_inj [OF assms(1-3)] sha256_separatesD [OF assms(5)] assms(4)
  by (auto simp: thumbprint_def)

lemma last32_differ: "sha256_separates (sample_externs docs)
  {as_bytes (canonical_thumbprint_input (sample_externs docs) sample_jwk),
   as_bytes (canonical_thumbprint_input (sample_externs docs) other_jwk)}"
proof -
  have "last32 (as_bytes (canonical_thumbprint_input (sample_externs docs) sample_jwk)) \<noteq>
      last32 (as_bytes (canonical_thumbprint_input (sample_externs docs) other_jwk))"
    by code_simp
  then show ?thesis
    by (auto simp: sha256_separates_def inj_on_def sample_externs_def)
qed

end
