(* ===== verification/Dpop_Ports.thy ===== *)
theory Dpop_Ports
  imports Core_Jwk
begin

text \<open>
  The crate \<open>keylix-dpop\<close>, its error type (\<open>error.rs\<close>) and its value types and ports
  (\<open>ports.rs\<close>). The traits \<open>Clock\<close>, \<open>ProofIdGenerator\<close> and \<open>DpopSigner\<close> are environment:
  what one call of them returns is an argument of the operation that makes the call. The
  provided implementations (\<open>SystemClock\<close>, \<open>RandomProofIdGenerator\<close>, \<open>AwsLcP256Signer\<close>) are
  functions of what the operating system and the crypto backend return to them.
\<close>

section \<open>Errors\<close>

datatype DpopError =
    MissingProof
  | AmbiguousProof
  | MalformedProof
  | ProofTooLarge
  | UnsupportedAlgorithm
  | UnsupportedKey
  | InvalidSignature
  | MethodMismatch
  | TargetMismatch
  | ProofExpired
  | ProofFromFuture
  | AccessTokenHashMissing
  | AccessTokenHashMismatch
  | NonceRequired
  | NonceMismatch
  | ReplayDetected
  | ReplayStoreUnavailable
  | SignerFailure
  | ClockUnavailable
  | ProofIdUnavailable
  | InvalidRequestTarget
  | InvalidMethod
  | InvalidPolicy

datatype DpopPortError = DpopPortError

section \<open>Value types\<close>

definition MAX_PROOF_ID_BYTES :: nat where
  "MAX_PROOF_ID_BYTES = 256"

definition MAX_NONCE_BYTES :: nat where
  "MAX_NONCE_BYTES = 1024"

definition GENERATED_PROOF_ID_BYTES :: nat where
  "GENERATED_PROOF_ID_BYTES = 16"

datatype ProofId = ProofId (proof_id_str: str)

datatype DpopNonce = DpopNonce (nonce_str: str)

datatype ReplayKey = ReplayKey (replay_key_bytes: bytes)

datatype ReplayStatus = Fresh | Replay

definition proof_id_new :: "str \<Rightarrow> DpopError + ProofId" where
  "proof_id_new value =
     (if value = [] \<or> length value > MAX_PROOF_ID_BYTES then Inl ProofIdUnavailable
      else Inr (ProofId value))"

definition nonce_new :: "str \<Rightarrow> DpopError + DpopNonce" where
  "nonce_new value =
     (if value = [] \<or> length value > MAX_NONCE_BYTES then Inl MalformedProof
      else Inr (DpopNonce value))"

section \<open>Provided ports\<close>

text \<open>\<open>SystemClock::unix_seconds\<close>; \<open>since_epoch\<close> is what \<open>duration_since(UNIX_EPOCH)\<close> gives in
  whole seconds, \<open>None\<close> for a time before the epoch.\<close>

definition system_clock_unix_seconds :: "u64 option \<Rightarrow> DpopPortError + i64" where
  "system_clock_unix_seconds since_epoch =
     bindE (ok_or DpopPortError since_epoch) (\<lambda>secs.
       if in_i64 (uint secs) then Inr (uint secs) else Inl DpopPortError)"

text \<open>\<open>RandomProofIdGenerator::generate\<close>; \<open>fill\<close> is what \<open>SystemRandom::fill\<close> leaves in the
  buffer of \<open>GENERATED_PROOF_ID_BYTES\<close> bytes.\<close>

definition random_proof_id_generate :: "externs \<Rightarrow> bytes option \<Rightarrow> DpopPortError + ProofId" where
  "random_proof_id_generate X fill =
     bindE (ok_or DpopPortError fill) (\<lambda>bs.
       map_err (\<lambda>_. DpopPortError) (proof_id_new (b64_encode X bs)))"

text \<open>\<open>AwsLcP256Signer::generate\<close>, from the public key bytes of the generated pair.\<close>

definition jwk_json_text :: "str \<Rightarrow> str \<Rightarrow> str" where
  \<open>jwk_json_text x y = ''{"kty":"EC","crv":"P-256","x":"'' @ x @ ''","y":"'' @ y @ ''"}''\<close>

definition signer_generate :: "externs \<Rightarrow> bytes option \<Rightarrow> DpopError + PublicP256Jwk" where
  "signer_generate X key_pair =
     bindE (ok_or SignerFailure key_pair) (\<lambda>public_key.
       if length public_key \<noteq> 65 \<or> hd public_key \<noteq> 0x04 then Inl SignerFailure
       else (let x = b64_encode X (take 32 (drop 1 public_key));
                 y = b64_encode X (take 32 (drop 33 public_key))
             in map_err (\<lambda>_. SignerFailure) (jwk_from_json X (jwk_json_text x y))))"

text \<open>\<open>AwsLcP256Signer::sign\<close>; the signature of the key pair is the argument.\<close>

definition signer_sign :: "(bytes \<Rightarrow> bytes option) \<Rightarrow> bytes \<Rightarrow> DpopPortError + bytes" where
  "signer_sign key_pair_sign signing_input = ok_or DpopPortError (key_pair_sign signing_input)"

section \<open>Lemmas\<close>

lemma proof_id_new_Inr_iff [result_simps]:
  "proof_id_new v = Inr p \<longleftrightarrow> v \<noteq> [] \<and> length v \<le> MAX_PROOF_ID_BYTES \<and> p = ProofId v"
  by (auto simp: proof_id_new_def)

lemma nonce_new_Inr_iff [result_simps]:
  "nonce_new v = Inr n \<longleftrightarrow> v \<noteq> [] \<and> length v \<le> MAX_NONCE_BYTES \<and> n = DpopNonce v"
  by (auto simp: nonce_new_def)

text \<open>Sixteen random bytes always give a valid identifier of 22 characters.\<close>

lemma random_proof_id_ok:
  assumes "b64_law X" "length bs = GENERATED_PROOF_ID_BYTES"
  shows "random_proof_id_generate X (Some bs) = Inr (ProofId (b64_encode X bs))"
proof -
  have "length (b64_encode X bs) = 22"
    using assms by (simp add: b64_encode_length GENERATED_PROOF_ID_BYTES_def)
  moreover from this have "b64_encode X bs \<noteq> []" by auto
  ultimately show ?thesis
    by (simp add: random_proof_id_generate_def proof_id_new_def MAX_PROOF_ID_BYTES_def)
qed

lemma signer_generate_wf: "signer_generate X kp = Inr jwk \<Longrightarrow> wf_jwk X jwk"
  by (auto simp: signer_generate_def Let_def result_simps intro: jwk_from_json_wf split: if_splits)

end
