(* ===== verification/Rust_Numbers.thy ===== *)
theory Rust_Numbers
  imports Rust_Prelude
begin

text \<open>
  Numbers in text, as the standard library reads and writes them: \<open>to_string\<close> and
  \<open>\{:x\}\<close> formatting, the digit scanner behind \<open>str::parse\<close>, and \<open>Ipv6Addr\<close> with its
  \<open>FromStr\<close> parser and its \<open>Display\<close> form. The main lemmas are that each reader inverts the
  corresponding writer.
\<close>

section \<open>Digits\<close>

definition digit_char :: "nat \<Rightarrow> char" where
  "digit_char d = (if d < 10 then char_of (48 + d) else char_of (87 + d))"

text \<open>\<open>char::to_digit\<close>.\<close>

definition to_digit :: "nat \<Rightarrow> char \<Rightarrow> nat option" where
  "to_digit radix c =
     (let n = of_char c :: nat;
          v = (if 48 \<le> n \<and> n \<le> 57 then Some (n - 48)
               else if 97 \<le> n \<and> n \<le> 122 then Some (n - 87)
               else if 65 \<le> n \<and> n \<le> 90 then Some (n - 55) else None)
      in case v of None \<Rightarrow> None | Some d \<Rightarrow> if d < radix then Some d else None)"

fun radix_digits :: "nat \<Rightarrow> nat \<Rightarrow> nat list" where
  "radix_digits b n = (if n < b \<or> b < 2 then [n] else radix_digits b (n div b) @ [n mod b])"

declare radix_digits.simps [simp del]

definition radix_value :: "nat \<Rightarrow> nat list \<Rightarrow> nat" where
  "radix_value b ds = foldl (\<lambda>a d. a * b + d) 0 ds"

definition fmt_radix :: "nat \<Rightarrow> nat \<Rightarrow> str" where
  "fmt_radix b n = map digit_char (radix_digits b n)"

abbreviation nat_to_string :: "nat \<Rightarrow> str" where
  "nat_to_string \<equiv> fmt_radix 10"

definition is_digit_of :: "nat \<Rightarrow> char \<Rightarrow> bool" where
  "is_digit_of b c \<longleftrightarrow> to_digit b c \<noteq> None"

definition digits_value :: "nat \<Rightarrow> str \<Rightarrow> nat" where
  "digits_value b s = radix_value b (map (\<lambda>c. the (to_digit b c)) s)"

text \<open>\<open>Parser::read_number\<close>: reads the digits at the front of the input; more than
  \<open>max_digits\<close>, none, a forbidden leading zero or a value above \<open>bound\<close> is a failure, which
  leaves the input alone.\<close>

definition read_number :: "nat \<Rightarrow> nat \<Rightarrow> bool \<Rightarrow> nat \<Rightarrow> str \<Rightarrow> (nat \<times> str) option" where
  "read_number radix max_digits allow_zero_prefix bound s =
     (let ds = takeWhile (is_digit_of radix) s
      in if length ds > max_digits \<or> ds = [] then None
         else if \<not> allow_zero_prefix \<and> hd ds = CHR ''0'' \<and> length ds > 1 then None
         else if digits_value radix ds > bound then None
         else Some (digits_value radix ds, dropWhile (is_digit_of radix) s))"

section \<open>IPv6 addresses\<close>

text \<open>Eight groups of 16 bits.\<close>

type_synonym ipv6 = "nat list"

definition wf_ipv6 :: "ipv6 \<Rightarrow> bool" where
  "wf_ipv6 a \<longleftrightarrow> length a = 8 \<and> (\<forall>g \<in> set a. g < 65536)"

definition read_given_char :: "char \<Rightarrow> str \<Rightarrow> str option" where
  "read_given_char c s = (case s of [] \<Rightarrow> None | d # t \<Rightarrow> if d = c then Some t else None)"

definition read_separator :: "char \<Rightarrow> nat \<Rightarrow> (str \<Rightarrow> ('a \<times> str) option) \<Rightarrow> str \<Rightarrow> ('a \<times> str) option" where
  "read_separator sep i p s =
     (if i > 0 then Option.bind (read_given_char sep s) p else p s)"

definition read_octet :: "str \<Rightarrow> (nat \<times> str) option" where
  "read_octet = read_number 10 3 False 255"

definition read_ipv4 :: "str \<Rightarrow> ((nat \<times> nat \<times> nat \<times> nat) \<times> str) option" where
  "read_ipv4 s =
     Option.bind (read_separator (CHR ''.'') 0 read_octet s) (\<lambda>(a, s).
     Option.bind (read_separator (CHR ''.'') 1 read_octet s) (\<lambda>(b, s).
     Option.bind (read_separator (CHR ''.'') 2 read_octet s) (\<lambda>(c, s).
     Option.bind (read_separator (CHR ''.'') 3 read_octet s) (\<lambda>(d, s).
       Some ((a, b, c, d), s)))))"

definition read_group :: "str \<Rightarrow> (nat \<times> str) option" where
  "read_group = read_number 16 4 True 65535"

text \<open>\<open>read_groups r i s\<close> reads at most \<open>r\<close> more groups, the next one at index \<open>i\<close>; the
  flag says that an embedded IPv4 address ended the run.\<close>

fun read_groups :: "nat \<Rightarrow> nat \<Rightarrow> str \<Rightarrow> nat list \<times> bool \<times> str" where
  "read_groups 0 i s = ([], False, s)"
| "read_groups (Suc r) i s =
     (case (if r > 0 then read_separator (CHR '':'') i read_ipv4 s else None) of
        Some ((a, b, c, d), t) \<Rightarrow> ([a * 256 + b, c * 256 + d], True, t)
      | None \<Rightarrow>
          (case read_separator (CHR '':'') i read_group s of
             Some (g, t) \<Rightarrow>
               (case read_groups r (Suc i) t of (gs, v4, u) \<Rightarrow> (g # gs, v4, u))
           | None \<Rightarrow> ([], False, s)))"

definition read_ipv6 :: "str \<Rightarrow> (ipv6 \<times> str) option" where
  "read_ipv6 s =
     (case read_groups 8 0 s of (head, v4, s1) \<Rightarrow>
        if length head = 8 then Some (head, s1)
        else if v4 then None
        else Option.bind (read_given_char (CHR '':'') s1) (\<lambda>s2.
             Option.bind (read_given_char (CHR '':'') s2) (\<lambda>s3.
               case read_groups (7 - length head) 0 s3 of (tail, _, s4) \<Rightarrow>
                 Some (head @ replicate (8 - length head - length tail) 0 @ tail, s4))))"

definition ipv6_parse :: "str \<Rightarrow> ipv6 option" where
  "ipv6_parse s = (case read_ipv6 s of Some (a, []) \<Rightarrow> Some a | _ \<Rightarrow> None)"

text \<open>\<open>Display\<close>: an IPv4-mapped address in dotted form, otherwise lower-case groups with the
  first longest run of at least two zero groups written as \<open>::\<close>.\<close>

fun fmt_groups :: "nat list \<Rightarrow> str" where
  "fmt_groups [] = []"
| "fmt_groups [g] = fmt_radix 16 g"
| "fmt_groups (g # h # gs) = fmt_radix 16 g @ CHR '':'' # fmt_groups (h # gs)"

text \<open>The scan of \<open>Display\<close> for the longest zero run: index, current run, best run, each run
  as (start, length).\<close>

fun zero_span :: "nat list \<Rightarrow> nat \<Rightarrow> nat \<times> nat \<Rightarrow> nat \<times> nat \<Rightarrow> nat \<times> nat" where
  "zero_span [] i cur best = best"
| "zero_span (g # gs) i cur best =
     (if g = 0 then
        (let cur' = ((if snd cur = 0 then i else fst cur), Suc (snd cur))
         in zero_span gs (Suc i) cur' (if snd cur' > snd best then cur' else best))
      else zero_span gs (Suc i) (0, 0) best)"

definition ipv4_mapped :: "ipv6 \<Rightarrow> bool" where
  "ipv4_mapped a \<longleftrightarrow> take 6 a = [0, 0, 0, 0, 0, 65535]"

definition fmt_ipv4 :: "nat \<Rightarrow> nat \<Rightarrow> str" where
  "fmt_ipv4 g h =
     nat_to_string (g div 256) @ CHR ''.'' # nat_to_string (g mod 256) @ CHR ''.'' #
     nat_to_string (h div 256) @ CHR ''.'' # nat_to_string (h mod 256)"

definition ipv6_fmt :: "ipv6 \<Rightarrow> str" where
  "ipv6_fmt a =
     (if ipv4_mapped a then ''::ffff:'' @ fmt_ipv4 (a ! 6) (a ! 7)
      else (case zero_span a 0 (0, 0) (0, 0) of (start, len) \<Rightarrow>
        if len > 1 then fmt_groups (take start a) @ ''::'' @ fmt_groups (drop (start + len) a)
        else fmt_groups a))"

section \<open>Lemmas on digits\<close>

lemma to_digit_digit_char [simp]: "d < b \<Longrightarrow> b \<le> 16 \<Longrightarrow> to_digit b (digit_char d) = Some d"
  by (simp add: to_digit_def digit_char_def Let_def)

lemma is_digit_of_digit_char [simp]: "d < b \<Longrightarrow> b \<le> 16 \<Longrightarrow> is_digit_of b (digit_char d)"
  by (simp add: is_digit_of_def)

lemma digit_char_zero: "d < 16 \<Longrightarrow> digit_char d = CHR ''0'' \<longleftrightarrow> d = 0"
proof -
  assume d: "d < 16"
  have "to_digit 16 (CHR ''0'') = Some 0" and "digit_char 0 = CHR ''0''"
    by code_simp+
  with to_digit_digit_char [OF d] show ?thesis by auto
qed

lemma radix_value_snoc: "radix_value b (ds @ [d]) = radix_value b ds * b + d"
  by (simp add: radix_value_def)

lemma radix_value_digits: "2 \<le> b \<Longrightarrow> radix_value b (radix_digits b n) = n"
proof (induction b n rule: radix_digits.induct)
  case (1 b n)
  show ?case
  proof (cases "n < b")
    case True
    then show ?thesis by (simp add: radix_digits.simps [of b n] radix_value_def)
  next
    case False
    with 1 show ?thesis by (simp add: radix_digits.simps [of b n] radix_value_snoc)
  qed
qed

lemma radix_digits_less: "2 \<le> b \<Longrightarrow> d \<in> set (radix_digits b n) \<Longrightarrow> d < b"
proof (induction b n rule: radix_digits.induct)
  case (1 b n)
  then show ?case
    by (cases "n < b") (auto simp: radix_digits.simps [of b n])
qed

lemma radix_digits_nonempty [simp]: "radix_digits b n \<noteq> []"
  by (subst radix_digits.simps) simp

lemma length_radix_digits: "2 \<le> b \<Longrightarrow> n < b ^ Suc k \<Longrightarrow> length (radix_digits b n) \<le> Suc k"
proof (induction k arbitrary: n)
  case 0
  then show ?case by (simp add: radix_digits.simps [of b n])
next
  case (Suc k)
  show ?case
  proof (cases "n < b")
    case True
    then show ?thesis by (simp add: radix_digits.simps [of b n])
  next
    case False
    have "n div b < b ^ Suc k"
      using Suc.prems by (simp add: less_mult_imp_div_less mult.commute)
    then have "length (radix_digits b (n div b)) \<le> Suc k"
      using Suc by blast
    with False Suc.prems show ?thesis by (simp add: radix_digits.simps [of b n])
  qed
qed

lemma hd_radix_digits: "2 \<le> b \<Longrightarrow> b \<le> n \<Longrightarrow> hd (radix_digits b n) \<noteq> 0"
proof (induction b n rule: radix_digits.induct)
  case (1 b n)
  show ?case
  proof (cases "b \<le> n div b")
    case True
    with 1 show ?thesis by (simp add: radix_digits.simps [of b n])
  next
    case False
    moreover have "n div b \<noteq> 0"
      using 1 by (simp add: div_eq_0_iff)
    ultimately show ?thesis
      using 1 by (simp add: radix_digits.simps [of b n] radix_digits.simps [of b "n div b"])
  qed
qed

section \<open>Reading what was written\<close>

definition stops :: "nat \<Rightarrow> str \<Rightarrow> bool" where
  "stops b s \<longleftrightarrow> (case s of [] \<Rightarrow> True | c # _ \<Rightarrow> \<not> is_digit_of b c)"

lemma stops_simps [simp]:
  "stops b []"
  "stops b (c # s) \<longleftrightarrow> \<not> is_digit_of b c"
  by (simp_all add: stops_def)

lemma is_digit_of_punct [simp]:
  "\<not> is_digit_of 10 (CHR ''.'')" "\<not> is_digit_of 16 (CHR ''.'')"
  "\<not> is_digit_of 10 (CHR '':'')" "\<not> is_digit_of 16 (CHR '':'')" "\<not> is_digit_of 10 (CHR ''f'')"
  by code_simp+

lemma fmt_radix_nonempty [simp]: "fmt_radix b n \<noteq> []"
  by (simp add: fmt_radix_def)

lemma fmt_radix_digits:
  assumes "2 \<le> b" "b \<le> 16" "c \<in> set (fmt_radix b n)"
  shows "is_digit_of b c"
  using assms radix_digits_less by (auto simp: fmt_radix_def)

lemma length_fmt_radix: "2 \<le> b \<Longrightarrow> n < b ^ Suc k \<Longrightarrow> length (fmt_radix b n) \<le> Suc k"
  by (simp add: fmt_radix_def length_radix_digits)

lemma digits_value_fmt:
  assumes "2 \<le> b" "b \<le> 16"
  shows "digits_value b (fmt_radix b n) = n"
proof -
  have "map (\<lambda>c. the (to_digit b c)) (fmt_radix b n) = radix_digits b n"
    using assms radix_digits_less [of b _ n]
    by (simp add: fmt_radix_def comp_def) (metis (mono_tags, lifting) map_idI option.sel to_digit_digit_char)
  then show ?thesis
    using assms by (simp add: digits_value_def radix_value_digits)
qed

lemma scan_fmt_radix:
  assumes "2 \<le> b" "b \<le> 16" "stops b rest"
  shows "takeWhile (is_digit_of b) (fmt_radix b n @ rest) = fmt_radix b n"
    and "dropWhile (is_digit_of b) (fmt_radix b n @ rest) = rest"
  using assms fmt_radix_digits [OF assms(1,2)]
  by (cases rest; simp add: takeWhile_append dropWhile_append)+

lemma hd_fmt_radix_zero:
  assumes "2 \<le> b" "b \<le> 16" "hd (fmt_radix b n) = CHR ''0''"
  shows "length (fmt_radix b n) = 1"
proof -
  have d: "hd (radix_digits b n) < b"
    using assms(1) by (rule radix_digits_less [where n = n]) simp
  have "digit_char (hd (radix_digits b n)) = CHR ''0''"
    using assms(3) by (simp add: fmt_radix_def hd_map)
  then have "hd (radix_digits b n) = 0"
    using d assms(2) by (simp add: digit_char_zero)
  then have "n < b"
    using hd_radix_digits [OF assms(1)] by (meson not_le)
  then show ?thesis
    by (simp add: fmt_radix_def radix_digits.simps [of b n])
qed

lemma read_number_fmt:
  assumes "2 \<le> b" "b \<le> 16" "stops b rest" "n < b ^ Suc k" "n \<le> bound"
  shows "read_number b (Suc k) z bound (fmt_radix b n @ rest) = Some (n, rest)"
  using assms length_fmt_radix [OF assms(1,4)] hd_fmt_radix_zero [OF assms(1,2), of n]
  by (auto simp: read_number_def Let_def scan_fmt_radix digits_value_fmt)

lemma read_octet_fmt: "n \<le> 255 \<Longrightarrow> stops 10 rest \<Longrightarrow> read_octet (nat_to_string n @ rest) = Some (n, rest)"
  unfolding read_octet_def using read_number_fmt [of 10 rest n 2 255 False] by (simp add: numeral_3_eq_3)

lemma read_group_fmt:
  assumes "g < 65536" "stops 16 rest"
  shows "read_group (fmt_radix 16 g @ rest) = Some (g, rest)"
proof -
  have k: "(4::nat) = Suc 3" by simp
  have g: "g < 16 ^ Suc 3" using assms(1) by (simp add: power_Suc)
  show ?thesis
    unfolding read_group_def k using assms by (intro read_number_fmt g) simp_all
qed

section \<open>Reading IPv6 groups\<close>

lemma read_number_rest: "read_number b k z m s = Some (n, t) \<Longrightarrow> t = dropWhile (is_digit_of b) s"
  by (auto simp: read_number_def Let_def split: if_splits)

text \<open>Text without a dot holds no IPv4 address.\<close>

lemma read_ipv4_no_dot: "CHR ''.'' \<notin> set s \<Longrightarrow> read_ipv4 s = None"
proof -
  assume no_dot: "CHR ''.'' \<notin> set s"
  have "read_given_char (CHR ''.'') t = None" if "read_octet s = Some (a, t)" for a t
  proof -
    have "set t \<subseteq> set s"
      using that by (auto simp: read_octet_def dest: read_number_rest set_dropWhileD)
    then show ?thesis
      using no_dot by (auto simp: read_given_char_def split: list.splits)
  qed
  then show ?thesis
    by (auto simp: read_ipv4_def read_separator_def split: option.splits bind_splits)
qed

lemma fmt_radix_no_char:
  "\<not> is_digit_of 16 c \<Longrightarrow> c \<notin> set (fmt_radix 16 g)"
  using fmt_radix_digits [of 16 c g] by auto

lemma fmt_groups_no_dot: "CHR ''.'' \<notin> set (fmt_groups gs)"
  by (induction gs rule: fmt_groups.induct) (auto simp: fmt_radix_no_char)

definition group_text :: "nat \<Rightarrow> str \<Rightarrow> str" where
  "group_text i s = (if i > 0 then CHR '':'' # s else s)"

lemma read_separator_group_text [simp]: "read_separator (CHR '':'') i p (group_text i s) = p s"
  by (simp add: read_separator_def group_text_def read_given_char_def)

lemma read_groups_group:
  assumes "g < 65536" "stops 16 rest" "CHR ''.'' \<notin> set rest"
  shows "read_groups (Suc r) i (group_text i (fmt_radix 16 g @ rest)) =
    (case read_groups r (Suc i) rest of (gs, v4, u) \<Rightarrow> (g # gs, v4, u))"
proof -
  have "read_ipv4 (fmt_radix 16 g @ rest) = None"
    using assms(3) by (intro read_ipv4_no_dot) (simp add: fmt_radix_no_char)
  then show ?thesis
    using assms by (simp add: read_group_fmt)
qed

text \<open>What may follow a run of groups: the end, or the elision mark.\<close>

definition ends_groups :: "str \<Rightarrow> bool" where
  "ends_groups s \<longleftrightarrow> CHR ''.'' \<notin> set s \<and> (s = [] \<or> (\<exists>t. s = CHR '':'' # CHR '':'' # t))"

lemma read_group_colon: "read_group (CHR '':'' # s) = None" "read_group [] = None"
  by (simp_all add: read_group_def read_number_def)

lemma read_groups_stop:
  assumes "ends_groups s"
  shows "read_groups r i s = ([], False, s)"
proof (cases r)
  case (Suc r')
  have v4: "read_separator (CHR '':'') i read_ipv4 s = None"
    using assms read_ipv4_no_dot
    by (auto simp: ends_groups_def read_separator_def read_given_char_def split: list.splits bind_splits)
  have "read_separator (CHR '':'') i read_group s = None"
    using assms
    by (auto simp: ends_groups_def read_separator_def read_given_char_def read_group_colon)
  with v4 Suc show ?thesis by simp
qed simp

lemma read_groups_fmt:
  assumes "gs \<noteq> []" "length gs \<le> r" "\<forall>g \<in> set gs. g < 65536" "ends_groups rest"
  shows "read_groups r i (group_text i (fmt_groups gs @ rest)) = (gs, False, rest)"
  using assms
proof (induction gs arbitrary: r i rule: fmt_groups.induct)
  case (2 g)
  then obtain r' where r: "r = Suc r'" by (cases r) auto
  have "stops 16 rest" "CHR ''.'' \<notin> set rest"
    using 2 by (auto simp: ends_groups_def)
  with 2 show ?case
    by (simp add: r read_groups_group read_groups_stop del: read_groups.simps)
next
  case (3 g h gs)
  then obtain r' where r: "r = Suc r'" by (cases r) auto
  let ?t = "fmt_groups (h # gs) @ rest"
  have dot: "CHR ''.'' \<notin> set (CHR '':'' # ?t)"
    using 3 fmt_groups_no_dot [of "h # gs"] by (auto simp: ends_groups_def)
  have "read_groups r' (Suc i) (group_text (Suc i) ?t) = (h # gs, False, rest)"
    using 3 r by (intro "3.IH") auto
  then have "read_groups r' (Suc i) (CHR '':'' # ?t) = (h # gs, False, rest)"
    by (simp add: group_text_def)
  then show ?case
    using 3 dot r read_groups_group [of g "CHR '':'' # ?t" r' i] by simp
qed simp

lemma read_groups_fmt0:
  assumes "length gs \<le> r" "\<forall>g \<in> set gs. g < 65536" "ends_groups rest"
  shows "read_groups r 0 (fmt_groups gs @ rest) = (gs, False, rest)"
proof (cases "gs = []")
  case True
  with assms show ?thesis by (simp add: read_groups_stop)
next
  case False
  with assms read_groups_fmt [of gs r rest 0] show ?thesis by (simp add: group_text_def)
qed

section \<open>The zero run and the round trip\<close>

definition zero_run :: "nat list \<Rightarrow> nat \<Rightarrow> nat \<times> nat \<Rightarrow> bool" where
  "zero_run a i s \<longleftrightarrow> fst s + snd s \<le> i \<and> (\<forall>j. fst s \<le> j \<and> j < fst s + snd s \<longrightarrow> a ! j = 0)"

lemma zero_span_run:
  assumes "i + length gs = length a" "drop i a = gs"
    and "zero_run a i best" and "snd cur = 0 \<or> (fst cur + snd cur = i \<and> zero_run a i cur)"
  shows "zero_run a (length a) (zero_span gs i cur best)"
  using assms
proof (induction gs i cur best rule: zero_span.induct)
  case (1 i cur best)
  then show ?case by simp
next
  case (2 g gs i cur best)
  have g: "a ! i = g" and d: "drop (Suc i) a = gs"
    using 2(3,4) by (metis nth_via_drop, metis drop_Suc list.sel(3) tl_drop)
  show ?case
  proof (cases "g = 0")
    case True
    define cur' where "cur' = ((if snd cur = 0 then i else fst cur), Suc (snd cur))"
    have c: "fst cur' + snd cur' = Suc i \<and> zero_run a (Suc i) cur'"
      using 2(6) True g by (auto simp: cur'_def zero_run_def less_Suc_eq)
    moreover have "zero_run a (Suc i) best"
      using 2(5) by (simp add: zero_run_def)
    ultimately show ?thesis
      using 2(1) [OF True cur'_def] 2(3) d True by (auto simp: cur'_def Let_def)
  next
    case False
    have "zero_run a (Suc i) best"
      using 2(5) by (simp add: zero_run_def)
    then show ?thesis
      using 2(2) [OF False] 2(3) d False by simp
  qed
qed

lemma zero_span_split:
  assumes "zero_span a 0 (0, 0) (0, 0) = (start, len)"
  shows "start + len \<le> length a" "a = take start a @ replicate len 0 @ drop (start + len) a"
proof -
  have run: "zero_run a (length a) (start, len)"
    using zero_span_run [of 0 a a "(0, 0)" "(0, 0)"] assms by (simp add: zero_run_def)
  then show le: "start + len \<le> length a"
    by (simp add: zero_run_def)
  have "take len (drop start a) = replicate len 0"
    using run le by (intro nth_equalityI) (auto simp: zero_run_def)
  then show "a = take start a @ replicate len 0 @ drop (start + len) a"
    by (metis add.commute append_take_drop_id drop_drop)
qed

lemma ends_groups_elision: "ends_groups (''::'' @ fmt_groups gs)"
  using fmt_groups_no_dot [of gs] by (auto simp: ends_groups_def)

lemma ipv6_parse_elided:
  assumes "wf_ipv6 (h @ replicate len 0 @ t)" "1 < len"
  shows "ipv6_parse (fmt_groups h @ ''::'' @ fmt_groups t) = Some (h @ replicate len 0 @ t)"
proof -
  have len: "length h + len + length t = 8" and bound: "\<forall>g \<in> set h \<union> set t. g < 65536"
    using assms(1) by (auto simp: wf_ipv6_def)
  have "read_groups 8 0 (fmt_groups h @ ''::'' @ fmt_groups t) = (h, False, ''::'' @ fmt_groups t)"
    using len bound assms(2) by (intro read_groups_fmt0 ends_groups_elision) auto
  moreover have "read_groups (7 - length h) 0 (fmt_groups t) = (t, False, [])"
    using len bound assms(2) read_groups_fmt0 [of t "7 - length h" "[]"]
    by (simp add: ends_groups_def)
  moreover have "8 - length h - length t = len" "length h \<noteq> 8"
    using len assms(2) by simp_all
  ultimately show ?thesis
    by (simp add: ipv6_parse_def read_ipv6_def read_given_char_def)
qed

lemma read_ipv4_fmt:
  assumes "g < 65536" "h < 65536"
  shows "read_ipv4 (fmt_ipv4 g h) = Some ((g div 256, g mod 256, h div 256, h mod 256), [])"
  using assms read_octet_fmt [of "h mod 256" "[]"]
  by (simp add: read_ipv4_def fmt_ipv4_def read_separator_def read_given_char_def read_octet_fmt
      less_mult_imp_div_less less_Suc_eq_le [symmetric])

lemma read_ipv4_colon: "read_ipv4 (CHR '':'' # s) = None"
  by (simp add: read_ipv4_def read_separator_def read_octet_def read_number_def)

text \<open>The three ways a step of \<open>read_groups\<close> goes.\<close>

lemma read_groups_none:
  assumes "read_separator (CHR '':'') i read_ipv4 s = None" "read_separator (CHR '':'') i read_group s = None"
  shows "read_groups r i s = ([], False, s)"
  using assms by (cases r) simp_all

lemma read_groups_v4:
  assumes "read_separator (CHR '':'') i read_ipv4 s = Some ((a, b, c, d), t)" "1 < r"
  shows "read_groups r i s = ([a * 256 + b, c * 256 + d], True, t)"
  using assms by (cases r) simp_all

lemma read_groups_some:
  assumes "read_separator (CHR '':'') i read_ipv4 s = None"
    and "read_separator (CHR '':'') i read_group s = Some (g, t)" "0 < r"
    and "read_groups (r - 1) (Suc i) t = (gs, v4, u)"
  shows "read_groups r i s = (g # gs, v4, u)"
  using assms by (cases r) auto

lemma ipv6_parse_mapped:
  assumes "g < 65536" "h < 65536"
  shows "ipv6_parse (''::ffff:'' @ fmt_ipv4 g h) = Some [0, 0, 0, 0, 0, 65535, g, h]"
proof -
  let ?v4 = "fmt_ipv4 g h"
  have r8: "read_groups 8 0 (''::ffff:'' @ ?v4) = ([], False, ''::ffff:'' @ ?v4)"
    by (rule read_groups_none) (simp_all add: read_separator_def read_group_colon read_ipv4_colon)
  have "digit_char 15 = CHR ''f''"
    by code_simp
  then have f: "fmt_radix 16 65535 = ''ffff''"
    by (simp add: fmt_radix_def radix_digits.simps)
  have grp: "read_group (''ffff'' @ CHR '':'' # ?v4) = Some (65535, CHR '':'' # ?v4)"
    using read_group_fmt [of 65535 "CHR '':'' # ?v4"] by (simp add: f)
  have no4: "read_ipv4 (''ffff'' @ CHR '':'' # ?v4) = None"
    by (simp add: read_ipv4_def read_separator_def read_octet_def read_number_def)
  have "read_groups (7 - 1) (Suc 0) (CHR '':'' # ?v4) =
      ([g div 256 * 256 + g mod 256, h div 256 * 256 + h mod 256], True, [])"
    using assms
    by (intro read_groups_v4) (simp_all add: read_separator_def read_given_char_def read_ipv4_fmt)
  then have v4: "read_groups (7 - 1) (Suc 0) (CHR '':'' # ?v4) = ([g, h], True, [])"
    by simp
  have "read_groups 7 0 (''ffff'' @ CHR '':'' # ?v4) = ([65535, g, h], True, [])"
    by (rule read_groups_some [OF _ _ _ v4]) (simp_all add: grp [simplified] no4 [simplified] read_separator_def)
  moreover have "replicate 5 (0::nat) = [0, 0, 0, 0, 0]"
    by code_simp
  ultimately show ?thesis
    using r8 by (simp add: ipv6_parse_def read_ipv6_def read_given_char_def)
qed

lemma list8_take6:
  assumes "length a = 8" "take 6 a = p"
  shows "a = p @ [a ! 6, a ! 7]"
proof -
  have "drop 6 a = [a ! 6, a ! 7]"
    using assms(1) by (intro nth_equalityI) (auto simp: nth_Cons' less_Suc_eq numeral_2_eq_2)
  then show ?thesis using assms(2) append_take_drop_id [of 6 a] by simp
qed

text \<open>Reading the displayed form of an address gives the address back.\<close>

lemma ipv6_parse_fmt:
  assumes "wf_ipv6 a"
  shows "ipv6_parse (ipv6_fmt a) = Some a"
proof (cases "ipv4_mapped a")
  case True
  have a: "a = [0, 0, 0, 0, 0, 65535, a ! 6, a ! 7]"
    using list8_take6 [of a] True assms by (simp add: ipv4_mapped_def wf_ipv6_def)
  have "a ! 6 < 65536" "a ! 7 < 65536"
    using assms by (auto simp: wf_ipv6_def)
  then show ?thesis
    using True a ipv6_parse_mapped [of "a ! 6" "a ! 7"] by (simp add: ipv6_fmt_def)
next
  case False
  obtain start len where span: "zero_span a 0 (0, 0) (0, 0) = (start, len)"
    by fastforce
  show ?thesis
  proof (cases "1 < len")
    case True
    then show ?thesis
      using ipv6_parse_elided [of "take start a" len "drop (start + len) a"] zero_span_split(2) [OF span]
        assms span False by (simp add: ipv6_fmt_def)
  next
    case len: False
    have "read_groups 8 0 (fmt_groups a) = (a, False, [])"
      using assms read_groups_fmt0 [of a 8 "[]"] by (simp add: wf_ipv6_def ends_groups_def)
    then show ?thesis
      using assms span False len by (simp add: ipv6_fmt_def ipv6_parse_def read_ipv6_def wf_ipv6_def)
  qed
qed

section \<open>Values that were read, characters that are written\<close>

lemma read_octet_bound: "read_octet s = Some (n, t) \<Longrightarrow> n \<le> 255"
  by (auto simp: read_octet_def read_number_def Let_def split: if_splits)

lemma read_group_bound: "read_group s = Some (n, t) \<Longrightarrow> n < 65536"
  by (auto simp: read_group_def read_number_def Let_def split: if_splits)

lemma read_separator_Some:
  "read_separator c i p s = Some x \<Longrightarrow> \<exists>t. p t = Some x"
  by (auto simp: read_separator_def bind_eq_Some_conv split: if_splits)

lemma read_ipv4_bound:
  "read_ipv4 s = Some ((a, b, c, d), t) \<Longrightarrow> a \<le> 255 \<and> b \<le> 255 \<and> c \<le> 255 \<and> d \<le> 255"
  unfolding read_ipv4_def
  by (auto simp: bind_eq_Some_conv dest!: read_separator_Some read_octet_bound)

lemma read_groups_bound:
  "read_groups r i s = (gs, v4, t) \<Longrightarrow> length gs \<le> r \<and> (\<forall>g \<in> set gs. g < 65536)"
proof (induction r i s arbitrary: gs v4 t rule: read_groups.induct)
  case (2 r i s)
  show ?case
  proof (cases "if r > 0 then read_separator (CHR '':'') i read_ipv4 s else None")
    case None
    then show ?thesis
      using 2 by (fastforce split: option.splits prod.splits dest!: read_separator_Some read_group_bound)
  next
    case (Some x)
    obtain a b c d u where x: "x = ((a, b, c, d), u)" by (metis prod.exhaust)
    have "0 < r" "read_separator (CHR '':'') i read_ipv4 s = Some ((a, b, c, d), u)"
      using Some x by (auto split: if_splits)
    moreover from this have "a \<le> 255" "b \<le> 255" "c \<le> 255" "d \<le> 255"
      by (auto dest!: read_separator_Some read_ipv4_bound)
    ultimately show ?thesis
      using "2.prems" by auto
  qed
qed simp

lemma ipv6_parse_wf: "ipv6_parse s = Some a \<Longrightarrow> wf_ipv6 a"
proof -
  assume "ipv6_parse s = Some a"
  then have r: "read_ipv6 s = Some (a, [])"
    by (auto simp: ipv6_parse_def split: option.splits prod.splits list.splits)
  obtain h v4 s1 where h: "read_groups 8 0 s = (h, v4, s1)"
    by (metis prod.exhaust)
  note bh = read_groups_bound [OF h]
  show ?thesis
  proof (cases "length h = 8")
    case True
    then show ?thesis using r h bh by (simp add: read_ipv6_def wf_ipv6_def)
  next
    case False
    then obtain s3 where s3: "(case read_groups (7 - length h) 0 s3 of (tail, _, s4) \<Rightarrow>
        Some (h @ replicate (8 - length h - length tail) 0 @ tail, s4)) = Some (a, [])"
      using r h by (auto simp: read_ipv6_def bind_eq_Some_conv split: if_splits)
    obtain tl4 v t where t: "read_groups (7 - length h) 0 s3 = (tl4, v, t)"
      by (metis prod.exhaust)
    with s3 have "a = h @ replicate (8 - length h - length tl4) 0 @ tl4"
      by simp
    then show ?thesis
      using False bh read_groups_bound [OF t] by (auto simp: wf_ipv6_def)
  qed
qed

lemma is_digit_of_mono: "is_digit_of 10 c \<Longrightarrow> is_digit_of 16 c"
  by (auto simp: is_digit_of_def to_digit_def Let_def split: if_splits option.splits)

lemma set_fmt_groups: "c \<in> set (fmt_groups gs) \<Longrightarrow> is_digit_of 16 c \<or> c = CHR '':''"
  by (induction gs rule: fmt_groups.induct) (auto dest: fmt_radix_digits [rotated 2])

lemma set_ipv6_fmt: "c \<in> set (ipv6_fmt a) \<Longrightarrow> is_digit_of 16 c \<or> c = CHR '':'' \<or> c = CHR ''.''"
proof -
  have f: "is_digit_of 16 (CHR ''f'')" by code_simp
  have d: "c \<in> set (nat_to_string n) \<Longrightarrow> is_digit_of 16 c" for n
    by (rule is_digit_of_mono) (rule fmt_radix_digits; simp)
  show "c \<in> set (ipv6_fmt a) \<Longrightarrow> is_digit_of 16 c \<or> c = CHR '':'' \<or> c = CHR ''.''"
    using f d set_fmt_groups [of c]
    by (auto simp: ipv6_fmt_def fmt_ipv4_def split: if_splits prod.splits)
qed

end
