(* ===== verification/Dpop_Request.thy ===== *)
theory Dpop_Request
  imports Dpop_Ports Rust_Numbers
begin

text \<open>
  Request targets and request contexts (\<open>keylix-dpop/src/request.rs\<close>): the normal form of an
  HTTP(S) URI that a proof's \<open>htu\<close> claim is compared in.

  The first section translates the normalizer. The second gives the reference meaning of its
  dot-segment loop, a stack of path segments. The lemmas show that the loop computes it, that
  percent-decoding and host normalization reach a fixed point in one pass, and from that the
  idempotence of the whole normalizer.
\<close>

section \<open>Definitions\<close>

definition MAX_TARGET_BYTES :: nat where
  "MAX_TARGET_BYTES = 2048"

definition MAX_METHOD_BYTES :: nat where
  "MAX_METHOD_BYTES = 64"

datatype EffectiveRequestTarget = EffectiveRequestTarget (target_str: str)

record DpopRequest =
  req_method :: str
  req_target :: EffectiveRequestTarget
  req_access_token :: "bytes option"
  req_nonce :: "DpopNonce option"

definition is_http_token_byte :: "u8 \<Rightarrow> bool" where
  "is_http_token_byte b \<longleftrightarrow>
     b \<in> {0x21, 0x23, 0x24, 0x25, 0x26, 0x27, 0x2A, 0x2B, 0x2D, 0x2E, 0x5E, 0x5F, 0x60, 0x7C, 0x7E} \<or>
     0x30 \<le> b \<and> b \<le> 0x39 \<or> 0x41 \<le> b \<and> b \<le> 0x5A \<or> 0x61 \<le> b \<and> b \<le> 0x7A"

definition validate_method :: "str \<Rightarrow> DpopError + unit" where
  "validate_method m =
     (if m = [] \<or> length m > MAX_METHOD_BYTES \<or> \<not> list_all is_http_token_byte (as_bytes m)
      then Inl InvalidMethod else Inr ())"

definition dpop_request_new :: "str \<Rightarrow> EffectiveRequestTarget \<Rightarrow> DpopError + DpopRequest" where
  "dpop_request_new m target =
     bindE (validate_method m) (\<lambda>_.
       Inr \<lparr>req_method = m, req_target = target, req_access_token = None, req_nonce = None\<rparr>)"

definition with_access_token :: "bytes \<Rightarrow> DpopRequest \<Rightarrow> DpopRequest" where
  "with_access_token t r = r\<lparr>req_access_token := Some t\<rparr>"

definition with_nonce :: "DpopNonce \<Rightarrow> DpopRequest \<Rightarrow> DpopRequest" where
  "with_nonce n r = r\<lparr>req_nonce := Some n\<rparr>"

subsection \<open>Percent-encoding\<close>

definition is_unreserved :: "u8 \<Rightarrow> bool" where
  "is_unreserved b \<longleftrightarrow>
     0x41 \<le> b \<and> b \<le> 0x5A \<or> 0x61 \<le> b \<and> b \<le> 0x7A \<or> 0x30 \<le> b \<and> b \<le> 0x39 \<or>
     b \<in> {0x2D, 0x2E, 0x5F, 0x7E}"

definition hex_value :: "u8 \<Rightarrow> u8 option" where
  "hex_value b =
     (if 0x30 \<le> b \<and> b \<le> 0x39 then Some (b - 0x30)
      else if 0x61 \<le> b \<and> b \<le> 0x66 then Some (b - 0x61 + 10)
      else if 0x41 \<le> b \<and> b \<le> 0x46 then Some (b - 0x41 + 10)
      else None)"

definition hex_upper :: "u8 \<Rightarrow> char" where
  "hex_upper v = char_from (if v \<le> 9 then 0x30 + v else 0x41 + (v - 10))"

text \<open>\<open>String::push(char::from(byte))\<close>: one byte below \<open>0x80\<close>, else the two of its UTF-8 form.\<close>

definition push_byte :: "u8 \<Rightarrow> str" where
  "push_byte b =
     (if b < 0x80 then [char_from b]
      else [char_from (0xC0 + drop_bit 6 b), char_from (0x80 + take_bit 6 b)])"

definition hex_pair :: "u8 \<Rightarrow> u8 \<Rightarrow> u8" where
  "hex_pair high low = or (push_bit 4 high) low"

text \<open>One escape \<open>%hl\<close>, decoded when it stands for an unreserved character.\<close>

definition percent_escape :: "u8 \<Rightarrow> u8 \<Rightarrow> str" where
  "percent_escape high low =
     (if is_unreserved (hex_pair high low) then push_byte (hex_pair high low)
      else [CHR ''%'', hex_upper high, hex_upper low])"

fun normalize_percent_encoding :: "str \<Rightarrow> DpopError + str" where
  "normalize_percent_encoding [] = Inr []"
| "normalize_percent_encoding (c # cs) =
     (if c \<noteq> CHR ''%'' then
        bindE (normalize_percent_encoding cs) (\<lambda>out. Inr (push_byte (byte_of c) @ out))
      else (case cs of
          h # l # rest \<Rightarrow>
            bindE (ok_or InvalidRequestTarget (hex_value (byte_of h))) (\<lambda>high.
            bindE (ok_or InvalidRequestTarget (hex_value (byte_of l))) (\<lambda>low.
            bindE (normalize_percent_encoding rest) (\<lambda>out.
              Inr (percent_escape high low @ out))))
        | _ \<Rightarrow> Inl InvalidRequestTarget))"

subsection \<open>Dot segments\<close>

definition remove_last_segment :: "str \<Rightarrow> str" where
  "remove_last_segment out =
     (case str_rfind (\<lambda>c. c = CHR ''/'') out of Some p \<Rightarrow> take p out | None \<Rightarrow> [])"

definition segment_end :: "str \<Rightarrow> nat" where
  "segment_end inp =
     (case strip_prefix inp ''/'' of
        Some stripped \<Rightarrow>
          (case str_find (\<lambda>c. c = CHR ''/'') stripped of Some p \<Rightarrow> p + 1 | None \<Rightarrow> length inp)
      | None \<Rightarrow> (case str_find (\<lambda>c. c = CHR ''/'') inp of Some p \<Rightarrow> p | None \<Rightarrow> length inp))"

lemma segment_end_pos: "inp \<noteq> [] \<Longrightarrow> 0 < segment_end inp"
  by (cases inp) (auto simp: segment_end_def strip_prefix_def starts_with_def split: option.splits)

text \<open>The loop of \<open>remove_dot_segments\<close>, on the input buffer and the output buffer.\<close>

function dot_segments_loop :: "str \<Rightarrow> str \<Rightarrow> str" where
  "dot_segments_loop inp out =
     (if inp = [] then out
      else if starts_with inp ''../'' then dot_segments_loop (drop 3 inp) out
      else if starts_with inp ''./'' then dot_segments_loop (drop 2 inp) out
      else if starts_with inp ''/./'' then dot_segments_loop (''/'' @ drop 3 inp) out
      else if inp = ''/.'' then dot_segments_loop ''/'' out
      else if starts_with inp ''/../'' then
        dot_segments_loop (''/'' @ drop 4 inp) (remove_last_segment out)
      else if inp = ''/..'' then dot_segments_loop ''/'' (remove_last_segment out)
      else if inp = ''.'' \<or> inp = ''..'' then dot_segments_loop [] out
      else dot_segments_loop (drop (segment_end inp) inp) (out @ take (segment_end inp) inp))"
  by auto
termination
proof (relation "measure (length \<circ> fst)", goal_cases)
  case (4 inp out)
  then show ?case by (auto dest!: starts_withE)
next
  case (6 inp out)
  then show ?case by (auto dest!: starts_withE)
next
  case (9 inp out)
  then show ?case using segment_end_pos [of inp] by simp
qed simp_all

declare dot_segments_loop.simps [simp del]

definition remove_dot_segments :: "str \<Rightarrow> str" where
  "remove_dot_segments path = dot_segments_loop path []"

subsection \<open>Authority\<close>

definition parse_port :: "str \<Rightarrow> DpopError + u16" where
  "parse_port raw_port =
     (if raw_port = [] \<or> \<not> list_all (\<lambda>c. is_ascii_digit (byte_of c)) raw_port
      then Inl InvalidRequestTarget
      else if digits_value 10 raw_port > 65535 then Inl InvalidRequestTarget
      else Inr (word_of_nat (digits_value 10 raw_port)))"

definition normalize_reg_name_host :: "str \<Rightarrow> DpopError + str" where
  "normalize_reg_name_host raw_host =
     bindE (normalize_percent_encoding raw_host) (\<lambda>normalized.
       normalize_percent_encoding (to_ascii_lowercase normalized))"

definition ipv6_authority :: "str \<Rightarrow> DpopError + str \<times> u16 option" where
  "ipv6_authority authority =
     bindE (ok_or InvalidRequestTarget (str_find (\<lambda>c. c = CHR '']'') authority)) (\<lambda>close.
     bindE (ok_or InvalidRequestTarget (ipv6_parse (drop 1 (take close authority)))) (\<lambda>ipv6.
       let tail = drop (close + 1) authority in
       bindE (if tail = [] then Inr None
              else bindE (ok_or InvalidRequestTarget (strip_prefix tail '':'')) (\<lambda>raw.
                   map_ok Some (parse_port raw))) (\<lambda>port.
         Inr (''['' @ ipv6_fmt ipv6 @ '']'', port))))"

definition reg_name_authority :: "str \<Rightarrow> DpopError + str \<times> u16 option" where
  "reg_name_authority authority =
     (if str_contains authority (CHR ''['') \<or> str_contains authority (CHR '']'') \<or>
         length (filter (\<lambda>c. c = CHR '':'') authority) > 1
      then Inl InvalidRequestTarget
      else bindE (case rsplit_once authority (CHR '':'') of
                    Some (host, raw_port) \<Rightarrow> map_ok (\<lambda>p. (host, Some p)) (parse_port raw_port)
                  | None \<Rightarrow> Inr (authority, None)) (\<lambda>(raw_host, port).
             if raw_host = [] then Inl InvalidRequestTarget
             else map_ok (\<lambda>host. (host, port)) (normalize_reg_name_host raw_host)))"

definition default_port :: "str \<Rightarrow> u16 option \<Rightarrow> bool" where
  "default_port scheme port \<longleftrightarrow>
     scheme = ''http'' \<and> port = Some 80 \<or> scheme = ''https'' \<and> port = Some 443"

definition normalize_authority :: "str \<Rightarrow> str \<Rightarrow> DpopError + str \<times> u16 option" where
  "normalize_authority authority scheme =
     bindE (if starts_with authority ''['' then ipv6_authority authority
            else reg_name_authority authority) (\<lambda>(host, port).
       Inr (host, if default_port scheme port then None else port))"

subsection \<open>Targets\<close>

definition find_first :: "str \<Rightarrow> char list \<Rightarrow> nat option" where
  "find_first inp needles = str_find (\<lambda>c. c \<in> set needles) inp"

definition port_text :: "u16 option \<Rightarrow> str" where
  "port_text port = (case port of None \<Rightarrow> [] | Some p \<Rightarrow> '':'' @ nat_to_string (unat p))"

definition target_byte_ok :: "char \<Rightarrow> bool" where
  "target_byte_ok c \<longleftrightarrow> \<not> (byte_of c \<le> 0x20 \<or> byte_of c = 0x7F)"

definition canonical_scheme :: "str \<Rightarrow> str option" where
  "canonical_scheme raw =
     (if eq_ignore_ascii_case raw ''https'' then Some ''https''
      else if eq_ignore_ascii_case raw ''http'' then Some ''http''
      else None)"

definition or_slash :: "str \<Rightarrow> str" where
  "or_slash p = (if p = [] then ''/'' else p)"

definition normalize_http_uri :: "str \<Rightarrow> DpopError + str" where
  "normalize_http_uri inp =
     (if inp = [] \<or> length inp > MAX_TARGET_BYTES \<or> \<not> is_ascii inp \<or> \<not> list_all target_byte_ok inp
      then Inl InvalidRequestTarget
      else
        bindE (ok_or InvalidRequestTarget (str_find (\<lambda>c. c = CHR '':'') inp)) (\<lambda>scheme_end.
        bindE (ok_or InvalidRequestTarget (canonical_scheme (take scheme_end inp))) (\<lambda>scheme.
        bindE (ok_or InvalidRequestTarget (strip_prefix (drop (scheme_end + 1) inp) ''//''))
          (\<lambda>after_slashes.
        let authority_end = (case find_first after_slashes ''/?#'' of
              Some i \<Rightarrow> i | None \<Rightarrow> length after_slashes);
            authority = take authority_end after_slashes;
            suffix = drop authority_end after_slashes
        in if authority = [] \<or> str_contains authority (CHR ''@'') then Inl InvalidRequestTarget
        else
        bindE (normalize_authority authority scheme) (\<lambda>(host, port).
        let path_end = (case find_first suffix ''?#'' of Some i \<Rightarrow> i | None \<Rightarrow> length suffix);
            raw_path = take path_end suffix
        in if raw_path \<noteq> [] \<and> \<not> starts_with raw_path ''/'' then Inl InvalidRequestTarget
        else
        bindE (normalize_percent_encoding (or_slash raw_path)) (\<lambda>percent_normalized.
        let path = remove_dot_segments percent_normalized
        in Inr (scheme @ ''://'' @ host @ port_text port @ or_slash path)))))))"

definition target_parse :: "str \<Rightarrow> DpopError + EffectiveRequestTarget" where
  "target_parse inp = map_ok EffectiveRequestTarget (normalize_http_uri inp)"

section \<open>Percent-encoding reaches its normal form in one pass\<close>

definition escape_normal :: "char \<Rightarrow> char \<Rightarrow> bool" where
  "escape_normal h l \<longleftrightarrow>
     (case (hex_value (byte_of h), hex_value (byte_of l)) of
        (Some a, Some b) \<Rightarrow> percent_escape a b = [CHR ''%'', h, l]
      | _ \<Rightarrow> False)"

fun percent_normal :: "str \<Rightarrow> bool" where
  "percent_normal [] = True"
| "percent_normal (c # cs) =
     (if c \<noteq> CHR ''%'' then percent_normal cs
      else (case cs of h # l # rest \<Rightarrow> escape_normal h l \<and> percent_normal rest | _ \<Rightarrow> False))"

definition unreserved_chars :: "char set" where
  "unreserved_chars = {c. is_unreserved (byte_of c)}"

lemma push_byte_ascii [simp]: "byte_of c < 128 \<Longrightarrow> push_byte (byte_of c) = [c]"
  by (simp add: push_byte_def)

lemma hex_value_upper:
  assumes "hex_value b = Some v"
  shows "hex_value (byte_of (hex_upper v)) = Some v" "is_unreserved (byte_of (hex_upper v))"
  using assms
  by (auto simp: hex_value_def hex_upper_def is_unreserved_def byte_arith split: if_splits)

lemma unreserved_byte:
  assumes "is_unreserved b"
  shows "push_byte b = [char_from b]" "b < 128"
  using assms by (auto simp: push_byte_def is_unreserved_def byte_arith split: if_splits)

lemma unreserved_target_byte:
  assumes "c \<in> unreserved_chars"
  shows "byte_of c < 128" "target_byte_ok c" "c \<notin> set ''/?#@[]:%''"
  using assms unfolding unreserved_chars_def mem_Collect_eq
  by (auto simp: is_unreserved_def target_byte_ok_def byte_arith)

text \<open>What one escape turns into, both ways.\<close>

lemma percent_escape_cases:
  assumes "hex_value h = Some a" "hex_value l = Some b"
  obtains c where "percent_escape a b = [c]" "c \<in> unreserved_chars"
  | u v where "percent_escape a b = [CHR ''%'', u, v]" "escape_normal u v"
      "u \<in> unreserved_chars" "v \<in> unreserved_chars"
proof (cases "is_unreserved (hex_pair a b)")
  case True
  then show ?thesis
    using that(1) [of "char_from (hex_pair a b)"]
    by (simp add: percent_escape_def unreserved_byte unreserved_chars_def)
next
  case False
  then show ?thesis
    using that(2) [of "hex_upper a" "hex_upper b"] hex_value_upper [OF assms(1)] hex_value_upper [OF assms(2)]
    by (simp add: percent_escape_def escape_normal_def unreserved_chars_def)
qed

lemma percent_normal_plain: "c \<in> unreserved_chars \<Longrightarrow> percent_normal (c # s) = percent_normal s"
  using unreserved_target_byte(3) by auto

text \<open>The result is in normal form, is ASCII, and holds no character that is neither of the
  input nor unreserved.\<close>

lemma normalize_percent_encoding_normal:
  assumes "normalize_percent_encoding s = Inr t" "is_ascii s"
  shows "percent_normal t \<and> is_ascii t \<and> set t \<subseteq> set s \<union> unreserved_chars \<and> (s \<noteq> [] \<longrightarrow> t \<noteq> [])"
  using assms
proof (induction s arbitrary: t rule: normalize_percent_encoding.induct)
  case 1
  then show ?case by simp
next
  case (2 c cs)
  show ?case
  proof (cases "c = CHR ''%''")
    case False
    then obtain out where "normalize_percent_encoding cs = Inr out" "t = c # out"
      using "2.prems" by (auto simp: result_simps)
    then show ?thesis
      using 2 False by auto
  next
    case True
    then obtain h l rest a b out where cs: "cs = h # l # rest"
      and hl: "hex_value (byte_of h) = Some a" "hex_value (byte_of l) = Some b"
      and out: "normalize_percent_encoding rest = Inr out" "t = percent_escape a b @ out"
      using "2.prems"(1) by (auto simp: result_simps split: list.splits)
    have asc: "byte_of c < 128"
      using "2.prems"(2) by simp
    have IH: "percent_normal out \<and> is_ascii out \<and> set out \<subseteq> set rest \<union> unreserved_chars"
      using "2.IH"(2) [OF _ cs refl out(1)] True "2.prems"(2) cs by auto
    from hl show ?thesis
    proof (cases rule: percent_escape_cases)
      case (1 d)
      then show ?thesis
        using IH out(2) cs unreserved_target_byte(1) [of d] percent_normal_plain [of d out] by auto
    next
      case (2 u v)
      then show ?thesis
        using IH out(2) cs True asc unreserved_target_byte(1) [of u] unreserved_target_byte(1) [of v]
        by auto
    qed
  qed
qed

lemma normalize_percent_encoding_fixed:
  "percent_normal s \<Longrightarrow> is_ascii s \<Longrightarrow> normalize_percent_encoding s = Inr s"
proof (induction s rule: percent_normal.induct)
  case (2 c cs)
  show ?case
  proof (cases "c = CHR ''%''")
    case True
    with 2 obtain h l rest where cs: "cs = h # l # rest" and e: "escape_normal h l" "percent_normal rest"
      by (auto split: list.splits)
    then show ?thesis
      using 2 True by (auto simp: escape_normal_def split: option.splits)
  qed (use 2 in auto)
qed simp

section \<open>Host names\<close>

text \<open>Lower-casing everything but the escapes.\<close>

fun lower_plain :: "str \<Rightarrow> str" where
  "lower_plain [] = []"
| "lower_plain (c # cs) =
     (if c \<noteq> CHR ''%'' then ascii_lower c # lower_plain cs
      else (case cs of h # l # rest \<Rightarrow> c # h # l # lower_plain rest | _ \<Rightarrow> c # cs))"

lemma ascii_lower_percent [simp]: "ascii_lower c = CHR ''%'' \<longleftrightarrow> c = CHR ''%''"
  by (auto simp: ascii_lower_def is_ascii_upper_def byte_arith char_nat_eq_iff split: if_splits)

lemma hex_value_ascii_lower [simp]: "hex_value (byte_of (ascii_lower c)) = hex_value (byte_of c)"
  by (auto simp: ascii_lower_def is_ascii_upper_def hex_value_def byte_arith split: if_splits)

lemma ascii_lower_unreserved: "ascii_lower c = c \<or> ascii_lower c \<in> unreserved_chars"
  using ascii_lower_cases [of c]
  by (auto simp: unreserved_chars_def is_unreserved_def is_ascii_lower_def)

text \<open>On a normal form, lower-casing and normalizing again lowers the plain characters only,
  and a second round changes nothing.\<close>

lemma lower_plain_facts:
  assumes "percent_normal s" "is_ascii s"
  shows "normalize_percent_encoding (to_ascii_lowercase s) = Inr (lower_plain s)"
    and "percent_normal (lower_plain s)" and "is_ascii (lower_plain s)"
    and "lower_plain (lower_plain s) = lower_plain s"
  using assms
proof (induction s rule: percent_normal.induct)
  case (2 c cs)
  {
    case 1
    then show ?case
      using 2 by (auto simp: to_ascii_lowercase_def escape_normal_def split: list.splits option.splits)
  next
    case 2
    then show ?case
      using "2.IH" by (auto split: list.splits)
  next
    case 3
    then show ?case
      using "2.IH" by (auto split: list.splits)
  next
    case 4
    then show ?case
      using "2.IH" by (auto split: list.splits)
  }
qed (simp_all add: to_ascii_lowercase_def)

lemma normalize_reg_name_host_fixed:
  assumes "normalize_reg_name_host r = Inr h" "is_ascii r"
  shows "normalize_reg_name_host h = Inr h" "is_ascii h"
    "set h \<subseteq> set r \<union> unreserved_chars" "r \<noteq> [] \<Longrightarrow> h \<noteq> []"
proof -
  obtain s where s: "normalize_percent_encoding r = Inr s"
    and h: "normalize_percent_encoding (to_ascii_lowercase s) = Inr h"
    using assms(1) by (auto simp: normalize_reg_name_host_def result_simps)
  note ns = normalize_percent_encoding_normal [OF s assms(2)]
  note lp = lower_plain_facts [of s]
  have "h = lower_plain s" using lp(1) ns h by simp
  then show "normalize_reg_name_host h = Inr h" "is_ascii h"
    using ns lp lower_plain_facts(1) [of h]
    by (simp_all add: normalize_reg_name_host_def normalize_percent_encoding_fixed)
  have "ascii_lower c \<in> set s \<union> unreserved_chars" if "c \<in> set s" for c
    using ascii_lower_unreserved [of c] that by (metis UnI1 UnI2)
  then have low: "is_ascii (to_ascii_lowercase s)"
    "set (to_ascii_lowercase s) \<subseteq> set s \<union> unreserved_chars"
    using ns by (auto simp: is_ascii_def list_all_iff to_ascii_lowercase_def)
  note nh = normalize_percent_encoding_normal [OF h low(1)]
  show "set h \<subseteq> set r \<union> unreserved_chars"
    using nh low(2) ns by auto
  show "r \<noteq> [] \<Longrightarrow> h \<noteq> []"
    using nh ns by (auto simp: to_ascii_lowercase_def)
qed

section \<open>Dot segments against a stack of segments\<close>

definition path_of :: "str list \<Rightarrow> str" where
  "path_of segs = concat (map (\<lambda>s. CHR ''/'' # s) segs)"

text \<open>RFC 3986, section 5.2.4, on segments: the stack holds the kept segments, last first; a
  final dot segment leaves an empty one.\<close>

fun resolve_segments :: "str list \<Rightarrow> str list \<Rightarrow> str list" where
  "resolve_segments [] st = rev st"
| "resolve_segments [s] st =
     (if s = ''.'' then rev ([] # st)
      else if s = ''..'' then rev ([] # tl st)
      else rev (s # st))"
| "resolve_segments (s # t # ss) st =
     (if s = ''.'' then resolve_segments (t # ss) st
      else if s = ''..'' then resolve_segments (t # ss) (tl st)
      else resolve_segments (t # ss) (s # st))"

lemma path_of_simps [simp]:
  "path_of [] = []"
  "path_of (s # ss) = CHR ''/'' # s @ path_of ss"
  "path_of (ss @ ts) = path_of ss @ path_of ts"
  by (simp_all add: path_of_def)

lemma path_of_split: "path_of (str_split (CHR ''/'') p) = CHR ''/'' # p"
  by (induction p) (auto split: list.splits)

lemma str_split_nonempty [simp]: "str_split c s \<noteq> []"
  by (cases s) (auto split: list.splits)

lemma str_rfind_last:
  assumes "\<forall>c \<in> set s. \<not> P c" "P d"
  shows "str_rfind P (a @ d # s) = Some (length a)"
  using assms str_find_append [of "rev s" P d "rev a"] by (simp add: str_rfind_def)

lemma remove_last_segment_push:
  "CHR ''/'' \<notin> set s \<Longrightarrow> remove_last_segment (a @ CHR ''/'' # s) = a"
  unfolding remove_last_segment_def by (subst str_rfind_last) auto

lemma remove_last_segment_path:
  "\<forall>s \<in> set st. CHR ''/'' \<notin> set s \<Longrightarrow>
     remove_last_segment (path_of (rev st)) = path_of (rev (tl st))"
proof (cases st)
  case Nil
  then show ?thesis by (simp add: remove_last_segment_def str_rfind_def)
next
  case (Cons s st')
  moreover assume "\<forall>s \<in> set st. CHR ''/'' \<notin> set s"
  ultimately show ?thesis by (simp add: remove_last_segment_push)
qed

lemma segment_end_last:
  assumes "CHR ''/'' \<notin> set s"
  shows "segment_end (CHR ''/'' # s) = Suc (length s)"
proof -
  have "str_find (\<lambda>c. c = CHR ''/'') s = None"
    using assms by (auto simp: str_find_None_iff)
  then show ?thesis by (simp add: segment_end_def strip_prefix_def starts_with_def)
qed

lemma segment_end_inner:
  assumes "CHR ''/'' \<notin> set s"
  shows "segment_end (CHR ''/'' # s @ CHR ''/'' # t) = Suc (length s)"
proof -
  have "str_find (\<lambda>c. c = CHR ''/'') (s @ CHR ''/'' # t) = Some (length s)"
    using assms by (intro str_find_append) auto
  then show ?thesis by (simp add: segment_end_def strip_prefix_def starts_with_def)
qed

text \<open>One step of the loop on a path whose first segment is \<open>s\<close>.\<close>

lemma take_segment:
  assumes "CHR ''/'' \<notin> set s" "CHR ''/'' \<notin> set p"
  shows "take (Suc (length p)) (s @ CHR ''/'' # t) = p @ ''/'' \<longleftrightarrow> s = p"
  using assms
proof (induction s arbitrary: p)
  case Nil
  then show ?case by (cases p) auto
next
  case (Cons c s)
  then show ?case by (cases p) auto
qed

lemma dot_loop_last:
  assumes "CHR ''/'' \<notin> set s"
  shows "dot_segments_loop (CHR ''/'' # s) out =
    (if s = ''.'' then out @ ''/''
     else if s = ''..'' then remove_last_segment out @ ''/''
     else out @ CHR ''/'' # s)"
proof -
  have fin: "dot_segments_loop [] o2 = o2" for o2
    by (simp add: dot_segments_loop.simps)
  have slash: "dot_segments_loop ''/'' o2 = o2 @ ''/''" for o2
    using segment_end_last [of "[]"]
    by (simp add: dot_segments_loop.simps [of "''/''"] starts_with_def fin)
  have tk: "take n s \<noteq> p @ ''/''" "take n s \<noteq> p @ ''/'' @ q" for n p q
    using assms in_set_takeD [of "CHR ''/''" n s] by (metis append_Cons in_set_conv_decomp)+
  show ?thesis
    using tk(1) [of 2 "''.''"] tk(1) [of 3 "''..''"]
    by (auto simp: dot_segments_loop.simps [of "CHR ''/'' # s"] starts_with_def slash fin
        numeral_2_eq_2 numeral_3_eq_3
        segment_end_last [OF assms])
qed

lemma dot_loop_inner:
  assumes "CHR ''/'' \<notin> set s"
  shows "dot_segments_loop (CHR ''/'' # s @ CHR ''/'' # t) out =
    (if s = ''.'' then dot_segments_loop (CHR ''/'' # t) out
     else if s = ''..'' then dot_segments_loop (CHR ''/'' # t) (remove_last_segment out)
     else dot_segments_loop (CHR ''/'' # t) (out @ CHR ''/'' # s))"
  using take_segment [OF assms, of "''.''" t] take_segment [OF assms, of "''..''" t]
  by (auto simp: dot_segments_loop.simps [of "CHR ''/'' # s @ CHR ''/'' # t"] starts_with_def
      segment_end_inner [OF assms] append_eq_Cons_conv)

lemma dot_segments_loop_resolve:
  assumes "segs \<noteq> []" "\<forall>s \<in> set segs \<union> set st. CHR ''/'' \<notin> set s"
  shows "dot_segments_loop (path_of segs) (path_of (rev st)) = path_of (resolve_segments segs st)"
  using assms
proof (induction segs st rule: resolve_segments.induct)
  case (2 s st)
  then show ?case by (auto simp: dot_loop_last remove_last_segment_path)
next
  case (3 s t ss st)
  have "set (tl st) \<subseteq> set st"
    by (cases st) auto
  then show ?case
    using 3 dot_loop_inner [of s "t @ path_of ss" "path_of (rev st)"]
    by (auto simp: remove_last_segment_path)
qed simp

lemma remove_dot_segments_resolve:
  "remove_dot_segments (CHR ''/'' # p) = path_of (resolve_segments (str_split (CHR ''/'') p) [])"
  using dot_segments_loop_resolve [of "str_split (CHR ''/'') p" "[]"]
  by (simp add: remove_dot_segments_def path_of_split str_split_pieces_no_sep)

lemma in_set_tlD: "x \<in> set (tl xs) \<Longrightarrow> x \<in> set xs"
  by (cases xs) auto

lemma resolve_segments_set:
  "set (resolve_segments segs st) \<subseteq> insert [] (set segs \<union> set st)"
  by (induction segs st rule: resolve_segments.induct) (auto dest: in_set_tlD)

lemma resolve_segments_no_dots:
  "\<forall>s \<in> set st. s \<noteq> ''.'' \<and> s \<noteq> ''..'' \<Longrightarrow>
   s \<in> set (resolve_segments segs st) \<Longrightarrow> s \<noteq> ''.'' \<and> s \<noteq> ''..''"
  by (induction segs st rule: resolve_segments.induct) (auto split: if_splits dest: in_set_tlD)

lemma resolve_segments_fixed:
  "\<forall>s \<in> set segs. s \<noteq> ''.'' \<and> s \<noteq> ''..'' \<Longrightarrow> resolve_segments segs st = rev st @ segs"
  by (induction segs st rule: resolve_segments.induct) auto

lemma resolve_segments_nonempty: "segs \<noteq> [] \<Longrightarrow> resolve_segments segs st \<noteq> []"
  by (induction segs st rule: resolve_segments.induct) auto

section \<open>Paths\<close>

lemma escape_normal_slash: "\<not> escape_normal (CHR ''/'') l" "\<not> escape_normal h (CHR ''/'')"
proof -
  have "hex_value (byte_of (CHR ''/'')) = None" by code_simp
  then show "\<not> escape_normal (CHR ''/'') l" "\<not> escape_normal h (CHR ''/'')"
    by (auto simp: escape_normal_def split: option.splits)
qed

lemma percent_normal_slash:
  "percent_normal (a @ CHR ''/'' # b) \<longleftrightarrow> percent_normal a \<and> percent_normal b"
proof (induction a rule: percent_normal.induct)
  case (2 c cs)
  show ?case
  proof (cases "c = CHR ''%''")
    case True
    consider "cs = []" | h where "cs = [h]" | h l rest where "cs = h # l # rest"
      by (metis list.exhaust)
    then show ?thesis
      using 2 True by cases (simp_all add: escape_normal_slash split: list.splits)
  qed (use 2 in simp)
qed simp

lemma percent_normal_path_of:
  "percent_normal (path_of segs) \<longleftrightarrow> (\<forall>s \<in> set segs. percent_normal s)"
proof (induction segs)
  case (Cons s segs)
  then show ?case
    by (cases segs) (simp_all add: percent_normal_slash)
qed simp

definition canonical_path :: "str \<Rightarrow> bool" where
  "canonical_path p \<longleftrightarrow>
     starts_with p ''/'' \<and> percent_normal p \<and> is_ascii p \<and> list_all target_byte_ok p \<and>
     set p \<inter> set ''?#'' = {} \<and> remove_dot_segments p = p"

lemma set_path_of: "c \<in> set (path_of segs) \<Longrightarrow> c = CHR ''/'' \<or> (\<exists>s \<in> set segs. c \<in> set s)"
  by (induction segs) auto

lemma remove_dot_segments_path:
  fixes p :: str
  defines "out \<equiv> resolve_segments (str_split (CHR ''/'') p) []"
  shows "remove_dot_segments (CHR ''/'' # p) = path_of out"
    and "starts_with (path_of out) ''/''"
    and "set (path_of out) \<subseteq> set (CHR ''/'' # p)"
    and "percent_normal (CHR ''/'' # p) \<Longrightarrow> percent_normal (path_of out)"
    and "remove_dot_segments (path_of out) = path_of out"
proof -
  have sub: "set out \<subseteq> insert [] (set (str_split (CHR ''/'') p))"
    using resolve_segments_set [of "str_split (CHR ''/'') p" "[]"] by (simp add: out_def)
  have ne: "out \<noteq> []"
    by (simp add: out_def resolve_segments_nonempty)
  then obtain s ss where out: "out = s # ss" by (cases out) auto
  show "remove_dot_segments (CHR ''/'' # p) = path_of out"
    by (simp add: remove_dot_segments_resolve out_def)
  show "starts_with (path_of out) ''/''"
    by (simp add: out starts_with_def)
  have "set s \<subseteq> set (CHR ''/'' # p)" if "s \<in> set (str_split (CHR ''/'') p)" for s
    using that by (subst path_of_split [symmetric]) (auto simp: path_of_def)
  then show "set (path_of out) \<subseteq> set (CHR ''/'' # p)"
    using sub by (fastforce dest: set_path_of)
  show "percent_normal (path_of out)" if "percent_normal (CHR ''/'' # p)"
    using that sub percent_normal_path_of [of "str_split (CHR ''/'') p"]
    by (auto simp: percent_normal_path_of path_of_split)
  have slash: "\<forall>s \<in> set out. CHR ''/'' \<notin> set s"
    using sub str_split_pieces_no_sep by auto
  have "\<forall>s \<in> set out. s \<noteq> ''.'' \<and> s \<noteq> ''..''"
    using resolve_segments_no_dots [of "[]"] by (auto simp: out_def)
  then show "remove_dot_segments (path_of out) = path_of out"
    using dot_segments_loop_resolve [OF ne, of "[]"] slash
    by (simp add: remove_dot_segments_def resolve_segments_fixed)
qed

text \<open>The path part of every accepted target is canonical.\<close>

lemma normalized_path_canonical:
  assumes "normalize_percent_encoding (CHR ''/'' # p) = Inr q" "is_ascii p"
    "list_all target_byte_ok p" "set p \<inter> set ''?#'' = {}"
  shows "canonical_path (or_slash (remove_dot_segments q))"
proof -
  obtain q' where q: "q = CHR ''/'' # q'"
    using assms(1) by (auto simp: result_simps push_byte_def byte_arith split: if_splits)
  have "byte_of (CHR ''/'') < 128" "target_byte_ok (CHR ''/'')" by code_simp+
  moreover note nq = normalize_percent_encoding_normal [OF assms(1)]
  ultimately have nq: "percent_normal q \<and> is_ascii q \<and> set q \<subseteq> set (CHR ''/'' # p) \<union> unreserved_chars"
    using assms(2) by simp
  let ?r = "remove_dot_segments q"
  note path = remove_dot_segments_path [of q', folded q]
  have sub: "set ?r \<subseteq> set q" using path by simp
  have "is_ascii ?r" "list_all target_byte_ok ?r" "set ?r \<inter> set ''?#'' = {}"
    using sub nq assms(3,4) unreserved_target_byte \<open>target_byte_ok (CHR ''/'')\<close>
    unfolding is_ascii_def list_all_iff by fastforce+
  moreover have "starts_with ?r ''/''" "percent_normal ?r" "remove_dot_segments ?r = ?r"
    using path nq by simp_all
  moreover from this have "?r \<noteq> []" by (auto simp: starts_with_def)
  ultimately show ?thesis
    by (simp add: canonical_path_def or_slash_def)
qed

section \<open>Authorities\<close>

definition host_delims :: str where
  "host_delims = ''/?#@[]:''"

definition canonical_reg_name :: "str \<Rightarrow> bool" where
  "canonical_reg_name h \<longleftrightarrow>
     h \<noteq> [] \<and> is_ascii h \<and> list_all target_byte_ok h \<and> normalize_reg_name_host h = Inr h \<and>
     set h \<inter> set host_delims = {}"

definition ipv6_literal :: "str \<Rightarrow> ipv6 \<Rightarrow> bool" where
  "ipv6_literal h a \<longleftrightarrow> wf_ipv6 a \<and> h = ''['' @ ipv6_fmt a @ '']''"

definition canonical_host :: "str \<Rightarrow> bool" where
  "canonical_host h \<longleftrightarrow> canonical_reg_name h \<or> (\<exists>a. ipv6_literal h a)"

lemma digit_char_facts:
  assumes "is_digit_of 16 c"
  shows "byte_of c < 128" "target_byte_ok c" "c \<notin> set host_delims"
  using assms
  by (auto simp: is_digit_of_def to_digit_def Let_def host_delims_def target_byte_ok_def byte_arith
      split: if_splits)

lemma is_digit_of_ascii_digit: "is_digit_of 10 c \<Longrightarrow> is_ascii_digit (byte_of c)"
  by (auto simp: is_digit_of_def to_digit_def Let_def is_ascii_digit_def byte_arith split: if_splits)

lemma nat_to_string_digit: "c \<in> set (nat_to_string n) \<Longrightarrow> is_digit_of 10 c"
  by (rule fmt_radix_digits; simp)

lemma parse_port_fmt: "parse_port (nat_to_string (unat p)) = Inr p"
proof -
  have "unat p < 65536"
    using unsigned_less [of p, where 'a = nat] by simp
  then show ?thesis
    by (auto simp: parse_port_def digits_value_fmt list_all_iff
        intro: is_digit_of_ascii_digit nat_to_string_digit)
qed

lemma set_port_text:
  "c \<in> set (port_text port) \<Longrightarrow> c = CHR '':'' \<or> is_digit_of 16 c"
  using nat_to_string_digit is_digit_of_mono by (auto simp: port_text_def split: option.splits)

lemma nat_to_string_no_colon: "CHR '':'' \<notin> set (nat_to_string n)"
  using nat_to_string_digit [of "CHR '':''" n] is_digit_of_punct(3) by blast

lemma ipv6_authority_fixed:
  assumes "wf_ipv6 a"
  shows "ipv6_authority ((''['' @ ipv6_fmt a @ '']'') @ port_text port) =
    Inr (''['' @ ipv6_fmt a @ '']'', port)"
proof -
  have no: "CHR '']'' \<notin> set (ipv6_fmt a)"
    using set_ipv6_fmt [of "CHR '']''" a] digit_char_facts(3) by (auto simp: host_delims_def)
  have "str_find (\<lambda>c. c = CHR '']'') ((''['' @ ipv6_fmt a) @ CHR '']'' # port_text port) =
      Some (length (''['' @ ipv6_fmt a))"
    using no by (intro str_find_append) auto
  then have f: "str_find (\<lambda>c. c = CHR '']'') ((''['' @ ipv6_fmt a @ '']'') @ port_text port) =
      Some (Suc (length (ipv6_fmt a)))"
    by simp
  show ?thesis
    unfolding ipv6_authority_def f
    by (cases port) (simp_all add: ipv6_parse_fmt assms Let_def port_text_def strip_prefix_def
        starts_with_def parse_port_fmt)
qed

lemma rsplit_once_port:
  "CHR '':'' \<notin> set p \<Longrightarrow> rsplit_once (h @ CHR '':'' # p) (CHR '':'') = Some (h, p)"
  unfolding rsplit_once_def by (subst str_rfind_last) auto

lemma rsplit_once_none: "c \<notin> set s \<Longrightarrow> rsplit_once s c = None"
  unfolding rsplit_once_def str_rfind_def by (auto simp: str_find_None_iff)

lemma reg_name_authority_fixed:
  assumes "canonical_reg_name h"
  shows "reg_name_authority (h @ port_text port) = Inr (h, port)"
proof -
  have h: "CHR '':'' \<notin> set h" "CHR ''['' \<notin> set h" "CHR '']'' \<notin> set h" "h \<noteq> []"
    "normalize_reg_name_host h = Inr h"
    using assms by (auto simp: canonical_reg_name_def host_delims_def)
  have p: "CHR ''['' \<notin> set (port_text port)" "CHR '']'' \<notin> set (port_text port)"
    using set_port_text [of _ port] digit_char_facts(3) by (force simp: host_delims_def)+
  have n: "filter (\<lambda>c. c = CHR '':'') s = []" if "CHR '':'' \<notin> set s" for s
    using that by (auto simp: filter_empty_conv)
  show ?thesis
    using h p nat_to_string_no_colon
    by (cases port) (simp_all add: reg_name_authority_def port_text_def rsplit_once_port
        rsplit_once_none n parse_port_fmt)
qed

text \<open>A canonical host and a port that is not the scheme's own are kept as they are.\<close>

lemma normalize_authority_fixed:
  assumes "canonical_host h" "\<not> default_port scheme port"
  shows "normalize_authority (h @ port_text port) scheme = Inr (h, port)"
proof (cases "canonical_reg_name h")
  case True
  then have "\<not> starts_with (h @ port_text port) ''[''"
    by (cases h) (auto simp: canonical_reg_name_def host_delims_def starts_with_def)
  then show ?thesis
    using assms True by (simp add: normalize_authority_def reg_name_authority_fixed)
next
  case False
  then obtain a where "wf_ipv6 a" "h = ''['' @ ipv6_fmt a @ '']''"
    using assms(1) by (auto simp: canonical_host_def ipv6_literal_def)
  then show ?thesis
    using assms(2) ipv6_authority_fixed [of a port]
    by (simp add: normalize_authority_def starts_with_def)
qed

lemma rsplit_once_SomeD:
  assumes "rsplit_once s c = Some (h, p)"
  shows "s = h @ c # p"
proof -
  obtain k where k: "str_find (\<lambda>d. d = c) (rev s) = Some k"
    and hp: "h = take (length s - 1 - k) s" "p = drop (Suc (length s - 1 - k)) s"
    using assms by (auto simp: rsplit_once_def str_rfind_def)
  have "k < length s" "s ! (length s - 1 - k) = c"
    using str_find_Some_take [OF k] by (auto simp: rev_nth)
  then show ?thesis
    using id_take_nth_drop [of "length s - 1 - k" s] hp by simp
qed

lemma reg_name_authority_raw:
  assumes "reg_name_authority authority = Inr (host, port)"
  shows "\<exists>raw. normalize_reg_name_host raw = Inr host \<and> raw \<noteq> [] \<and> set raw \<subseteq> set authority \<and>
    CHR '':'' \<notin> set raw \<and> CHR ''['' \<notin> set authority \<and> CHR '']'' \<notin> set authority"
proof (cases "rsplit_once authority (CHR '':'')")
  case None
  then have "CHR '':'' \<notin> set authority"
    by (auto simp: rsplit_once_def str_rfind_def str_find_None_iff)
  then show ?thesis
    using assms None by (auto simp: reg_name_authority_def result_simps split: if_splits)
next
  case (Some hp)
  obtain h p where hp: "hp = (h, p)" by fastforce
  have a: "authority = h @ CHR '':'' # p"
    using Some hp by (simp add: rsplit_once_SomeD)
  have "length (filter (\<lambda>c. c = CHR '':'') authority) \<le> 1"
    using assms by (auto simp: reg_name_authority_def not_less split: if_splits)
  then have "CHR '':'' \<notin> set h"
    by (auto simp: a filter_empty_conv)
  then show ?thesis
    using assms Some hp a by (auto simp: reg_name_authority_def result_simps split: if_splits)
qed

lemma reg_name_authority_canonical:
  assumes "reg_name_authority authority = Inr (host, port)" "is_ascii authority"
    "list_all target_byte_ok authority" "set authority \<inter> set ''/?#@'' = {}"
  shows "canonical_reg_name host"
proof -
  obtain raw where raw: "normalize_reg_name_host raw = Inr host" "raw \<noteq> []" "set raw \<subseteq> set authority"
    and colon: "CHR '':'' \<notin> set raw"
    and br: "CHR ''['' \<notin> set authority" "CHR '']'' \<notin> set authority"
    using reg_name_authority_raw [OF assms(1)] by blast
  have "is_ascii raw"
    using assms(2) raw(3) by (auto simp: is_ascii_def list_all_iff)
  note nf = normalize_reg_name_host_fixed [OF raw(1) this]
  have "list_all target_byte_ok host" "set host \<inter> set host_delims = {}"
    using nf(3) raw(3) assms(3,4) colon br unreserved_target_byte
    unfolding list_all_iff host_delims_def by fastforce+
  then show ?thesis
    using nf raw(2) by (simp add: canonical_reg_name_def)
qed

lemma ipv6_authority_canonical:
  "ipv6_authority authority = Inr (host, port) \<Longrightarrow> \<exists>a. ipv6_literal host a"
  by (auto simp: ipv6_authority_def ipv6_literal_def Let_def result_simps dest!: ipv6_parse_wf)

lemma normalize_authority_canonical:
  assumes "normalize_authority authority scheme = Inr (host, port)" "is_ascii authority"
    "list_all target_byte_ok authority" "set authority \<inter> set ''/?#@'' = {}"
  shows "canonical_host host" "\<not> default_port scheme port"
proof -
  show "\<not> default_port scheme port"
    using assms(1) by (auto simp: normalize_authority_def default_port_def result_simps split: if_splits)
  obtain port' where "(if starts_with authority ''['' then ipv6_authority authority
      else reg_name_authority authority) = Inr (host, port')"
    using assms(1) by (auto simp: normalize_authority_def result_simps simp del: if_split)
  then show "canonical_host host"
    using ipv6_authority_canonical reg_name_authority_canonical [OF _ assms(2-4)]
    by (auto simp: canonical_host_def split: if_splits)
qed

section \<open>Targets\<close>

lemma canonical_host_chars:
  assumes "canonical_host h"
  shows "is_ascii h" "list_all target_byte_ok h" "set h \<inter> set ''/?#@'' = {}" "h \<noteq> []"
proof -
  have br: "byte_of (CHR ''['') < 128" "byte_of (CHR '']'') < 128" "byte_of (CHR '':'') < 128"
    "byte_of (CHR ''.'') < 128" "target_byte_ok (CHR ''['')" "target_byte_ok (CHR '']'')"
    "target_byte_ok (CHR '':'')" "target_byte_ok (CHR ''.'')"
    by code_simp+
  have lit: "c \<in> set h \<Longrightarrow> byte_of c < 128 \<and> target_byte_ok c \<and> c \<notin> set ''/?#@''"
    if "ipv6_literal h a" for a c
    using that set_ipv6_fmt [of c a] digit_char_facts [of c] br
    by (auto simp: ipv6_literal_def host_delims_def)
  have reg: "c \<in> set h \<Longrightarrow> byte_of c < 128 \<and> target_byte_ok c \<and> c \<notin> set ''/?#@''"
    if "canonical_reg_name h" for c
    using that by (auto simp: canonical_reg_name_def host_delims_def is_ascii_def list_all_iff)
  have "c \<in> set h \<Longrightarrow> byte_of c < 128 \<and> target_byte_ok c \<and> c \<notin> set ''/?#@''" for c
    using assms lit reg unfolding canonical_host_def by blast
  then show "is_ascii h" "list_all target_byte_ok h" "set h \<inter> set ''/?#@'' = {}"
    unfolding is_ascii_def list_all_iff by blast+
  show "h \<noteq> []"
    using assms by (auto simp: canonical_host_def canonical_reg_name_def ipv6_literal_def)
qed

lemma port_text_chars:
  "is_ascii (port_text port)" "list_all target_byte_ok (port_text port)"
  "set (port_text port) \<inter> set ''/?#@'' = {}"
proof -
  have "byte_of (CHR '':'') < 128" "target_byte_ok (CHR '':'')"
    by code_simp+
  then have "c \<in> set (port_text port) \<Longrightarrow> byte_of c < 128 \<and> target_byte_ok c \<and> c \<notin> set ''/?#@''" for c
    using set_port_text [of c port] digit_char_facts [of c] by (auto simp: host_delims_def)
  then show "is_ascii (port_text port)" "list_all target_byte_ok (port_text port)"
    "set (port_text port) \<inter> set ''/?#@'' = {}"
    unfolding is_ascii_def list_all_iff by blast+
qed

text \<open>The shape of a normalized target, and that the normalizer keeps every text of that shape.\<close>

definition canonical_target :: "str \<Rightarrow> str \<Rightarrow> u16 option \<Rightarrow> str \<Rightarrow> bool" where
  "canonical_target scheme host port path \<longleftrightarrow>
     (scheme = ''http'' \<or> scheme = ''https'') \<and> canonical_host host \<and>
     \<not> default_port scheme port \<and> canonical_path path"

lemma scheme_facts:
  assumes "s = ''http'' \<or> s = ''https''"
  shows "CHR '':'' \<notin> set s \<and> canonical_scheme s = Some s \<and> is_ascii s \<and>
    list_all target_byte_ok s \<and> s \<noteq> []"
proof -
  have "list_all (\<lambda>s. CHR '':'' \<notin> set s \<and> canonical_scheme s = Some s \<and> is_ascii s \<and>
      list_all target_byte_ok s \<and> s \<noteq> []) [''http'', ''https'']"
    by code_simp
  then show ?thesis using assms by (auto simp only: list.pred_inject)
qed

lemma normalize_http_uri_fixed:
  assumes "canonical_target scheme host port path"
    and len: "length (scheme @ ''://'' @ host @ port_text port @ path) \<le> MAX_TARGET_BYTES"
  shows "normalize_http_uri (scheme @ ''://'' @ host @ port_text port @ path) =
    Inr (scheme @ ''://'' @ host @ port_text port @ path)"
proof -
  let ?auth = "host @ port_text port"
  let ?n = "scheme @ CHR '':'' # ''//'' @ ?auth @ path"
  have sl: "is_ascii ''://''" "list_all target_byte_ok ''://''"
    by code_simp+
  have scheme: "CHR '':'' \<notin> set scheme" "canonical_scheme scheme = Some scheme" "is_ascii scheme"
    "list_all target_byte_ok scheme" "scheme \<noteq> []"
    using assms(1) scheme_facts [of scheme] by (simp_all add: canonical_target_def)
  have host: "canonical_host host" and nd: "\<not> default_port scheme port" and path: "canonical_path path"
    using assms(1) by (simp_all add: canonical_target_def)
  obtain p where p: "path = CHR ''/'' # p"
    using path by (auto simp: canonical_path_def dest!: starts_withE)
  have chars: "is_ascii ?n" "list_all target_byte_ok ?n"
    using scheme sl canonical_host_chars [OF host] port_text_chars [of port] path
    by (simp_all add: canonical_path_def)
  have colon: "str_find (\<lambda>c. c = CHR '':'') ?n = Some (length scheme)"
    using scheme(1) by (intro str_find_append) auto
  have delim: "set ?auth \<inter> set ''/?#'' = {}" "CHR ''@'' \<notin> set ?auth"
    using canonical_host_chars(3) [OF host] port_text_chars(3) [of port] by auto
  have slash: "find_first (?auth @ path) ''/?#'' = Some (length ?auth)"
    unfolding find_first_def p using delim(1) by (intro str_find_append) auto
  have query: "find_first path ''?#'' = None"
    unfolding find_first_def using path by (auto simp: str_find_None_iff canonical_path_def)
  have pct: "normalize_percent_encoding path = Inr path" "remove_dot_segments path = path"
    using path by (simp_all add: canonical_path_def normalize_percent_encoding_fixed)
  have "normalize_http_uri ?n = Inr ?n"
    unfolding normalize_http_uri_def
    using len scheme chars colon slash query pct delim(2) canonical_host_chars(4) [OF host]
      normalize_authority_fixed [OF host nd]
    by (simp add: strip_prefix_def starts_with_def Let_def or_slash_def p)
  then show ?thesis by simp
qed

lemma find_first_take:
  "set (take (case find_first s ds of Some i \<Rightarrow> i | None \<Rightarrow> length s) s) \<inter> set ds = {}"
  by (auto simp: find_first_def str_find_None_iff split: option.splits dest: str_find_Some_take)

lemma list_all_take_drop:
  "list_all P s \<Longrightarrow> list_all P (take n s)" "list_all P s \<Longrightarrow> list_all P (drop n s)"
  by (auto simp: list_all_iff dest: in_set_takeD in_set_dropD)

lemma normalize_http_uri_canonical:
  assumes "normalize_http_uri inp = Inr n"
  shows "\<exists>scheme host port path. n = scheme @ ''://'' @ host @ port_text port @ path \<and>
    canonical_target scheme host port path"
proof -
  obtain k scheme rest authority suffix host port q raw where
      asc: "is_ascii inp" "list_all target_byte_ok inp"
    and scheme: "canonical_scheme (take k inp) = Some scheme"
    and rest: "drop (k + 1) inp = ''//'' @ rest"
    and auth: "authority = take (case find_first rest ''/?#'' of Some i \<Rightarrow> i | None \<Rightarrow> length rest) rest"
    and suffix: "suffix = drop (case find_first rest ''/?#'' of Some i \<Rightarrow> i | None \<Rightarrow> length rest) rest"
    and at: "CHR ''@'' \<notin> set authority"
    and na: "normalize_authority authority scheme = Inr (host, port)"
    and raw: "raw = take (case find_first suffix ''?#'' of Some i \<Rightarrow> i | None \<Rightarrow> length suffix) suffix"
    and rp: "raw = [] \<or> starts_with raw ''/''"
    and q: "normalize_percent_encoding (or_slash raw) = Inr q"
    and n: "n = scheme @ ''://'' @ host @ port_text port @ or_slash (remove_dot_segments q)"
    using assms
    by (auto simp: normalize_http_uri_def Let_def result_simps strip_prefix_Some_iff split: if_splits)
  have ok: "is_ascii rest" "list_all target_byte_ok rest"
    using list_all_take_drop(2) [of _ inp "k + 1"] asc rest by (simp_all add: is_ascii_def)
  have "canonical_host host" "\<not> default_port scheme port"
    using normalize_authority_canonical [OF na] at find_first_take [of rest "''/?#''"] ok
    by (auto simp: auth is_ascii_def list_all_take_drop)
  moreover obtain p where p: "or_slash raw = CHR ''/'' # p" "set p \<subseteq> set raw"
    using rp by (cases raw) (auto simp: or_slash_def starts_with_def)
  have okr: "is_ascii raw" "list_all target_byte_ok raw" "set raw \<inter> set ''?#'' = {}"
    using ok find_first_take [of suffix "''?#''"]
    by (simp_all add: raw suffix is_ascii_def list_all_take_drop)
  have "canonical_path (or_slash (remove_dot_segments q))"
    using normalized_path_canonical [OF q [unfolded p]] okr p(2)
    by (auto simp: is_ascii_def list_all_iff)
  moreover have "scheme = ''http'' \<or> scheme = ''https''"
    using scheme by (auto simp: canonical_scheme_def split: if_splits)
  ultimately show ?thesis
    using n by (auto simp: canonical_target_def)
qed

section \<open>Query and fragment\<close>

lemma find_first_split:
  "take (case find_first s ds of Some i \<Rightarrow> i | None \<Rightarrow> length s) s = takeWhile (\<lambda>c. c \<notin> set ds) s"
  "drop (case find_first s ds of Some i \<Rightarrow> i | None \<Rightarrow> length s) s = dropWhile (\<lambda>c. c \<notin> set ds) s"
  unfolding find_first_def by (induction s) (auto split: option.splits)

text \<open>The normalizer with its two searches written as prefix scans.\<close>

definition authority_of :: "str \<Rightarrow> str" where
  "authority_of rest = takeWhile (\<lambda>c. c \<notin> set ''/?#'') rest"

definition raw_path_of :: "str \<Rightarrow> str" where
  "raw_path_of rest =
     takeWhile (\<lambda>c. c \<notin> set ''?#'') (dropWhile (\<lambda>c. c \<notin> set ''/?#'') rest)"

definition assemble_target :: "str \<Rightarrow> str \<Rightarrow> str \<Rightarrow> DpopError + str" where
  "assemble_target scheme authority raw_path =
     (if authority = [] \<or> CHR ''@'' \<in> set authority then Inl InvalidRequestTarget
      else bindE (normalize_authority authority scheme) (\<lambda>(host, port).
        if raw_path \<noteq> [] \<and> \<not> starts_with raw_path ''/'' then Inl InvalidRequestTarget
        else bindE (normalize_percent_encoding (or_slash raw_path)) (\<lambda>q.
          Inr (scheme @ ''://'' @ host @ port_text port @ or_slash (remove_dot_segments q)))))"

lemma normalize_http_uri_scan:
  "normalize_http_uri inp =
     (if inp = [] \<or> length inp > MAX_TARGET_BYTES \<or> \<not> is_ascii inp \<or> \<not> list_all target_byte_ok inp
      then Inl InvalidRequestTarget
      else
        bindE (ok_or InvalidRequestTarget (str_find (\<lambda>c. c = CHR '':'') inp)) (\<lambda>k.
        bindE (ok_or InvalidRequestTarget (canonical_scheme (take k inp))) (\<lambda>scheme.
        bindE (ok_or InvalidRequestTarget (strip_prefix (drop (k + 1) inp) ''//'')) (\<lambda>rest.
          assemble_target scheme (authority_of rest) (raw_path_of rest)))))"
  unfolding normalize_http_uri_def Let_def find_first_split str_contains_iff assemble_target_def
    authority_of_def raw_path_of_def by simp

lemma parts_before_query:
  assumes "d = CHR ''?'' \<or> d = CHR ''#''" "set r \<inter> set ''?#'' = {}"
  shows "authority_of (r @ d # t) = authority_of r" "raw_path_of (r @ d # t) = raw_path_of r"
proof -
  have "takeWhile (\<lambda>c. c \<notin> set ''?#'') (s @ d # t) = takeWhile (\<lambda>c. c \<notin> set ''?#'') s" for s
    using assms(1) by (induction s) auto
  then show "authority_of (r @ d # t) = authority_of r" "raw_path_of (r @ d # t) = raw_path_of r"
    using assms unfolding authority_of_def raw_path_of_def by (induction r) auto
qed

lemma canonical_scheme_query:
  assumes "c = CHR ''?'' \<or> c = CHR ''#''" "c \<in> set s"
  shows "canonical_scheme s = None"
proof -
  have "ascii_lower (CHR ''?'') = CHR ''?''" "ascii_lower (CHR ''#'') = CHR ''#''"
    by code_simp+
  then have "c \<in> set (to_ascii_lowercase s)"
    using assms by (force simp: to_ascii_lowercase_def)
  moreover have "to_ascii_lowercase ''http'' = ''http''" "to_ascii_lowercase ''https'' = ''https''"
    by code_simp+
  ultimately show ?thesis
    using assms(1) by (auto simp: canonical_scheme_def eq_ignore_ascii_case_def)
qed

lemma str_find_append_None:
  "str_find P a = None \<Longrightarrow> str_find P (a @ b) = map_option (\<lambda>i. length a + i) (str_find P b)"
  by (induction a) (cases "str_find P b"; auto split: if_splits)+

lemma str_find_append_Some: "str_find P a = Some i \<Longrightarrow> str_find P (a @ b) = Some i"
  by (induction a arbitrary: i) (auto split: if_splits)

lemma strip_slashes_append:
  assumes "d = CHR ''?'' \<or> d = CHR ''#''"
  shows "strip_prefix (s @ d # t) ''//'' = map_option (\<lambda>r. r @ d # t) (strip_prefix s ''//'')"
  using assms by (cases s; cases "tl s") (auto simp: strip_prefix_def starts_with_def)

lemma normalize_http_uri_query:
  assumes d: "d = CHR ''?'' \<or> d = CHR ''#''" and u: "set u \<inter> set ''?#'' = {}"
    and t: "is_ascii (d # t)" "list_all target_byte_ok (d # t)"
    and len: "length (u @ d # t) \<le> MAX_TARGET_BYTES"
  shows "normalize_http_uri (u @ d # t) = normalize_http_uri u"
proof (cases "str_find (\<lambda>c. c = CHR '':'') u")
  case None
  have "canonical_scheme (take (length u + k) (u @ d # t)) = None"
    if "str_find (\<lambda>c. c = CHR '':'') (d # t) = Some k" for k
    using that d by (intro canonical_scheme_query [OF d]) (cases k, auto split: if_splits)
  then have "normalize_http_uri (u @ d # t) = Inl InvalidRequestTarget"
    using None
    by (auto simp: normalize_http_uri_scan str_find_append_None bindE_def ok_or_def
        split: sum.splits option.splits)
  moreover have "normalize_http_uri u = Inl InvalidRequestTarget"
    using None by (simp add: normalize_http_uri_scan)
  ultimately show ?thesis by simp
next
  case (Some k)
  have k: "k < length u" using str_find_Some_take [OF Some] by simp
  then have ne: "u \<noteq> []" by auto
  have sub: "set r \<inter> set ''?#'' = {}" if "strip_prefix (drop (k + 1) u) ''//'' = Some r" for r
  proof -
    have "set r \<subseteq> set (drop (k + 1) u)"
      using that by (auto simp: strip_prefix_Some_iff)
    then show ?thesis using u set_drop_subset [of "k + 1" u] by blast
  qed
  show ?thesis
  proof (cases "strip_prefix (drop (k + 1) u) ''//''")
    case None
    then show ?thesis
      using k ne len t
      by (simp add: normalize_http_uri_scan str_find_append_Some [OF Some] Some strip_slashes_append [OF d])
  next
    case (Some r)
    then show ?thesis
      using k ne len t parts_before_query [OF d sub [OF Some]] str_find_append_Some [OF \<open>str_find _ u = _\<close>]
        \<open>str_find _ u = _\<close>
      by (simp add: normalize_http_uri_scan strip_slashes_append [OF d])
  qed
qed

section \<open>The normalized text can outgrow the input bound\<close>

lemma replicate_a_host: "canonical_reg_name (replicate (Suc n) (CHR ''a''))"
proof -
  have a: "byte_of (CHR ''a'') < 128" "target_byte_ok (CHR ''a'')" "ascii_lower (CHR ''a'') = CHR ''a''"
    by code_simp+
  have "percent_normal (replicate k (CHR ''a''))" for k
    by (induction k) simp_all
  moreover have asc: "is_ascii (replicate k (CHR ''a''))" for k
    using a by (simp add: is_ascii_def list_all_iff)
  ultimately have "normalize_percent_encoding (replicate k (CHR ''a'')) = Inr (replicate k (CHR ''a''))" for k
    by (simp add: normalize_percent_encoding_fixed)
  then have "normalize_reg_name_host (replicate (Suc n) (CHR ''a'')) = Inr (replicate (Suc n) (CHR ''a''))"
    by (simp only: normalize_reg_name_host_def bindE_simps to_ascii_lowercase_def map_replicate a(3))
  then show ?thesis
    using asc [of "Suc n"] a(2) unfolding canonical_reg_name_def
    by (auto simp: list_all_iff host_delims_def)
qed

lemma target_replicate_a:
  fixes n :: nat
  defines "h \<equiv> replicate (Suc n) (CHR ''a'')"
  assumes "Suc n + 7 \<le> MAX_TARGET_BYTES"
  shows "normalize_http_uri (''http://'' @ h) = Inr (''http://'' @ h @ ''/'')"
proof -
  have host: "canonical_host h"
    using replicate_a_host [of n] by (simp add: canonical_host_def h_def)
  have no_default: "\<not> default_port ''http'' None"
    by (simp add: default_port_def)
  have auth: "normalize_authority h ''http'' = Inr (h, None)"
    using normalize_authority_fixed [OF host no_default] by (simp add: port_text_def)
  have sch: "canonical_scheme ''http'' = Some ''http''" "is_ascii ''http://''"
      "list_all target_byte_ok ''http://''"
      "normalize_percent_encoding ''/'' = Inr ''/''" "remove_dot_segments ''/'' = ''/''"
    by code_simp+
  have colon: "str_find (\<lambda>c. c = CHR '':'') (''http'' @ CHR '':'' # ''//'' @ h) = Some (length ''http'')"
    by (rule str_find_append) auto
  have h: "set h = {CHR ''a''}" "h \<noteq> []" "length h = Suc n"
    unfolding h_def set_replicate_Suc by simp_all
  have rest: "dropWhile (\<lambda>c. c \<notin> set ''/?#'') h = []"
    unfolding dropWhile_eq_Nil_conv h(1) by simp
  have raw: "raw_path_of h = []"
    unfolding raw_path_of_def rest by (rule takeWhile.simps(1))
  have scan: "authority_of h = h" "CHR ''@'' \<notin> set h"
    unfolding authority_of_def takeWhile_eq_all_conv h(1) by simp_all
  have parts: "assemble_target ''http'' h [] = Inr (''http://'' @ h @ ''/'')"
    using auth scan(2) h(2) sch(4,5) unfolding assemble_target_def or_slash_def port_text_def by simp
  have "normalize_http_uri (''http'' @ CHR '':'' # ''//'' @ h) = Inr (''http://'' @ h @ ''/'')"
    using assms(2) canonical_host_chars [OF host] sch(1-3) h(3) colon scan raw parts
    by (simp add: normalize_http_uri_scan strip_prefix_def starts_with_def)
  then show ?thesis by simp
qed

section \<open>Well-formed requests\<close>

lemma target_parse_fixed:
  assumes "target_parse u = Inr t" "length (target_str t) \<le> MAX_TARGET_BYTES"
  shows "target_parse (target_str t) = Inr t"
proof -
  obtain n where n: "normalize_http_uri u = Inr n" "t = EffectiveRequestTarget n"
    using assms(1) by (auto simp: target_parse_def result_simps)
  obtain scheme host port path where "n = scheme @ ''://'' @ host @ port_text port @ path"
    "canonical_target scheme host port path"
    using normalize_http_uri_canonical [OF n(1)] by blast
  then show ?thesis
    using normalize_http_uri_fixed [of scheme host port path] assms(2) n(2)
    by (simp add: target_parse_def)
qed

text \<open>What the constructors of the request's parts guarantee, and that its target's text is
  within the bound (which they do not guarantee).\<close>

definition wf_request :: "DpopRequest \<Rightarrow> bool" where
  "wf_request r \<longleftrightarrow>
     is_ok (validate_method (req_method r)) \<and>
     (\<exists>u. target_parse u = Inr (req_target r)) \<and>
     length (target_str (req_target r)) \<le> MAX_TARGET_BYTES \<and>
     (case req_nonce r of None \<Rightarrow> True | Some n \<Rightarrow> is_ok (nonce_new (nonce_str n)))"

lemma target_parse_nonempty: "target_parse u = Inr t \<Longrightarrow> target_str t \<noteq> []"
  using normalize_http_uri_canonical [of u] by (auto simp: target_parse_def result_simps)

lemma wf_requestD:
  assumes "wf_request r"
  shows "req_method r \<noteq> []" "length (req_method r) \<le> MAX_METHOD_BYTES"
    "target_parse (target_str (req_target r)) = Inr (req_target r)"
    "target_str (req_target r) \<noteq> []" "length (target_str (req_target r)) \<le> MAX_TARGET_BYTES"
    "req_nonce r = Some n \<Longrightarrow> nonce_str n \<noteq> [] \<and> length (nonce_str n) \<le> MAX_NONCE_BYTES"
  using assms target_parse_fixed target_parse_nonempty
  by (auto simp: wf_request_def validate_method_def nonce_new_def split: if_splits option.splits)

section \<open>Properties\<close>

text \<open>C15. Parsing the text of a parsed target gives the same target: the normal form is a fixed
  point of the normalizer, whatever the spelling of the input (as long as the text fits the
  input bound).\<close>

theorem target_parse_idempotent:
  assumes "target_parse u = Inr t" "length (target_str t) \<le> MAX_TARGET_BYTES"
  shows "target_parse (target_str t) = Inr t"
  using assms by (rule target_parse_fixed)

theorem target_parse_idempotent_witness:
  "target_parse ''http://a/b'' = Inr (EffectiveRequestTarget ''http://a/b'')"
proof -
  have parsed: "target_parse ''HTTP://A:80/c/../%62'' = Inr (EffectiveRequestTarget ''http://a/b'')"
    by code_simp
  have bound: "length (target_str (EffectiveRequestTarget ''http://a/b'')) \<le> MAX_TARGET_BYTES"
    by (simp add: MAX_TARGET_BYTES_def)
  show ?thesis
    using target_parse_idempotent [OF parsed bound] by simp
qed

text \<open>Query and fragment take no part in the target: appending either to a URI that has
  none leaves the outcome of the normalizer, success or failure, as it was.\<close>

lemma target_parse_ignores_query:
  assumes "d = CHR ''?'' \<or> d = CHR ''#''" "set u \<inter> set ''?#'' = {}"
    and "is_ascii (d # t)" "list_all target_byte_ok (d # t)"
    and "length (u @ d # t) \<le> MAX_TARGET_BYTES"
  shows "target_parse (u @ d # t) = target_parse u"
  using normalize_http_uri_query [OF assms] by (simp add: target_parse_def)

text \<open>C19. The buffer loop of \<open>remove_dot_segments\<close> computes, on every absolute path, the
  resolution of its segments on a stack, and no dot segment survives.\<close>

theorem remove_dot_segments_correct:
  "\<exists>segs. remove_dot_segments (CHR ''/'' # p) = path_of segs \<and>
     segs = resolve_segments (str_split (CHR ''/'') p) [] \<and>
     ''.'' \<notin> set segs \<and> ''..'' \<notin> set segs"
  using remove_dot_segments_resolve [of p] resolve_segments_no_dots [of "[]" _ "str_split (CHR ''/'') p"]
  by auto

text \<open>The input bound is not kept by the output: a URI of 2048 bytes without a path is
  accepted, and the text of the resulting target, one byte longer, is refused by the parser.\<close>

lemma target_text_exceeds_bound:
  "target_parse (''http://'' @ replicate 2041 (CHR ''a'')) =
     Inr (EffectiveRequestTarget (''http://'' @ replicate 2041 (CHR ''a'') @ ''/'')) \<and>
   target_parse (''http://'' @ replicate 2041 (CHR ''a'') @ ''/'') = Inl InvalidRequestTarget"
  using target_replicate_a [of 2040]
  by (simp add: target_parse_def MAX_TARGET_BYTES_def normalize_http_uri_scan del: replicate_Suc)

end
