(* ===== verification/Dpop_Proof.thy ===== *)
theory Dpop_Proof
  imports Dpop_Request
begin

text \<open>
  Building, parsing and verifying DPoP proofs (\<open>keylix-dpop/src/proof.rs\<close>).

  \<open>unverified_parse\<close> is \<open>UnverifiedDpopProof::parse\<close>, \<open>dpop_build\<close> is
  \<open>DpopProofBuilder::build\<close> and \<open>dpop_verify\<close> is \<open>DpopVerifier::verify\<close>. The verifier takes the
  reading of its clock and the replay store's \<open>check_and_record\<close>, a function on the store's
  state, as arguments and returns the store's new state with its result.
\<close>

section \<open>Data\<close>

definition MAX_PROOF_BYTES :: nat where
  "MAX_PROOF_BYTES = 8192"

definition MAX_HEADER_BYTES :: nat where
  "MAX_HEADER_BYTES = 2048"

definition MAX_PAYLOAD_BYTES :: nat where
  "MAX_PAYLOAD_BYTES = 4096"

definition MAX_SIGNATURE_BYTES :: nat where
  "MAX_SIGNATURE_BYTES = 128"

definition MAX_JTI_BYTES :: nat where
  "MAX_JTI_BYTES = 256"

definition MAX_HTM_BYTES :: nat where
  "MAX_HTM_BYTES = 64"

definition MAX_HTU_BYTES :: nat where
  "MAX_HTU_BYTES = 2048"

definition SHA256_BASE64URL_BYTES :: nat where
  "SHA256_BASE64URL_BYTES = 43"

definition ES256_SIGNATURE_BYTES :: nat where
  "ES256_SIGNATURE_BYTES = 64"

lemmas proof_bounds = MAX_PROOF_BYTES_def MAX_HEADER_BYTES_def MAX_PAYLOAD_BYTES_def
  MAX_SIGNATURE_BYTES_def MAX_JTI_BYTES_def MAX_HTM_BYTES_def MAX_HTU_BYTES_def
  SHA256_BASE64URL_BYTES_def ES256_SIGNATURE_BYTES_def MAX_NONCE_BYTES_def

datatype DpopProof = DpopProof (proof_header_value: str)

record HeaderWire =
  hdr_typ :: str
  hdr_alg :: str
  hdr_jwk :: json

record ClaimsWire =
  clm_jti :: str
  clm_htm :: str
  clm_htu :: str
  clm_iat :: i64
  clm_ath :: "str option"
  clm_nonce :: "str option"

record UnverifiedDpopProof =
  up_encoded_header :: str
  up_encoded_payload :: str
  up_signature :: bytes
  up_header :: HeaderWire
  up_claims :: ClaimsWire
  up_public_jwk :: PublicP256Jwk

record VerifiedDpopProof =
  vp_key_thumbprint :: JwkThumbprint
  vp_issued_at_unix :: i64
  vp_nonce_enforced :: bool
  vp_replay_checked :: bool
  vp_access_token_hash_verified :: bool

record VerificationPolicy =
  max_proof_age_seconds :: i64
  allowed_future_skew_seconds :: i64

definition policy_new :: "u64 \<Rightarrow> u64 \<Rightarrow> DpopError + VerificationPolicy" where
  "policy_new max_age skew =
     bindE (if in_i64 (uint max_age) then Inr (uint max_age) else Inl InvalidPolicy) (\<lambda>a.
     bindE (if in_i64 (uint skew) then Inr (uint skew) else Inl InvalidPolicy) (\<lambda>s.
       Inr \<lparr>max_proof_age_seconds = a, allowed_future_skew_seconds = s\<rparr>))"

definition policy_default :: VerificationPolicy where
  "policy_default = \<lparr>max_proof_age_seconds = 300, allowed_future_skew_seconds = 300\<rparr>"

section \<open>Duplicate members\<close>

text \<open>The visitor of \<open>UniqueJson\<close>: \<open>unique_members seen ms\<close> is its loop over an object, with the
  set of names met so far.\<close>

fun unique_json :: "json \<Rightarrow> bool"
  and unique_elements :: "json list \<Rightarrow> bool"
  and unique_members :: "str list \<Rightarrow> (str \<times> json) list \<Rightarrow> bool" where
  "unique_json (JArr xs) = unique_elements xs"
| "unique_json (JObj ms) = unique_members [] ms"
| "unique_json _ = True"
| "unique_elements [] = True"
| "unique_elements (x # xs) = (unique_json x \<and> unique_elements xs)"
| "unique_members seen [] = True"
| "unique_members seen ((k, v) # ms) =
     (if k \<in> set seen then False else unique_json v \<and> unique_members (k # seen) ms)"

definition reject_duplicate_json_members :: "externs \<Rightarrow> bytes \<Rightarrow> DpopError + unit" where
  "reject_duplicate_json_members X input =
     (case js_parse X input of
        None \<Rightarrow> Inl MalformedProof
      | Some j \<Rightarrow> if unique_json j then Inr () else Inl MalformedProof)"

section \<open>Parsing\<close>

definition header_names :: "str list" where
  "header_names = [''typ'', ''alg'', ''jwk'']"

definition header_deserialize :: "json \<Rightarrow> HeaderWire option" where
  "header_deserialize j =
     (case de_struct False header_names j of
        Some (_, [t, a, k]) \<Rightarrow>
          Option.bind (de_string t) (\<lambda>t.
          Option.bind (de_string a) (\<lambda>a.
          Option.bind k (\<lambda>k.
            Some \<lparr>hdr_typ = t, hdr_alg = a, hdr_jwk = to_value k\<rparr>)))
      | _ \<Rightarrow> None)"

definition claims_names :: "str list" where
  "claims_names = [''jti'', ''htm'', ''htu'', ''iat'', ''ath'', ''nonce'']"

definition claims_deserialize :: "json \<Rightarrow> ClaimsWire option" where
  "claims_deserialize j =
     (case de_struct False claims_names j of
        Some (_, [jti, htm, htu, iat, ath, nonce]) \<Rightarrow>
          Option.bind (de_string jti) (\<lambda>jti.
          Option.bind (de_string htm) (\<lambda>htm.
          Option.bind (de_string htu) (\<lambda>htu.
          Option.bind (de_i64 iat) (\<lambda>iat.
          Option.bind (de_option_string (Some None) ath) (\<lambda>ath.
          Option.bind (de_option_string (Some None) nonce) (\<lambda>nonce.
            Some \<lparr>clm_jti = jti, clm_htm = htm, clm_htu = htu, clm_iat = iat,
                  clm_ath = ath, clm_nonce = nonce\<rparr>))))))
      | _ \<Rightarrow> None)"

definition claim_shape_ok :: "ClaimsWire \<Rightarrow> bool" where
  "claim_shape_ok c \<longleftrightarrow>
     \<not> (clm_jti c = [] \<or> length (clm_jti c) > MAX_JTI_BYTES \<or>
        clm_htm c = [] \<or> length (clm_htm c) > MAX_HTM_BYTES \<or>
        clm_htu c = [] \<or> length (clm_htu c) > MAX_HTU_BYTES \<or>
        clm_iat c \<le> 0 \<or>
        (case clm_ath c of None \<Rightarrow> False | Some v \<Rightarrow> length v \<noteq> SHA256_BASE64URL_BYTES) \<or>
        (case clm_nonce c of None \<Rightarrow> False | Some v \<Rightarrow> v = [] \<or> length v > MAX_NONCE_BYTES))"

definition validate_claim_shape :: "ClaimsWire \<Rightarrow> DpopError + unit" where
  "validate_claim_shape c = require (claim_shape_ok c) MalformedProof"

definition decode_segment :: "externs \<Rightarrow> str \<Rightarrow> nat \<Rightarrow> DpopError + bytes" where
  "decode_segment X encoded max_decoded_bytes =
     (if str_contains encoded (CHR ''='') \<or> length encoded > max_decoded_bytes * 2
      then Inl MalformedProof
      else bindE (ok_or MalformedProof (b64_decode X encoded)) (\<lambda>decoded.
        if length decoded > max_decoded_bytes then Inl ProofTooLarge else Inr decoded))"

definition unverified_parse :: "externs \<Rightarrow> str \<Rightarrow> DpopError + UnverifiedDpopProof" where
  "unverified_parse X input =
     (if input = [] then Inl MalformedProof
      else if length input > MAX_PROOF_BYTES then Inl ProofTooLarge
      else (case str_split (CHR ''.'') input of
        [encoded_header, encoded_payload, encoded_signature] \<Rightarrow>
          if encoded_header = [] \<or> encoded_payload = [] \<or> encoded_signature = []
          then Inl MalformedProof
          else
            bindE (decode_segment X encoded_header MAX_HEADER_BYTES) (\<lambda>header_bytes.
            bindE (decode_segment X encoded_payload MAX_PAYLOAD_BYTES) (\<lambda>payload_bytes.
            bindE (decode_segment X encoded_signature MAX_SIGNATURE_BYTES) (\<lambda>signature.
            bindE (reject_duplicate_json_members X header_bytes) (\<lambda>_.
            bindE (reject_duplicate_json_members X payload_bytes) (\<lambda>_.
            bindE (ok_or MalformedProof (Option.bind (js_parse X header_bytes) header_deserialize))
              (\<lambda>header.
            bindE (ok_or MalformedProof (Option.bind (js_parse X payload_bytes) claims_deserialize))
              (\<lambda>claims.
            bindE (validate_claim_shape claims) (\<lambda>_.
            let jwk_json = from_bytes (js_print X (hdr_jwk header)) in
            bindE (map_err (\<lambda>_. UnsupportedKey) (jwk_from_json X jwk_json)) (\<lambda>public_jwk.
              Inr \<lparr>up_encoded_header = encoded_header, up_encoded_payload = encoded_payload,
                    up_signature = signature, up_header = header, up_claims = claims,
                    up_public_jwk = public_jwk\<rparr>)))))))))
      | _ \<Rightarrow> Inl MalformedProof))"

definition parse_dpop_header_values :: "externs \<Rightarrow> str list \<Rightarrow> DpopError + UnverifiedDpopProof" where
  "parse_dpop_header_values X values =
     (case values of
        [] \<Rightarrow> Inl MissingProof
      | [v] \<Rightarrow> if str_contains v (CHR '','') then Inl AmbiguousProof else unverified_parse X v
      | _ \<Rightarrow> Inl AmbiguousProof)"

section \<open>Verification\<close>

definition access_token_hash :: "externs \<Rightarrow> bytes \<Rightarrow> str" where
  "access_token_hash X token = b64_encode X (sha256 X token)"

definition verify_es256_signature ::
  "externs \<Rightarrow> PublicP256Jwk \<Rightarrow> bytes \<Rightarrow> bytes \<Rightarrow> DpopError + unit" where
  "verify_es256_signature X jwk signing_input signature =
     (if length signature \<noteq> ES256_SIGNATURE_BYTES then Inl InvalidSignature
      else (let point = sec1_point (jwk_x jwk) (jwk_y jwk) in
        if \<not> p256_point X point then Inl UnsupportedKey
        else if p256_verify X point signing_input signature then Inr ()
        else Inl InvalidSignature))"

text \<open>The differences are taken in \<open>i128\<close>, where they cannot overflow.\<close>

definition verify_freshness :: "i64 \<Rightarrow> i64 \<Rightarrow> VerificationPolicy \<Rightarrow> DpopError + unit" where
  "verify_freshness issued_at now policy =
     (if issued_at \<le> 0 then Inl MalformedProof
      else if now - issued_at > max_proof_age_seconds policy then Inl ProofExpired
      else if issued_at - now > allowed_future_skew_seconds policy then Inl ProofFromFuture
      else Inr ())"

definition verify_nonce :: "str option \<Rightarrow> DpopNonce option \<Rightarrow> DpopError + unit" where
  "verify_nonce presented required =
     (case required of
        None \<Rightarrow> Inr ()
      | Some req \<Rightarrow>
          bindE (ok_or NonceRequired presented) (\<lambda>p.
            if p \<noteq> nonce_str req then Inl NonceMismatch else Inr ()))"

fun replay_material :: "bytes list \<Rightarrow> DpopError + bytes" where
  "replay_material [] = Inr []"
| "replay_material (part # parts) =
     (if length part \<ge> 2 ^ 64 then Inl MalformedProof
      else bindE (replay_material parts) (\<lambda>rest.
        Inr (to_be_bytes (word_of_nat (length part)) @ part @ rest)))"

definition derive_replay_key ::
  "externs \<Rightarrow> JwkThumbprint \<Rightarrow> str \<Rightarrow> EffectiveRequestTarget \<Rightarrow> str \<Rightarrow> DpopError + ReplayKey" where
  "derive_replay_key X tp m target jti =
     bindE (replay_material [tp, as_bytes m, as_bytes (target_str target), as_bytes jti])
       (\<lambda>material. Inr (ReplayKey (sha256 X material)))"

text \<open>The \<open>ath\<close> check; the result says whether a token hash was verified.\<close>

definition verify_access_token_hash ::
  "externs \<Rightarrow> str option \<Rightarrow> bytes option \<Rightarrow> DpopError + bool" where
  "verify_access_token_hash X ath access_token =
     (case access_token of
        None \<Rightarrow> Inr False
      | Some token \<Rightarrow>
          bindE (ok_or AccessTokenHashMissing ath) (\<lambda>presented.
            if presented \<noteq> access_token_hash X token then Inl AccessTokenHashMismatch
            else Inr True))"

text \<open>Everything \<open>verify\<close> does before it calls the replay store: the thumbprint, the replay
  key, the expiry of its record and the \<open>ath\<close> result.\<close>

definition verify_before_replay ::
  "externs \<Rightarrow> VerificationPolicy \<Rightarrow> DpopPortError + i64 \<Rightarrow> UnverifiedDpopProof \<Rightarrow> DpopRequest
   \<Rightarrow> DpopError + (JwkThumbprint \<times> ReplayKey \<times> i64 \<times> bool)" where
  "verify_before_replay X policy clock proof request =
     (let header = up_header proof; claims = up_claims proof in
      if hdr_typ header \<noteq> ''dpop+jwt'' then Inl MalformedProof
      else if hdr_alg header \<noteq> ''ES256'' then Inl UnsupportedAlgorithm
      else if length (up_signature proof) \<noteq> ES256_SIGNATURE_BYTES then Inl InvalidSignature
      else (let signing_input = up_encoded_header proof @ ''.'' @ up_encoded_payload proof in
        bindE (verify_es256_signature X (up_public_jwk proof) (as_bytes signing_input)
                 (up_signature proof)) (\<lambda>_.
        if clm_htm claims \<noteq> req_method request then Inl MethodMismatch
        else
        bindE (map_err (\<lambda>_. TargetMismatch) (target_parse (clm_htu claims))) (\<lambda>proof_target.
        if proof_target \<noteq> req_target request then Inl TargetMismatch
        else
        bindE (map_err (\<lambda>_. ClockUnavailable) clock) (\<lambda>now.
        bindE (verify_freshness (clm_iat claims) now policy) (\<lambda>_.
        bindE (verify_nonce (clm_nonce claims) (req_nonce request)) (\<lambda>_.
        bindE (verify_access_token_hash X (clm_ath claims) (req_access_token request)) (\<lambda>ath_ok.
        let key_thumbprint = thumbprint X (up_public_jwk proof) in
        bindE (derive_replay_key X key_thumbprint (req_method request) (req_target request)
                 (clm_jti claims)) (\<lambda>replay_key.
        bindE (ok_or InvalidPolicy
                 (checked_add_i64 (clm_iat claims) (max_proof_age_seconds policy))) (\<lambda>expires.
          Inr (key_thumbprint, replay_key, expires, ath_ok)))))))))))"

type_synonym 'r replay_op = "'r \<Rightarrow> ReplayKey \<Rightarrow> i64 \<Rightarrow> (DpopPortError + ReplayStatus) \<times> 'r"

definition dpop_verify ::
  "externs \<Rightarrow> VerificationPolicy \<Rightarrow> DpopPortError + i64 \<Rightarrow> 'r replay_op \<Rightarrow> UnverifiedDpopProof
   \<Rightarrow> DpopRequest \<Rightarrow> 'r \<Rightarrow> (DpopError + VerifiedDpopProof) \<times> 'r" where
  "dpop_verify X policy clock check_and_record proof request store =
     (case verify_before_replay X policy clock proof request of
        Inl e \<Rightarrow> (Inl e, store)
      | Inr (key_thumbprint, replay_key, expires, ath_ok) \<Rightarrow>
          (case check_and_record store replay_key expires of
             (Inl _, store') \<Rightarrow> (Inl ReplayStoreUnavailable, store')
           | (Inr Replay, store') \<Rightarrow> (Inl ReplayDetected, store')
           | (Inr Fresh, store') \<Rightarrow>
               (Inr \<lparr>vp_key_thumbprint = key_thumbprint,
                     vp_issued_at_unix = clm_iat (up_claims proof),
                     vp_nonce_enforced = (req_nonce request \<noteq> None),
                     vp_replay_checked = True,
                     vp_access_token_hash_verified = ath_ok\<rparr>, store')))"

section \<open>Building\<close>

definition header_build :: "externs \<Rightarrow> PublicP256Jwk \<Rightarrow> json" where
  "header_build X jwk =
     JObj [(''typ'', JStr ''dpop+jwt''), (''alg'', JStr ''ES256''), (''jwk'', jwk_serialize X jwk)]"

definition optional_member :: "str \<Rightarrow> str option \<Rightarrow> (str \<times> json) list" where
  "optional_member name v = (case v of None \<Rightarrow> [] | Some s \<Rightarrow> [(name, JStr s)])"

definition claims_build :: "str \<Rightarrow> str \<Rightarrow> str \<Rightarrow> i64 \<Rightarrow> str option \<Rightarrow> str option \<Rightarrow> json" where
  "claims_build jti htm htu iat ath nonce =
     JObj ([(''jti'', JStr jti), (''htm'', JStr htm), (''htu'', JStr htu), (''iat'', JInt iat)] @
           optional_member ''ath'' ath @ optional_member ''nonce'' nonce)"

definition dpop_build ::
  "externs \<Rightarrow> DpopPortError + i64 \<Rightarrow> DpopPortError + ProofId \<Rightarrow> PublicP256Jwk
   \<Rightarrow> (bytes \<Rightarrow> DpopPortError + bytes) \<Rightarrow> DpopRequest \<Rightarrow> DpopError + DpopProof" where
  "dpop_build X clock proof_id public_jwk sign request =
     bindE (map_err (\<lambda>_. ClockUnavailable) clock) (\<lambda>issued_at.
     if issued_at \<le> 0 then Inl ClockUnavailable
     else
     bindE (map_err (\<lambda>_. ProofIdUnavailable) proof_id) (\<lambda>proof_id.
     let ath = map_option (access_token_hash X) (req_access_token request);
         nonce = map_option nonce_str (req_nonce request);
         header = header_build X public_jwk;
         claims = claims_build (proof_id_str proof_id) (req_method request)
                    (target_str (req_target request)) issued_at ath nonce;
         encoded_header = b64_encode X (js_print X header);
         encoded_payload = b64_encode X (js_print X claims);
         signing_input = encoded_header @ ''.'' @ encoded_payload
     in
     bindE (map_err (\<lambda>_. SignerFailure) (sign (as_bytes signing_input))) (\<lambda>signature.
     if length signature \<noteq> ES256_SIGNATURE_BYTES then Inl SignerFailure
     else
     bindE (map_err (\<lambda>_. SignerFailure)
              (verify_es256_signature X public_jwk (as_bytes signing_input) signature)) (\<lambda>_.
       Inr (DpopProof (signing_input @ ''.'' @ b64_encode X signature))))))"

section \<open>Duplicate members at every depth\<close>

text \<open>\<open>occurs d j\<close>: the document \<open>d\<close> is \<open>j\<close> or occurs somewhere inside it.\<close>

inductive occurs :: "json \<Rightarrow> json \<Rightarrow> bool" where
  occurs_here: "occurs d d"
| occurs_element: "x \<in> set xs \<Longrightarrow> occurs d x \<Longrightarrow> occurs d (JArr xs)"
| occurs_member: "(k, v) \<in> set ms \<Longrightarrow> occurs d v \<Longrightarrow> occurs d (JObj ms)"

inductive_simps occurs_simps:
  "occurs d JNull" "occurs d (JBool b)" "occurs d (JInt n)" "occurs d (JFloat s)"
  "occurs d (JStr s)" "occurs d (JArr xs)" "occurs d (JObj ms)"

definition no_duplicates :: "json \<Rightarrow> bool" where
  "no_duplicates j \<longleftrightarrow> (\<nexists>ms. occurs (JObj ms) j \<and> \<not> distinct (map fst ms))"

lemma no_duplicates_simps:
  "no_duplicates JNull" "no_duplicates (JBool b)" "no_duplicates (JInt n)"
  "no_duplicates (JFloat s)" "no_duplicates (JStr s)"
  "no_duplicates (JArr xs) \<longleftrightarrow> (\<forall>x \<in> set xs. no_duplicates x)"
  "no_duplicates (JObj ms) \<longleftrightarrow> distinct (map fst ms) \<and> (\<forall>(k, v) \<in> set ms. no_duplicates v)"
  unfolding no_duplicates_def by (auto simp: occurs_simps)

lemma unique_json_iff:
  "unique_json j \<longleftrightarrow> no_duplicates j"
  "unique_elements xs \<longleftrightarrow> (\<forall>x \<in> set xs. no_duplicates x)"
  "unique_members seen ms \<longleftrightarrow>
     distinct (map fst ms) \<and> set (map fst ms) \<inter> set seen = {} \<and> (\<forall>(k, v) \<in> set ms. no_duplicates v)"
  by (induction j and xs and seen ms rule: unique_json_unique_elements_unique_members.induct)
    (auto simp: no_duplicates_simps)

section \<open>Replay keys\<close>

lemma length_to_be_bytes [simp]: "length (to_be_bytes w) = 8"
  by (simp add: to_be_bytes_def)

lemma to_be_bytes_inj: "to_be_bytes a = to_be_bytes b \<longleftrightarrow> a = b"
proof
  assume eq: "to_be_bytes a = to_be_bytes b"
  show "a = b"
  proof (rule bit_word_eqI)
    fix n :: nat
    assume n: "n < LENGTH(64)"
    let ?i = "7 - n div 8"
    have i: "?i < 8" "8 * (7 - ?i) + n mod 8 = n"
      using n by auto
    have "to_be_bytes a ! ?i = to_be_bytes b ! ?i"
      using eq by simp
    then have "(ucast (drop_bit (8 * (7 - ?i)) a) :: u8) = ucast (drop_bit (8 * (7 - ?i)) b)"
      using i(1) by (simp add: to_be_bytes_def)
    then have "bit (ucast (drop_bit (8 * (7 - ?i)) a) :: u8) (n mod 8) =
        bit (ucast (drop_bit (8 * (7 - ?i)) b) :: u8) (n mod 8)"
      by simp
    then show "bit a n = bit b n"
      using i(2) by (simp add: bit_simps)
  qed
qed simp

lemma replay_material_inj:
  assumes "replay_material ps = Inr m" "replay_material qs = Inr m" "length ps = length qs"
  shows "ps = qs"
  using assms
proof (induction ps arbitrary: qs m)
  case (Cons p ps)
  then obtain q qs' where qs: "qs = q # qs'" by (cases qs) auto
  have lt: "length p < 2 ^ 64" "length q < 2 ^ 64"
    using Cons.prems qs by (auto split: if_splits)
  obtain r r' where r: "replay_material ps = Inr r" "replay_material qs' = Inr r'"
    and m: "to_be_bytes (word_of_nat (length p)) @ p @ r = to_be_bytes (word_of_nat (length q)) @ q @ r'"
    using Cons.prems qs by (auto simp: result_simps split: if_splits)
  have "word_of_nat (length p) = (word_of_nat (length q) :: u64)"
    using m by (simp add: to_be_bytes_inj)
  then have "length p = length q"
    using lt by (simp add: word_of_nat_eq_iff take_bit_nat_eq_self)
  then show ?case
    using m r Cons.IH [of r qs'] Cons.prems(3) qs by simp
qed simp

lemma replay_material_ok:
  "\<forall>p \<in> set ps. length p < 2 ^ 64 \<Longrightarrow> \<exists>m. replay_material ps = Inr m"
  by (induction ps) auto

definition replay_parts :: "JwkThumbprint \<Rightarrow> str \<Rightarrow> EffectiveRequestTarget \<Rightarrow> str \<Rightarrow> bytes list" where
  "replay_parts t m u j = [t, as_bytes m, as_bytes (target_str u), as_bytes j]"

text \<open>Two requests share a replay key only when all four parts agree, or the digest collides on
  the two messages.\<close>

lemma derive_replay_key_inj:
  assumes "derive_replay_key X t m u j = Inr k" "derive_replay_key X t' m' u' j' = Inr k"
    and "\<And>a b. replay_material (replay_parts t m u j) = Inr a \<Longrightarrow>
      replay_material (replay_parts t' m' u' j') = Inr b \<Longrightarrow> sha256_separates X {a, b}"
  shows "t = t' \<and> m = m' \<and> u = u' \<and> j = j'"
proof -
  obtain a b where a: "replay_material (replay_parts t m u j) = Inr a"
    and b: "replay_material (replay_parts t' m' u' j') = Inr b"
    and "sha256 X a = sha256 X b"
    using assms(1,2)
    by (auto simp: derive_replay_key_def replay_parts_def result_simps simp del: replay_material.simps)
  then have "a = b"
    using sha256_separatesD [OF assms(3) [OF a b], of a b] by simp
  then have "replay_parts t m u j = replay_parts t' m' u' j'"
    using b by (intro replay_material_inj [OF a]) (simp_all add: replay_parts_def del: replay_material.simps)
  then show ?thesis
    by (auto simp: replay_parts_def intro: EffectiveRequestTarget.expand)
qed

section \<open>When verification accepts\<close>

lemma verify_es256_signature_Inr_iff [result_simps]:
  "verify_es256_signature X jwk inp sig = Inr u \<longleftrightarrow>
     length sig = ES256_SIGNATURE_BYTES \<and> p256_point X (sec1_point (jwk_x jwk) (jwk_y jwk)) \<and>
     p256_verify X (sec1_point (jwk_x jwk) (jwk_y jwk)) inp sig"
  by (simp add: verify_es256_signature_def Let_def)

lemma verify_freshness_Inr_iff [result_simps]:
  "verify_freshness iat now pol = Inr u \<longleftrightarrow>
     0 < iat \<and> now \<le> iat + max_proof_age_seconds pol \<and> iat \<le> now + allowed_future_skew_seconds pol"
  by (auto simp: verify_freshness_def)

lemma verify_nonce_Inr_iff [result_simps]:
  "verify_nonce p req = Inr u \<longleftrightarrow> (case req of None \<Rightarrow> True | Some n \<Rightarrow> p = Some (nonce_str n))"
  by (auto simp: verify_nonce_def result_simps split: option.splits)

lemma verify_access_token_hash_Inr_iff [result_simps]:
  "verify_access_token_hash X ath tok = Inr b \<longleftrightarrow>
     (case tok of None \<Rightarrow> \<not> b | Some t \<Rightarrow> b \<and> ath = Some (access_token_hash X t))"
  by (auto simp: verify_access_token_hash_def result_simps split: option.splits if_splits)

lemma checked_add_i64_Some_iff [result_simps]:
  "checked_add_i64 a b = Some c \<longleftrightarrow> c = a + b \<and> in_i64 (a + b)"
  by (auto simp: checked_add_i64_def)

text \<open>The checks of one verification, as one predicate: typ and algorithm, signature, method,
  target, freshness at the clock reading \<open>now\<close>, nonce and token hash.\<close>

definition proof_checks ::
  "externs \<Rightarrow> VerificationPolicy \<Rightarrow> i64 \<Rightarrow> UnverifiedDpopProof \<Rightarrow> DpopRequest \<Rightarrow> bool" where
  "proof_checks X policy now p request \<longleftrightarrow>
     hdr_typ (up_header p) = ''dpop+jwt'' \<and> hdr_alg (up_header p) = ''ES256'' \<and>
     length (up_signature p) = ES256_SIGNATURE_BYTES \<and>
     p256_point X (sec1_point (jwk_x (up_public_jwk p)) (jwk_y (up_public_jwk p))) \<and>
     p256_verify X (sec1_point (jwk_x (up_public_jwk p)) (jwk_y (up_public_jwk p)))
       (as_bytes (up_encoded_header p @ ''.'' @ up_encoded_payload p)) (up_signature p) \<and>
     clm_htm (up_claims p) = req_method request \<and>
     target_parse (clm_htu (up_claims p)) = Inr (req_target request) \<and>
     0 < clm_iat (up_claims p) \<and>
     now \<le> clm_iat (up_claims p) + max_proof_age_seconds policy \<and>
     clm_iat (up_claims p) \<le> now + allowed_future_skew_seconds policy \<and>
     (case req_nonce request of None \<Rightarrow> True | Some n \<Rightarrow> clm_nonce (up_claims p) = Some (nonce_str n)) \<and>
     (case req_access_token request of None \<Rightarrow> True
      | Some t \<Rightarrow> clm_ath (up_claims p) = Some (access_token_hash X t))"

lemma verify_before_replay_Inr_iff:
  "verify_before_replay X policy clock p request = Inr (tp, key, expires, ath_ok) \<longleftrightarrow>
     (\<exists>now. clock = Inr now \<and> proof_checks X policy now p request) \<and>
     tp = thumbprint X (up_public_jwk p) \<and>
     derive_replay_key X tp (req_method request) (req_target request) (clm_jti (up_claims p)) = Inr key \<and>
     expires = clm_iat (up_claims p) + max_proof_age_seconds policy \<and> in_i64 expires \<and>
     ath_ok = (req_access_token request \<noteq> None)"
  unfolding verify_before_replay_def proof_checks_def Let_def
  by (auto simp: result_simps simp del: append_Cons split: if_splits option.splits)

lemma dpop_verify_Inr_iff:
  "dpop_verify X policy clock car p request store = (Inr v, store') \<longleftrightarrow>
     (\<exists>tp key expires ath_ok.
        verify_before_replay X policy clock p request = Inr (tp, key, expires, ath_ok) \<and>
        car store key expires = (Inr Fresh, store') \<and>
        v = \<lparr>vp_key_thumbprint = tp, vp_issued_at_unix = clm_iat (up_claims p),
             vp_nonce_enforced = (req_nonce request \<noteq> None), vp_replay_checked = True,
             vp_access_token_hash_verified = ath_ok\<rparr>)"
  by (auto simp: dpop_verify_def split: sum.splits prod.splits ReplayStatus.splits)

section \<open>What parsing establishes\<close>

lemma str_split_concat: "concat (map (\<lambda>q. c # q) (str_split c s)) = c # s"
  by (induction s) (auto split: list.splits)

lemma str_split_join: "str_split c s = p # ps \<Longrightarrow> s = p @ concat (map (\<lambda>q. c # q) ps)"
  using str_split_concat [of c s] by simp

lemma str_split_three:
  assumes "str_split c s = [a, b, d]"
  shows "s = a @ c # b @ c # d" "c \<notin> set a" "c \<notin> set b" "c \<notin> set d"
  using str_split_join [OF assms] str_split_pieces_no_sep [of _ c s] assms by auto

lemma reject_duplicate_Inr_iff [result_simps]:
  "reject_duplicate_json_members X bs = Inr u \<longleftrightarrow> (\<exists>j. js_parse X bs = Some j \<and> no_duplicates j)"
  by (auto simp: reject_duplicate_json_members_def unique_json_iff split: option.splits)

lemma decode_segment_Inr_iff [result_simps]:
  "decode_segment X s n = Inr bs \<longleftrightarrow>
     CHR ''='' \<notin> set s \<and> length s \<le> n * 2 \<and> b64_decode X s = Some bs \<and> length bs \<le> n"
  by (cases "b64_decode X s") (auto simp: decode_segment_def)

text \<open>The documents behind one segment of a proof: decoded within \<open>n\<close> bytes, parsed, and free of
  duplicate members.\<close>

definition segment_document :: "externs \<Rightarrow> str \<Rightarrow> nat \<Rightarrow> json \<Rightarrow> bool" where
  "segment_document X s n j \<longleftrightarrow>
     (\<exists>bs. decode_segment X s n = Inr bs \<and> js_parse X bs = Some j \<and> no_duplicates j)"

lemma unverified_parse_Inr_iff:
  "unverified_parse X input = Inr p \<longleftrightarrow>
     length input \<le> MAX_PROOF_BYTES \<and>
     (\<exists>sig hj pj.
        str_split (CHR ''.'') input = [up_encoded_header p, up_encoded_payload p, sig] \<and>
        up_encoded_header p \<noteq> [] \<and> up_encoded_payload p \<noteq> [] \<and> sig \<noteq> [] \<and>
        segment_document X (up_encoded_header p) MAX_HEADER_BYTES hj \<and>
        segment_document X (up_encoded_payload p) MAX_PAYLOAD_BYTES pj \<and>
        decode_segment X sig MAX_SIGNATURE_BYTES = Inr (up_signature p) \<and>
        header_deserialize hj = Some (up_header p) \<and> claims_deserialize pj = Some (up_claims p) \<and>
        claim_shape_ok (up_claims p) \<and>
        jwk_from_json X (from_bytes (js_print X (hdr_jwk (up_header p)))) = Inr (up_public_jwk p))"
proof (cases "\<exists>a b c. str_split (CHR ''.'') input = [a, b, c]")
  case True
  then obtain a b c where abc: "str_split (CHR ''.'') input = [a, b, c]" by blast
  then have ne: "input \<noteq> []" by auto
  show ?thesis
    unfolding unverified_parse_def abc segment_document_def validate_claim_shape_def Let_def
    using ne by (cases p) (auto simp: result_simps)
next
  case False
  then show ?thesis
    unfolding unverified_parse_def by (auto split: list.splits)
qed

lemma unverified_parseI:
  assumes "str_split (CHR ''.'') input = [up_encoded_header p, up_encoded_payload p, sig]"
    and "up_encoded_header p \<noteq> []" "up_encoded_payload p \<noteq> []" "sig \<noteq> []"
    and "length input \<le> MAX_PROOF_BYTES"
    and "segment_document X (up_encoded_header p) MAX_HEADER_BYTES hj"
    and "segment_document X (up_encoded_payload p) MAX_PAYLOAD_BYTES pj"
    and "decode_segment X sig MAX_SIGNATURE_BYTES = Inr (up_signature p)"
    and "header_deserialize hj = Some (up_header p)" "claims_deserialize pj = Some (up_claims p)"
    and "claim_shape_ok (up_claims p)"
    and "jwk_from_json X (from_bytes (js_print X (hdr_jwk (up_header p)))) = Inr (up_public_jwk p)"
  shows "unverified_parse X input = Inr p"
  unfolding unverified_parse_Inr_iff using assms by blast

lemma unverified_parse_wf_jwk: "unverified_parse X s = Inr p \<Longrightarrow> wf_jwk X (up_public_jwk p)"
  by (auto simp: unverified_parse_Inr_iff intro: jwk_from_json_wf)

lemma parse_dpop_header_values_Inr_iff:
  "parse_dpop_header_values X vs = Inr p \<longleftrightarrow>
     (\<exists>v. vs = [v] \<and> CHR '','' \<notin> set v \<and> unverified_parse X v = Inr p)"
  by (auto simp: parse_dpop_header_values_def split: list.splits)

section \<open>Reading what the builder writes\<close>

lemma header_deserialize_build:
  "header_deserialize (header_build X jwk) =
     Some \<lparr>hdr_typ = ''dpop+jwt'', hdr_alg = ''ES256'', hdr_jwk = to_value (jwk_serialize X jwk)\<rparr>"
  by (simp add: header_deserialize_def header_build_def header_names_def)

lemma claims_deserialize_build:
  "in_i64 iat \<Longrightarrow> claims_deserialize (claims_build jti htm htu iat ath nonce) =
     Some \<lparr>clm_jti = jti, clm_htm = htm, clm_htu = htu, clm_iat = iat, clm_ath = ath, clm_nonce = nonce\<rparr>"
  using de_i64_Some_iff [of "Some (JInt iat)" iat]
  by (cases ath; cases nonce)
    (simp_all add: claims_deserialize_def claims_build_def claims_names_def optional_member_def)

lemma no_duplicates_build:
  "no_duplicates (header_build X jwk)"
  "no_duplicates (claims_build jti htm htu iat ath nonce)"
  by (auto simp: header_build_def claims_build_def jwk_serialize_def no_duplicates_simps optional_member_def
      split: option.splits)

lemma b64_encode_nonempty: "b64_law X \<Longrightarrow> bs \<noteq> [] \<Longrightarrow> b64_encode X bs \<noteq> []"
  using b64_encode_length [of X bs] by (cases bs) auto

lemma segment_document_build:
  assumes "b64_law X" "json_roundtrips X j" "no_duplicates j" "length (js_print X j) \<le> n"
  shows "segment_document X (b64_encode X (js_print X j)) n j"
  unfolding segment_document_def
proof (intro exI conjI)
  have "length (b64_encode X (js_print X j)) \<le> n * 2"
    using assms(1,4) by (simp add: b64_encode_length)
  then show "decode_segment X (b64_encode X (js_print X j)) n = Inr (js_print X j)"
    using assms b64_encode_no_char(3) [OF assms(1)]
    by (simp add: decode_segment_Inr_iff b64_decode_encode)
qed (use assms in \<open>simp_all add: json_roundtrips_def\<close>)

lemma access_token_hash_length:
  "b64_law X \<Longrightarrow> sha256_law X \<Longrightarrow> length (access_token_hash X t) = SHA256_BASE64URL_BYTES"
  by (simp add: access_token_hash_def b64_encode_length sha256_length SHA256_BASE64URL_BYTES_def)

definition built_claims :: "externs \<Rightarrow> DpopRequest \<Rightarrow> ProofId \<Rightarrow> i64 \<Rightarrow> json" where
  "built_claims X req pid issued =
     claims_build (proof_id_str pid) (req_method req) (target_str (req_target req)) issued
       (map_option (access_token_hash X) (req_access_token req)) (map_option nonce_str (req_nonce req))"

lemma dpop_build_Inr_iff:
  "dpop_build X clock pid jwk sign req = Inr proof \<longleftrightarrow>
     (\<exists>issued i signature.
        clock = Inr issued \<and> 0 < issued \<and> pid = Inr i \<and>
        (let inp = b64_encode X (js_print X (header_build X jwk)) @ ''.'' @
                   b64_encode X (js_print X (built_claims X req i issued))
         in sign (as_bytes inp) = Inr signature \<and>
            is_ok (verify_es256_signature X jwk (as_bytes inp) signature) \<and>
            proof = DpopProof (inp @ ''.'' @ b64_encode X signature)))"
  unfolding dpop_build_def built_claims_def Let_def
  by (auto simp: result_simps simp del: append_Cons split: if_splits)

text \<open>What the environment must give for a built proof to be readable: the JSON library reads
  back the three documents involved, and the texts stay within the bounds of the parser.\<close>

definition build_readable :: "externs \<Rightarrow> PublicP256Jwk \<Rightarrow> json \<Rightarrow> DpopProof \<Rightarrow> bool" where
  "build_readable X jwk claims proof \<longleftrightarrow>
     json_roundtrips X (header_build X jwk) \<and> json_roundtrips X claims \<and>
     json_roundtrips X (to_value (jwk_serialize X jwk)) \<and>
     js_print X (header_build X jwk) \<noteq> [] \<and> js_print X claims \<noteq> [] \<and>
     length (js_print X (header_build X jwk)) \<le> MAX_HEADER_BYTES \<and>
     length (js_print X claims) \<le> MAX_PAYLOAD_BYTES \<and>
     length (proof_header_value proof) \<le> MAX_PROOF_BYTES"

lemma built_claims_shape:
  assumes "b64_law X" "sha256_law X" "wf_request req" "is_ok (proof_id_new (proof_id_str pid))"
    "0 < issued"
  shows "claim_shape_ok \<lparr>clm_jti = proof_id_str pid, clm_htm = req_method req,
    clm_htu = target_str (req_target req), clm_iat = issued,
    clm_ath = map_option (access_token_hash X) (req_access_token req),
    clm_nonce = map_option nonce_str (req_nonce req)\<rparr>"
  using wf_requestD [OF assms(3)] assms
  by (auto simp: claim_shape_ok_def proof_bounds MAX_METHOD_BYTES_def MAX_TARGET_BYTES_def
      proof_id_new_def MAX_PROOF_ID_BYTES_def access_token_hash_length split: option.splits if_splits)

text \<open>The proof the builder returns is parsed into the key and the claims it was built from.\<close>

lemma build_parse:
  assumes env: "b64_law X" "sha256_law X" "wf_jwk X jwk"
    and req: "wf_request req" "is_ok (proof_id_new (proof_id_str pid))" "in_i64 issued"
    and build: "dpop_build X (Inr issued) (Inr pid) jwk sign req = Inr proof"
    and read: "build_readable X jwk (built_claims X req pid issued) proof"
  shows "\<exists>p. parse_dpop_header_values X [proof_header_value proof] = Inr p \<and>
    up_public_jwk p = jwk \<and> clm_jti (up_claims p) = proof_id_str pid \<and> clm_iat (up_claims p) = issued \<and>
    (\<forall>policy now. now \<le> issued + max_proof_age_seconds policy \<longrightarrow>
       issued \<le> now + allowed_future_skew_seconds policy \<longrightarrow> proof_checks X policy now p req)"
proof -
  let ?h = "b64_encode X (js_print X (header_build X jwk))"
  let ?c = "b64_encode X (js_print X (built_claims X req pid issued))"
  obtain signature where pos: "0 < issued"
    and sig: "is_ok (verify_es256_signature X jwk (as_bytes (?h @ ''.'' @ ?c)) signature)"
    and pf: "proof_header_value proof = ?h @ CHR ''.'' # ?c @ CHR ''.'' # b64_encode X signature"
    using build by (auto simp: dpop_build_Inr_iff Let_def)
  have s64: "length signature = ES256_SIGNATURE_BYTES"
    using sig by (auto simp: result_simps)
  have split: "str_split (CHR ''.'') (proof_header_value proof) = [?h, ?c, b64_encode X signature]"
    unfolding pf using b64_encode_no_char(1) [OF env(1)]
    by (simp add: str_split_append str_split_no_sep)
  let ?p = "\<lparr>up_encoded_header = ?h, up_encoded_payload = ?c, up_signature = signature,
    up_header = \<lparr>hdr_typ = ''dpop+jwt'', hdr_alg = ''ES256'', hdr_jwk = to_value (jwk_serialize X jwk)\<rparr>,
    up_claims = \<lparr>clm_jti = proof_id_str pid, clm_htm = req_method req,
      clm_htu = target_str (req_target req), clm_iat = issued,
      clm_ath = map_option (access_token_hash X) (req_access_token req),
      clm_nonce = map_option nonce_str (req_nonce req)\<rparr>,
    up_public_jwk = jwk\<rparr>"
  have sd: "segment_document X ?h MAX_HEADER_BYTES (header_build X jwk)"
    "segment_document X ?c MAX_PAYLOAD_BYTES (built_claims X req pid issued)"
    using read env by (auto simp: build_readable_def built_claims_def no_duplicates_build
        intro!: segment_document_build)
  have "CHR ''='' \<notin> set (b64_encode X signature)" "length (b64_encode X signature) = 86"
    "b64_encode X signature \<noteq> []"
    using b64_encode_no_char(3) [OF env(1)] b64_encode_length [OF env(1), of signature] s64
    by (auto simp: ES256_SIGNATURE_BYTES_def)
  then have ds: "decode_segment X (b64_encode X signature) MAX_SIGNATURE_BYTES = Inr signature"
    "b64_encode X signature \<noteq> []"
    using s64 env(1) by (auto simp: decode_segment_Inr_iff b64_decode_encode proof_bounds)
  have "unverified_parse X (proof_header_value proof) = Inr ?p"
    by (rule unverified_parseI [where hj = "header_build X jwk" and
          pj = "built_claims X req pid issued" and sig = "b64_encode X signature"])
      (use read split sd ds built_claims_shape [OF env(1,2) req(1,2) pos] b64_encode_nonempty [OF env(1)]
        header_deserialize_build [of X jwk] claims_deserialize_build [OF req(3)]
        jwk_from_json_value [OF env(1,3)] in \<open>simp_all add: build_readable_def built_claims_def\<close>)
  moreover have "CHR '','' \<notin> set (proof_header_value proof)"
    unfolding pf using b64_encode_no_char(2) [OF env(1)] by simp
  moreover have "proof_checks X policy now ?p req" if "now \<le> issued + max_proof_age_seconds policy"
    "issued \<le> now + allowed_future_skew_seconds policy" for policy now
    using that sig pos s64 wf_requestD(3) [OF req(1)]
    by (auto simp: proof_checks_def result_simps split: option.splits)
  ultimately show ?thesis
    by (intro exI [of _ ?p]) (simp add: parse_dpop_header_values_Inr_iff)
qed

section \<open>A sample proof\<close>

definition sample_request :: DpopRequest where
  "sample_request = \<lparr>req_method = ''GET'', req_target = EffectiveRequestTarget ''http://a/b'',
     req_access_token = Some [1, 2, 3], req_nonce = Some (DpopNonce ''n1'')\<rparr>"

definition sample_docs :: "(json \<times> bytes) list" where
  "sample_docs =
     [(header_build (sample_externs []) sample_jwk, [1]),
      (built_claims (sample_externs []) sample_request (ProofId ''id'') 1000, [2]),
      (to_value (jwk_serialize (sample_externs []) sample_jwk), [3])]"

abbreviation sample_X :: externs where
  "sample_X \<equiv> sample_externs sample_docs"

definition sample_signing_input :: str where
  "sample_signing_input = real_b64_encode [1] @ ''.'' @ real_b64_encode [2]"

definition sample_proof :: DpopProof where
  "sample_proof = DpopProof (sample_signing_input @ ''.'' @ real_b64_encode (replicate 64 7))"

lemma sample_docs_eq:
  "header_build (sample_externs docs) jwk = header_build (sample_externs []) jwk"
  "built_claims (sample_externs docs) req pid issued = built_claims (sample_externs []) req pid issued"
  "jwk_serialize (sample_externs docs) jwk = jwk_serialize (sample_externs []) jwk"
  unfolding header_build_def built_claims_def jwk_serialize_def access_token_hash_def sample_externs_sel
  by (rule refl)+

lemma sample_docs_lookup:
  "map_of sample_docs (header_build (sample_externs []) sample_jwk) = Some [1]"
  "map_of sample_docs (built_claims (sample_externs []) sample_request (ProofId ''id'') 1000) = Some [2]"
  "map_of sample_docs (to_value (jwk_serialize (sample_externs []) sample_jwk)) = Some [3]"
  by code_simp+

text \<open>Documents among which the sample proof can be read.\<close>

definition proof_docs :: "(json \<times> bytes) list \<Rightarrow> bool" where
  "proof_docs docs \<longleftrightarrow> distinct (map snd docs) \<and>
     map_of docs (header_build (sample_externs []) sample_jwk) = Some [1] \<and>
     map_of docs (built_claims (sample_externs []) sample_request (ProofId ''id'') 1000) = Some [2] \<and>
     map_of docs (to_value (jwk_serialize (sample_externs []) sample_jwk)) = Some [3]"

lemma sample_docs_proof: "proof_docs sample_docs"
  using sample_docs_lookup by (simp add: proof_docs_def) (simp add: sample_docs_def)

lemma docs_build_readable:
  assumes "proof_docs docs"
  shows "build_readable (sample_externs docs) sample_jwk
    (built_claims (sample_externs docs) sample_request (ProofId ''id'') 1000) sample_proof"
proof -
  have d: "distinct (map snd docs)"
    and lookup: "map_of docs (header_build (sample_externs []) sample_jwk) = Some [1]"
     "map_of docs (built_claims (sample_externs []) sample_request (ProofId ''id'') 1000) = Some [2]"
     "map_of docs (to_value (jwk_serialize (sample_externs []) sample_jwk)) = Some [3]"
    using assms by (simp_all add: proof_docs_def)
  note rt = lookup [THEN sample_json_roundtrips [OF d]]
  have "js_print (sample_externs docs) (header_build (sample_externs []) sample_jwk) = [1]"
    "js_print (sample_externs docs) (built_claims (sample_externs []) sample_request (ProofId ''id'') 1000) = [2]"
    by (simp_all add: sample_externs_sel lookup)
  moreover have "length (proof_header_value sample_proof) \<le> MAX_PROOF_BYTES"
    by (simp add: sample_proof_def sample_signing_input_def MAX_PROOF_BYTES_def real_b64_encode_def
        length_sextets)
  ultimately show ?thesis
    using rt unfolding build_readable_def sample_docs_eq [of docs] by (simp add: proof_bounds)
qed

lemmas sample_build_readable = docs_build_readable [OF sample_docs_proof]

lemma sample_request_wf: "wf_request sample_request" "is_ok (proof_id_new (proof_id_str (ProofId ''id'')))"
proof -
  have "target_parse ''http://a/b'' = Inr (req_target sample_request)"
    "is_ok (validate_method (req_method sample_request))"
    "is_ok (nonce_new ''n1'')" "is_ok (proof_id_new (proof_id_str (ProofId ''id'')))"
    by code_simp+
  then show "wf_request sample_request" "is_ok (proof_id_new (proof_id_str (ProofId ''id'')))"
    by (auto simp: wf_request_def sample_request_def MAX_TARGET_BYTES_def)
qed

lemma docs_build:
  assumes "proof_docs docs"
  shows "dpop_build (sample_externs docs) (Inr 1000) (Inr (ProofId ''id'')) sample_jwk (\<lambda>_. Inr (replicate 64 7))
    sample_request = Inr sample_proof"
proof -
  have "verify_es256_signature (sample_externs docs) sample_jwk m (replicate 64 7) = Inr ()" for m
    using sample_jwk_wf(1) [of docs]
    by (simp add: verify_es256_signature_Inr_iff wf_jwk_def ES256_SIGNATURE_BYTES_def sample_externs_sel)
  then show ?thesis
    using assms unfolding dpop_build_Inr_iff Let_def sample_docs_eq [of docs] proof_docs_def
    by (auto simp: sample_proof_def sample_signing_input_def sample_externs_sel)
qed

lemmas sample_build = docs_build [OF sample_docs_proof]

lemma docs_parse:
  assumes "proof_docs docs"
  shows "\<exists>p. parse_dpop_header_values (sample_externs docs) [proof_header_value sample_proof] = Inr p \<and>
     up_public_jwk p = sample_jwk \<and> clm_jti (up_claims p) = ''id'' \<and> clm_iat (up_claims p) = 1000 \<and>
     proof_checks (sample_externs docs) policy_default 1010 p sample_request"
  using build_parse [OF sample_b64_law sample_sha256_law sample_jwk_wf(1) sample_request_wf _
      docs_build [OF assms] docs_build_readable [OF assms]]
  by (force simp: in_i64_def policy_default_def)

lemmas sample_parse = docs_parse [OF sample_docs_proof]

section \<open>Properties\<close>

text \<open>C3. Verification succeeds exactly when every check of RFC 9449 holds for the request, the
  replay key can be derived, the expiry of the replay record does not overflow and the replay
  store reports the key as fresh; the result then carries the key thumbprint, the issue time
  and which optional checks were enforced.\<close>

theorem dpop_verify_accepts_iff:
  "dpop_verify X policy clock check_and_record p request store = (Inr v, store') \<longleftrightarrow>
     (\<exists>now key.
        clock = Inr now \<and> proof_checks X policy now p request \<and>
        derive_replay_key X (thumbprint X (up_public_jwk p)) (req_method request) (req_target request)
          (clm_jti (up_claims p)) = Inr key \<and>
        in_i64 (clm_iat (up_claims p) + max_proof_age_seconds policy) \<and>
        check_and_record store key (clm_iat (up_claims p) + max_proof_age_seconds policy) = (Inr Fresh, store') \<and>
        v = \<lparr>vp_key_thumbprint = thumbprint X (up_public_jwk p),
             vp_issued_at_unix = clm_iat (up_claims p),
             vp_nonce_enforced = (req_nonce request \<noteq> None), vp_replay_checked = True,
             vp_access_token_hash_verified = (req_access_token request \<noteq> None)\<rparr>)"
  unfolding dpop_verify_Inr_iff verify_before_replay_Inr_iff by auto

text \<open>A proof that is refused for any reason other than the replay store's own answer never
  reaches the replay store: its state is unchanged.\<close>

lemma dpop_verify_reject_unrecorded:
  assumes "dpop_verify X policy clock check_and_record p request store = (Inl e, store')"
    and "e \<noteq> ReplayDetected" "e \<noteq> ReplayStoreUnavailable"
  shows "store' = store"
  using assms by (auto simp: dpop_verify_def split: sum.splits prod.splits ReplayStatus.splits)

text \<open>C17. An accepted proof is signed over exactly the received text: its first two segments, as
  they stand in the header value, are the bytes on which the signature of the third segment was
  checked, under the key whose thumbprint is reported.\<close>

theorem accepted_signature_covers_text:
  assumes "parse_dpop_header_values X [s] = Inr p"
    and "dpop_verify X policy clock check_and_record p request store = (Inr v, store')"
  shows "\<exists>signed sig raw. s = signed @ ''.'' @ sig \<and> CHR ''.'' \<notin> set sig \<and>
    b64_decode X sig = Some raw \<and> length raw = 64 \<and>
    p256_verify X (sec1_point (jwk_x (up_public_jwk p)) (jwk_y (up_public_jwk p))) (as_bytes signed) raw \<and>
    wf_jwk X (up_public_jwk p) \<and> vp_key_thumbprint v = thumbprint X (up_public_jwk p)"
proof -
  have up: "unverified_parse X s = Inr p"
    using assms(1) by (simp add: parse_dpop_header_values_Inr_iff)
  then obtain sig where sp: "str_split (CHR ''.'') s = [up_encoded_header p, up_encoded_payload p, sig]"
    and "b64_decode X sig = Some (up_signature p)"
    by (auto simp: unverified_parse_Inr_iff decode_segment_Inr_iff)
  moreover have "\<exists>now. proof_checks X policy now p request" "vp_key_thumbprint v = thumbprint X (up_public_jwk p)"
    using assms(2) by (auto simp: dpop_verify_Inr_iff verify_before_replay_Inr_iff)
  ultimately show ?thesis
    using str_split_three [OF sp] unverified_parse_wf_jwk [OF up]
    by (intro exI [of _ "up_encoded_header p @ ''.'' @ up_encoded_payload p"] exI [of _ sig]
        exI [of _ "up_signature p"]) (auto simp: proof_checks_def ES256_SIGNATURE_BYTES_def)
qed

lemma docs_accepted:
  assumes docs: "proof_docs docs"
    and car: "\<And>key. length (replay_key_bytes key) = 32 \<Longrightarrow> car store key 1300 = (Inr Fresh, store' key)"
  shows "\<exists>p key v. parse_dpop_header_values (sample_externs docs) [proof_header_value sample_proof] = Inr p \<and>
    dpop_verify (sample_externs docs) policy_default (Inr 1010) car p sample_request store = (Inr v, store' key)"
proof -
  obtain p where p: "parse_dpop_header_values (sample_externs docs) [proof_header_value sample_proof] = Inr p"
    "clm_iat (up_claims p) = 1000" "clm_jti (up_claims p) = ''id''"
    "proof_checks (sample_externs docs) policy_default 1010 p sample_request"
    using docs_parse [OF docs] by blast
  have lens: "\<forall>q \<in> set (replay_parts (thumbprint (sample_externs docs) (up_public_jwk p)) (req_method sample_request)
      (req_target sample_request) (clm_jti (up_claims p))). length q < 2 ^ 64"
    by (simp add: replay_parts_def sample_request_def p(3) thumbprint_def sample_externs_sel)
  obtain key where "derive_replay_key (sample_externs docs) (thumbprint (sample_externs docs) (up_public_jwk p)) (req_method sample_request)
      (req_target sample_request) (clm_jti (up_claims p)) = Inr key"
    using replay_material_ok [OF lens] by (auto simp: derive_replay_key_def replay_parts_def simp del: replay_material.simps)
  moreover from this have len: "length (replay_key_bytes key) = 32"
    by (auto simp: derive_replay_key_def bindE_Inr_iff sample_externs_sel simp del: replay_material.simps)
  ultimately have "verify_before_replay (sample_externs docs) policy_default (Inr 1010) p sample_request =
      Inr (thumbprint (sample_externs docs) (up_public_jwk p), key, 1300, True)"
    using p(2,4) by (simp add: verify_before_replay_Inr_iff policy_default_def in_i64_def sample_request_def)
  then show ?thesis
    using p(1) car [OF len] by (auto simp: dpop_verify_def)
qed

lemmas sample_accepted = docs_accepted [OF sample_docs_proof]

theorem accepted_signature_covers_text_witness:
  "\<exists>signed sig raw. proof_header_value sample_proof = signed @ ''.'' @ sig \<and>
    real_b64_decode sig = Some raw \<and> length raw = 64"
proof -
  obtain p v where "parse_dpop_header_values sample_X [proof_header_value sample_proof] = Inr p"
    "dpop_verify sample_X policy_default (Inr 1010) (\<lambda>s k e. (Inr Fresh, s)) p sample_request () = (Inr v, ())"
    using sample_accepted [of "\<lambda>s k e. (Inr Fresh, s)" "()" "\<lambda>_. ()"] by auto
  then show ?thesis
    using accepted_signature_covers_text [of sample_X "proof_header_value sample_proof" p policy_default
        "Inr 1010" "\<lambda>s k e. (Inr Fresh, s)" sample_request "()" v "()"]
    unfolding sample_externs_sel by blast
qed

text \<open>C33. The duplicate check looks at every depth: a document passes exactly when no object
  anywhere inside it has two members of the same name.\<close>

theorem unique_json_every_depth:
  "unique_json j \<longleftrightarrow> (\<nexists>ms. occurs (JObj ms) j \<and> \<not> distinct (map fst ms))"
  by (simp add: unique_json_iff no_duplicates_def)

text \<open>C32. What a parsed proof satisfies before any of it is trusted: the size bounds on the text
  and on every claim, documents without duplicate members behind both JSON segments, and a
  public key that is a valid point with two 32-byte coordinates.\<close>

theorem unverified_parse_bounds:
  assumes "unverified_parse X s = Inr p"
  shows "length s \<le> 8192 \<and> length (up_signature p) \<le> 128 \<and>
    length (clm_jti (up_claims p)) \<in> {1..256} \<and> length (clm_htm (up_claims p)) \<in> {1..64} \<and>
    length (clm_htu (up_claims p)) \<in> {1..2048} \<and> 0 < clm_iat (up_claims p) \<and>
    (clm_ath (up_claims p) = None \<or> length (the (clm_ath (up_claims p))) = 43) \<and>
    (clm_nonce (up_claims p) = None \<or> length (the (clm_nonce (up_claims p))) \<in> {1..1024}) \<and>
    (\<exists>hj pj. segment_document X (up_encoded_header p) 2048 hj \<and> header_deserialize hj = Some (up_header p) \<and>
       segment_document X (up_encoded_payload p) 4096 pj \<and> claims_deserialize pj = Some (up_claims p)) \<and>
    wf_jwk X (up_public_jwk p)"
proof -
  have len: "length xs \<in> {1..n} \<longleftrightarrow> xs \<noteq> [] \<and> length xs \<le> n" for xs :: str and n
    by (cases xs) auto
  obtain sig hj pj where "length s \<le> MAX_PROOF_BYTES"
    "decode_segment X sig MAX_SIGNATURE_BYTES = Inr (up_signature p)"
    "segment_document X (up_encoded_header p) MAX_HEADER_BYTES hj" "header_deserialize hj = Some (up_header p)"
    "segment_document X (up_encoded_payload p) MAX_PAYLOAD_BYTES pj" "claims_deserialize pj = Some (up_claims p)"
    "claim_shape_ok (up_claims p)"
    using assms by (auto simp: unverified_parse_Inr_iff)
  then show ?thesis
    using unverified_parse_wf_jwk [OF assms] unfolding len
    by (auto simp: claim_shape_ok_def proof_bounds decode_segment_Inr_iff split: option.splits)
qed

theorem unverified_parse_bounds_witness:
  "\<exists>p. unverified_parse sample_X (proof_header_value sample_proof) = Inr p \<and>
     length (up_signature p) \<le> 128 \<and> wf_jwk sample_X (up_public_jwk p)"
proof -
  obtain p where "unverified_parse sample_X (proof_header_value sample_proof) = Inr p"
    using sample_parse by (auto simp: parse_dpop_header_values_Inr_iff)
  then show ?thesis
    using unverified_parse_bounds [of sample_X "proof_header_value sample_proof" p] by blast
qed

text \<open>C18. The replay key binds key, method, target and proof identifier: with length-prefixed
  parts, two uses share a replay key only when all four agree (or the digest collides on the two
  messages).\<close>

theorem replay_key_binds_all_parts:
  assumes "derive_replay_key X t m u j = Inr k" "derive_replay_key X t' m' u' j' = Inr k"
    and "\<And>a b. replay_material [t, as_bytes m, as_bytes (target_str u), as_bytes j] = Inr a \<Longrightarrow>
      replay_material [t', as_bytes m', as_bytes (target_str u'), as_bytes j'] = Inr b \<Longrightarrow>
      sha256_separates X {a, b}"
  shows "t = t' \<and> m = m' \<and> u = u' \<and> j = j'"
  using derive_replay_key_inj [OF assms(1,2)] assms(3) unfolding replay_parts_def by blast

theorem replay_key_binds_all_parts_witness:
  "derive_replay_key (sample_externs []) [] ''ab'' (EffectiveRequestTarget ''c'') ''d'' \<noteq>
   derive_replay_key (sample_externs []) [] ''a'' (EffectiveRequestTarget ''bc'') ''d''"
proof
  let ?X = "sample_externs []"
  assume eq: "derive_replay_key ?X [] ''ab'' (EffectiveRequestTarget ''c'') ''d'' =
    derive_replay_key ?X [] ''a'' (EffectiveRequestTarget ''bc'') ''d''"
  obtain k where k: "derive_replay_key ?X [] ''ab'' (EffectiveRequestTarget ''c'') ''d'' = Inr k"
    by (simp add: derive_replay_key_def)
  have sep: "sha256_separates ?X {a, b}"
    if "replay_material [[], as_bytes ''ab'', as_bytes (target_str (EffectiveRequestTarget ''c'')), as_bytes ''d''] = Inr a"
      "replay_material [[], as_bytes ''a'', as_bytes (target_str (EffectiveRequestTarget ''bc'')), as_bytes ''d''] = Inr b"
    for a b
  proof -
    have "map_ok last32 (replay_material [[], as_bytes ''ab'', as_bytes (target_str (EffectiveRequestTarget ''c'')), as_bytes ''d'']) \<noteq>
        map_ok last32 (replay_material [[], as_bytes ''a'', as_bytes (target_str (EffectiveRequestTarget ''bc'')), as_bytes ''d''])"
      by code_simp
    then have "last32 a \<noteq> last32 b"
      unfolding that by simp
    then show ?thesis
      by (auto simp: sha256_separates_def inj_on_def sample_externs_sel)
  qed
  have "[] = ([] :: bytes) \<and> ''ab'' = ''a'' \<and> EffectiveRequestTarget ''c'' = EffectiveRequestTarget ''bc'' \<and> ''d'' = ''d''"
    by (rule replay_key_binds_all_parts [OF k eq [symmetric, unfolded k]]) (rule sep)
  then show False by simp
qed

text \<open>A proof cannot be moved to another access token: a proof accepted with two presented
  tokens was presented with the same token both times (or the digest collides on them).\<close>

lemma accepted_token_unique:
  assumes "dpop_verify X policy clock car p request store = (Inr v, store1)"
    and "dpop_verify X policy' clock' car' p request' store' = (Inr v', store1')"
    and "req_access_token request = Some t" "req_access_token request' = Some t'"
    and "b64_law X" "sha256_separates X {t, t'}"
  shows "t = t'"
proof -
  have "clm_ath (up_claims p) = Some (access_token_hash X t)" "clm_ath (up_claims p) = Some (access_token_hash X t')"
    using assms(1-4) by (auto simp: dpop_verify_Inr_iff verify_before_replay_Inr_iff proof_checks_def)
  then show ?thesis
    using assms(5) sha256_separatesD [OF assms(6), of t t'] by (simp add: access_token_hash_def b64_encode_inj)
qed

text \<open>A header or payload that is a JSON array is not refused: its elements are taken as the
  members in declaration order, so that a proof whose JOSE header is
  \<open>["dpop+jwt","ES256",\{...\}]\<close> is read like the object with these members.\<close>

lemma header_array_accepted:
  "header_deserialize (JArr [JStr ''dpop+jwt'', JStr ''ES256'', jwk_serialize X jwk]) =
     header_deserialize (header_build X jwk)"
  by (simp add: header_deserialize_build) (simp add: header_deserialize_def header_names_def)

end
