(* ===== verification/One_Shot.thy ===== *)
theory One_Shot
  imports Rust_Prelude
begin

text \<open>
  The contract behind replay protection, as an interface: a stateful operation that accepts a
  key at most once while the record of that acceptance is alive. \<open>run_ops\<close> runs a sequence of
  operations, in the order in which they take the lock of the state.
\<close>

fun run_ops :: "('s \<Rightarrow> 'o \<Rightarrow> 'r \<times> 's) \<Rightarrow> 's \<Rightarrow> 'o list \<Rightarrow> 'r list \<times> 's" where
  "run_ops step s [] = ([], s)"
| "run_ops step s (op # ops) =
     (case step s op of (r, s') \<Rightarrow> (case run_ops step s' ops of (rs, s'') \<Rightarrow> (r # rs, s'')))"

lemma run_ops_append:
  "run_ops step s (xs @ ys) =
     (case run_ops step s xs of (rs, s') \<Rightarrow>
        (case run_ops step s' ys of (rs', s'') \<Rightarrow> (rs @ rs', s'')))"
  by (induction xs arbitrary: s) (auto split: prod.splits)

lemma length_run_ops: "run_ops step s ops = (rs, s') \<Longrightarrow> length rs = length ops"
  by (induction ops arbitrary: s rs) (auto split: prod.splits)

text \<open>The state before operation \<open>i\<close> and its own step.\<close>

lemma run_ops_nth:
  assumes "run_ops step s ops = (rs, s')" "i < length ops"
  obtains s1 s2 where "run_ops step s (take i ops) = (take i rs, s1)" "step s1 (ops ! i) = (rs ! i, s2)"
    "run_ops step s2 (drop (Suc i) ops) = (drop (Suc i) rs, s')"
proof -
  have "ops = take i ops @ ops ! i # drop (Suc i) ops"
    using assms(2) by (rule id_take_nth_drop)
  moreover obtain r1 s1 where r1: "run_ops step s (take i ops) = (r1, s1)" by fastforce
  moreover obtain r s2 where r: "step s1 (ops ! i) = (r, s2)" by fastforce
  moreover obtain r2 s3 where r2: "run_ops step s2 (drop (Suc i) ops) = (r2, s3)" by fastforce
  ultimately have "(rs, s') = (r1 @ r # r2, s3)"
    using assms(1) run_ops_append [of step s "take i ops" "ops ! i # drop (Suc i) ops"] by simp
  moreover have "length r1 = i"
    using length_run_ops [OF r1] assms(2) by simp
  ultimately show ?thesis
    using r1 r r2 that by (auto simp: nth_append)
qed

text \<open>
  \<open>recorded s k\<close> is the expiry of the record for \<open>k\<close> in state \<open>s\<close>, \<open>time\<close> the clock reading an
  operation works with, and \<open>accepts op r = Some (k, e)\<close> when result \<open>r\<close> of \<open>op\<close> accepted key
  \<open>k\<close> with expiry \<open>e\<close>.
\<close>

locale one_shot =
  fixes step :: "'s \<Rightarrow> 'o \<Rightarrow> 'r \<times> 's"
    and inv :: "'s \<Rightarrow> bool"
    and recorded :: "'s \<Rightarrow> 'k \<Rightarrow> int option"
    and time :: "'o \<Rightarrow> int"
    and accepts :: "'o \<Rightarrow> 'r \<Rightarrow> ('k \<times> int) option"
  assumes inv_step: "inv s \<Longrightarrow> step s op = (r, s') \<Longrightarrow> inv s'"
    and accept_records: "inv s \<Longrightarrow> step s op = (r, s') \<Longrightarrow> accepts op r = Some (k, e) \<Longrightarrow>
      recorded s' k = Some e \<and> time op \<le> e"
    and accept_unrecorded: "inv s \<Longrightarrow> step s op = (r, s') \<Longrightarrow> accepts op r = Some (k, e) \<Longrightarrow>
      recorded s k = Some e' \<Longrightarrow> e' < time op"
    and keeps_active: "inv s \<Longrightarrow> step s op = (r, s') \<Longrightarrow> recorded s k = Some e \<Longrightarrow>
      time op \<le> e \<Longrightarrow> recorded s' k = Some e"
begin

lemma run_inv: "inv s \<Longrightarrow> run_ops step s ops = (rs, s') \<Longrightarrow> inv s'"
  by (induction ops arbitrary: s rs) (auto split: prod.splits dest: inv_step)

lemma run_keeps_active:
  assumes "inv s" "run_ops step s ops = (rs, s')" "recorded s k = Some e" "\<forall>op \<in> set ops. time op \<le> e"
  shows "recorded s' k = Some e"
  using assms
proof (induction ops arbitrary: s rs)
  case (Cons op ops)
  obtain r s1 rs1 where s1: "step s op = (r, s1)" "run_ops step s1 ops = (rs1, s')"
    using Cons.prems(2) by (auto split: prod.splits)
  have "inv s1" "recorded s1 k = Some e"
    using inv_step [OF Cons.prems(1) s1(1)] keeps_active [OF Cons.prems(1) s1(1) Cons.prems(3)] Cons.prems(4)
    by auto
  then show ?case
    using Cons.IH [OF _ s1(2)] Cons.prems(4) by simp
qed simp

text \<open>With clock readings that never go back, a key is accepted again only by an operation whose
  reading is past the expiry of the earlier acceptance.\<close>

lemma accepted_again:
  assumes "inv s" "run_ops step s ops = (rs, s')" "sorted (map time ops)"
    and ij: "i < j" "j < length ops"
    and acc: "accepts (ops ! i) (rs ! i) = Some (k, e)" "accepts (ops ! j) (rs ! j) = Some (k, e')"
  shows "e < time (ops ! j)"
proof (rule ccontr)
  assume alive: "\<not> e < time (ops ! j)"
  obtain s1 s2 where s1: "run_ops step s (take j ops) = (take j rs, s1)"
    and s2: "step s1 (ops ! j) = (rs ! j, s2)"
    using run_ops_nth [OF assms(2) ij(2)] by blast
  have i: "i < length (take j ops)" using ij by simp
  obtain u1 u2 where u1: "run_ops step s (take i (take j ops)) = (take i (take j rs), u1)"
    and u2: "step u1 (take j ops ! i) = (take j rs ! i, u2)"
    and u3: "run_ops step u2 (drop (Suc i) (take j ops)) = (drop (Suc i) (take j rs), s1)"
    using run_ops_nth [OF s1 i] by blast
  have "inv u1" using run_inv [OF assms(1) u1] .
  then have u: "inv u2" "recorded u2 k = Some e"
    using u2 ij acc(1) inv_step accept_records [OF \<open>inv u1\<close> u2, of k e] by auto
  have "time op \<le> time (ops ! j)" if "op \<in> set (take j ops)" for op
    using that assms(3) ij(2) by (auto simp: in_set_conv_nth sorted_iff_nth_mono)
  then have "\<forall>op \<in> set (drop (Suc i) (take j ops)). time op \<le> e"
    using alive by (meson in_set_dropD not_less order_trans)
  then have "recorded s1 k = Some e"
    using run_keeps_active [OF u(1) u3 u(2)] by simp
  then show False
    using accept_unrecorded [OF run_inv [OF assms(1) s1] s2 acc(2)] alive by simp
qed

lemma accepted_once:
  assumes "inv s" "run_ops step s ops = (rs, s')" "sorted (map time ops)"
    and "i < length ops" "j < length ops"
    and "accepts (ops ! i) (rs ! i) = Some (k, e)" "accepts (ops ! j) (rs ! j) = Some (k, e)"
  shows "i = j"
proof -
  have late: "time (ops ! m) \<le> e" if m: "m < length ops" "accepts (ops ! m) (rs ! m) = Some (k, e)" for m
  proof -
    obtain s1 s2 where "run_ops step s (take m ops) = (take m rs, s1)" "step s1 (ops ! m) = (rs ! m, s2)"
      using run_ops_nth [OF assms(2) m(1)] by blast
    then show ?thesis
      using accept_records [OF run_inv [OF assms(1)]] m(2) by blast
  qed
  then show ?thesis
    using accepted_again [OF assms(1-3), of i j k e e] accepted_again [OF assms(1-3), of j i k e e] assms(4-7)
    by (metis linorder_neqE_nat not_less)
qed

end

end
