(* ===== verification/Dpop_State.thy ===== *)
theory Dpop_State
  imports Dpop_Proof One_Shot
begin

text \<open>
  The in-memory state stores of \<open>keylix-dpop/src/state.rs\<close>: the replay store and the client and
  server nonce stores.

  Each store is one record; its \<open>Mutex\<close> makes every operation atomic, so an operation is a
  function on the record. \<open>poisoned\<close> says that a thread panicked while it held the lock, after
  which \<open>lock()\<close> fails for ever; no operation of the stores sets it. Readings of injected clocks
  and results of injected generators are arguments.

  The contracts are locales: \<open>replay_store\<close> (a specialisation of \<open>one_shot\<close>), \<open>nonce_store\<close>, and
  \<open>verifying_server\<close> for the verifier on top of any store that keeps the replay contract.
\<close>

section \<open>Metadata\<close>

datatype StateStoreTopology = SingleProcess

datatype StateStoreConsistency = ProcessLocalAtomic

record StateStoreMetadata =
  md_topology :: StateStoreTopology
  md_consistency :: StateStoreConsistency
  md_capacity :: nat

definition store_metadata :: "nat \<Rightarrow> StateStoreMetadata" where
  "store_metadata cap =
     \<lparr>md_topology = SingleProcess, md_consistency = ProcessLocalAtomic, md_capacity = cap\<rparr>"

section \<open>Replay store\<close>

record InMemoryReplayStore =
  rs_capacity :: nat
  rs_entries :: "(ReplayKey, i64) hashmap"
  rs_poisoned :: bool

definition replay_store_new :: "nat \<Rightarrow> DpopError + InMemoryReplayStore" where
  "replay_store_new cap =
     (if cap = 0 then Inl InvalidPolicy
      else Inr \<lparr>rs_capacity = cap, rs_entries = [], rs_poisoned = False\<rparr>)"

definition replay_check_and_record :: "DpopPortError + i64 \<Rightarrow> InMemoryReplayStore replay_op" where
  "replay_check_and_record clock st key expires =
     (case clock of
        Inl e \<Rightarrow> (Inl e, st)
      | Inr now \<Rightarrow>
          if expires < now then (Inl DpopPortError, st)
          else if rs_poisoned st then (Inl DpopPortError, st)
          else (let entries = hm_retain (\<lambda>expiry. expiry \<ge> now) (rs_entries st) in
            if hm_contains entries key then (Inr Replay, st\<lparr>rs_entries := entries\<rparr>)
            else if hm_len entries \<ge> rs_capacity st then
              (Inl DpopPortError, st\<lparr>rs_entries := entries\<rparr>)
            else (Inr Fresh, st\<lparr>rs_entries := hm_insert key expires entries\<rparr>)))"

definition wf_replay_store :: "InMemoryReplayStore \<Rightarrow> bool" where
  "wf_replay_store st \<longleftrightarrow>
     hm_wf (rs_entries st) \<and> hm_len (rs_entries st) \<le> rs_capacity st \<and> 0 < rs_capacity st"

section \<open>Nonce contexts\<close>

datatype NonceNamespace = AuthorizationServer | ResourceServer

record NonceContext =
  nc_namespace :: NonceNamespace
  nc_server_id :: str

definition MAX_NONCE_CONTEXT_BYTES :: nat where
  "MAX_NONCE_CONTEXT_BYTES = 2048"

definition GENERATED_NONCE_BYTES :: nat where
  "GENERATED_NONCE_BYTES = 16"

text \<open>\<open>chars().any(char::is_control)\<close> on UTF-8 text: the C0 controls and DEL are one byte, the C1
  controls are \<open>0xC2\<close> followed by \<open>0x80\<close> to \<open>0x9F\<close>.\<close>

fun has_control :: "str \<Rightarrow> bool" where
  "has_control [] = False"
| "has_control (c # cs) =
     (byte_of c < 0x20 \<or> byte_of c = 0x7F \<or>
      (byte_of c = 0xC2 \<and> (case cs of d # _ \<Rightarrow> 0x80 \<le> byte_of d \<and> byte_of d \<le> 0x9F | [] \<Rightarrow> False)) \<or>
      has_control cs)"

definition nonce_context_new :: "NonceNamespace \<Rightarrow> str \<Rightarrow> DpopError + NonceContext" where
  "nonce_context_new ns server_id =
     (if server_id = [] \<or> length server_id > MAX_NONCE_CONTEXT_BYTES \<or> has_control server_id
      then Inl InvalidPolicy
      else Inr \<lparr>nc_namespace = ns, nc_server_id = server_id\<rparr>)"

section \<open>Nonce stores\<close>

text \<open>The fields of \<open>InMemoryClientNonceStore\<close>, and of \<open>InMemoryServerNonceStore\<close> but for its
  generator.\<close>

record InMemoryNonceStore =
  ns_capacity :: nat
  ns_entries :: "(NonceContext, DpopNonce) hashmap"
  ns_poisoned :: bool

definition nonce_store_new :: "nat \<Rightarrow> DpopError + InMemoryNonceStore" where
  "nonce_store_new cap =
     (if cap = 0 then Inl InvalidPolicy
      else Inr \<lparr>ns_capacity = cap, ns_entries = [], ns_poisoned = False\<rparr>)"

definition nonce_forget ::
  "InMemoryNonceStore \<Rightarrow> NonceContext \<Rightarrow> (DpopPortError + unit) \<times> InMemoryNonceStore" where
  "nonce_forget st ctx =
     (if ns_poisoned st then (Inl DpopPortError, st)
      else (Inr (), st\<lparr>ns_entries := hm_remove ctx (ns_entries st)\<rparr>))"

definition client_nonce_metadata :: "InMemoryNonceStore \<Rightarrow> StateStoreMetadata" where
  "client_nonce_metadata st = store_metadata (ns_capacity st)"

definition nonce_record ::
  "InMemoryNonceStore \<Rightarrow> NonceContext \<Rightarrow> DpopNonce \<Rightarrow> (DpopPortError + unit) \<times> InMemoryNonceStore" where
  "nonce_record st ctx nonce =
     (if ns_poisoned st then (Inl DpopPortError, st)
      else if \<not> hm_contains (ns_entries st) ctx \<and> hm_len (ns_entries st) \<ge> ns_capacity st
      then (Inl DpopPortError, st)
      else (Inr (), st\<lparr>ns_entries := hm_insert ctx nonce (ns_entries st)\<rparr>))"

text \<open>\<open>nonce_for\<close> of the client store, \<open>expected_nonce\<close> of the server store.\<close>

definition nonce_for :: "InMemoryNonceStore \<Rightarrow> NonceContext \<Rightarrow> DpopPortError + DpopNonce option" where
  "nonce_for st ctx =
     (if ns_poisoned st then Inl DpopPortError else Inr (hm_get (ns_entries st) ctx))"

definition record_challenge ::
  "InMemoryNonceStore \<Rightarrow> NonceContext \<Rightarrow> DpopNonce \<Rightarrow> (DpopPortError + unit) \<times> InMemoryNonceStore" where
  "record_challenge st ctx nonce = nonce_record st ctx nonce"

definition record_success ::
  "InMemoryNonceStore \<Rightarrow> NonceContext \<Rightarrow> DpopNonce option
   \<Rightarrow> (DpopPortError + unit) \<times> InMemoryNonceStore" where
  "record_success st ctx nonce =
     (case nonce of Some n \<Rightarrow> nonce_record st ctx n | None \<Rightarrow> (Inr (), st))"

definition random_nonce_generate :: "externs \<Rightarrow> bytes option \<Rightarrow> DpopPortError + DpopNonce" where
  "random_nonce_generate X fill =
     bindE (ok_or DpopPortError fill) (\<lambda>bs.
       map_err (\<lambda>_. DpopPortError) (nonce_new (b64_encode X bs)))"

definition server_nonce_store_new :: "nat \<Rightarrow> DpopError + InMemoryNonceStore" where
  "server_nonce_store_new cap =
     (if cap = 0 then Inl InvalidPolicy
      else Inr \<lparr>ns_capacity = cap, ns_entries = [], ns_poisoned = False\<rparr>)"

definition server_nonce_metadata :: "InMemoryNonceStore \<Rightarrow> StateStoreMetadata" where
  "server_nonce_metadata st = store_metadata (ns_capacity st)"

definition server_nonce_forget ::
  "InMemoryNonceStore \<Rightarrow> NonceContext \<Rightarrow> (DpopPortError + unit) \<times> InMemoryNonceStore" where
  "server_nonce_forget st ctx =
     (if ns_poisoned st then (Inl DpopPortError, st)
      else (Inr (), st\<lparr>ns_entries := hm_remove ctx (ns_entries st)\<rparr>))"

definition expected_nonce :: "InMemoryNonceStore \<Rightarrow> NonceContext \<Rightarrow> DpopPortError + DpopNonce option" where
  "expected_nonce st ctx =
     (if ns_poisoned st then Inl DpopPortError else Inr (hm_get (ns_entries st) ctx))"

definition issue_nonce ::
  "DpopPortError + DpopNonce \<Rightarrow> InMemoryNonceStore \<Rightarrow> NonceContext
   \<Rightarrow> (DpopPortError + DpopNonce) \<times> InMemoryNonceStore" where
  "issue_nonce generated st ctx =
     (case generated of
        Inl e \<Rightarrow> (Inl e, st)
      | Inr nonce \<Rightarrow>
          if ns_poisoned st then (Inl DpopPortError, st)
          else if \<not> hm_contains (ns_entries st) ctx \<and> hm_len (ns_entries st) \<ge> ns_capacity st
          then (Inl DpopPortError, st)
          else (Inr nonce, st\<lparr>ns_entries := hm_insert ctx nonce (ns_entries st)\<rparr>))"

definition wf_nonce_store :: "InMemoryNonceStore \<Rightarrow> bool" where
  "wf_nonce_store st \<longleftrightarrow>
     hm_wf (ns_entries st) \<and> hm_len (ns_entries st) \<le> ns_capacity st \<and> 0 < ns_capacity st"

section \<open>The replay contract\<close>

record replay_call =
  rc_time :: i64
  rc_key :: ReplayKey
  rc_expires :: i64

text \<open>\<open>check t s k e\<close> is \<open>check_and_record(k, e)\<close> of a store in state \<open>s\<close> whose clock reads \<open>t\<close>.\<close>

locale replay_store =
  fixes check :: "i64 \<Rightarrow> 's replay_op"
    and inv :: "'s \<Rightarrow> bool"
    and recorded :: "'s \<Rightarrow> ReplayKey \<Rightarrow> i64 option"
  assumes check_inv: "inv s \<Longrightarrow> check t s k e = (r, s') \<Longrightarrow> inv s'"
    and check_fresh: "inv s \<Longrightarrow> check t s k e = (Inr Fresh, s') \<Longrightarrow> recorded s' k = Some e \<and> t \<le> e"
    and check_fresh_new: "inv s \<Longrightarrow> check t s k e = (Inr Fresh, s') \<Longrightarrow> recorded s k = Some e' \<Longrightarrow> e' < t"
    and check_keeps: "inv s \<Longrightarrow> check t s k e = (r, s') \<Longrightarrow> recorded s k' = Some e' \<Longrightarrow> t \<le> e' \<Longrightarrow>
      recorded s' k' = Some e'"

definition fresh_call :: "replay_call \<Rightarrow> DpopPortError + ReplayStatus \<Rightarrow> (ReplayKey \<times> i64) option" where
  "fresh_call c r = (if r = Inr Fresh then Some (rc_key c, rc_expires c) else None)"

sublocale replay_store \<subseteq> calls: one_shot "\<lambda>s c. check (rc_time c) s (rc_key c) (rc_expires c)" inv
  recorded rc_time fresh_call
  by unfold_locales
    (auto simp: fresh_call_def dest: check_inv check_fresh check_fresh_new check_keeps split: if_splits)

text \<open>One call of the verifier: the reading of its own clock, the reading of the store's clock,
  the proof and the request.\<close>

record verify_call =
  vc_clock :: "DpopPortError + i64"
  vc_time :: i64
  vc_proof :: UnverifiedDpopProof
  vc_request :: DpopRequest

text \<open>The replay key and record expiry of an accepted call.\<close>

definition accepted_call ::
  "externs \<Rightarrow> VerificationPolicy \<Rightarrow> verify_call \<Rightarrow> DpopError + VerifiedDpopProof
   \<Rightarrow> (ReplayKey \<times> i64) option" where
  "accepted_call X policy c r =
     (case (r, verify_before_replay X policy (vc_clock c) (vc_proof c) (vc_request c)) of
        (Inr _, Inr (_, key, expires, _)) \<Rightarrow> Some (key, expires)
      | _ \<Rightarrow> None)"

lemma dpop_verify_store:
  assumes "dpop_verify X policy clock car p req s = (r, s')"
  shows "(case verify_before_replay X policy clock p req of
      Inl e \<Rightarrow> r = Inl e \<and> s' = s
    | Inr (tp, key, expires, ath) \<Rightarrow>
        (\<exists>q. car s key expires = (q, s') \<and> (is_ok r \<longleftrightarrow> q = Inr Fresh)))"
  using assms
  by (auto simp: dpop_verify_def split: sum.splits prod.splits ReplayStatus.splits)

locale verifying_server = replay_store +
  fixes X :: externs
    and policy :: VerificationPolicy
begin

lemma verify_inv:
  assumes "inv s" "dpop_verify X policy clock (check t) p req s = (r, s')"
  shows "inv s'"
  using dpop_verify_store [OF assms(2)] assms(1)
  by (auto split: sum.splits prod.splits dest: check_inv)

lemma verify_keeps:
  assumes "inv s" "dpop_verify X policy clock (check t) p req s = (r, s')"
    and "recorded s k = Some e" "t \<le> e"
  shows "recorded s' k = Some e"
  using dpop_verify_store [OF assms(2)] assms(1,3,4)
  by (auto split: sum.splits prod.splits dest: check_keeps)

lemma verify_accepted:
  assumes "inv s" "dpop_verify X policy (vc_clock c) (check (vc_time c)) (vc_proof c) (vc_request c) s = (r, s')"
    and "accepted_call X policy c r = Some (k, e)"
  shows "check (vc_time c) s k e = (Inr Fresh, s')"
  using dpop_verify_store [OF assms(2)] assms(3)
  by (auto simp: accepted_call_def split: sum.splits prod.splits)

end

sublocale verifying_server \<subseteq> server: one_shot
  "\<lambda>s c. dpop_verify X policy (vc_clock c) (check (vc_time c)) (vc_proof c) (vc_request c) s"
  inv recorded vc_time "accepted_call X policy"
proof (unfold_locales, goal_cases)
  case (1 s op r s')
  then show ?case by (rule verify_inv)
next
  case (2 s op r s' k e)
  then show ?case using verify_accepted check_fresh by blast
next
  case (3 s op r s' k e e')
  then show ?case using verify_accepted check_fresh_new by blast
next
  case (4 s op r s' k e)
  then show ?case by (rule verify_keeps)
qed

section \<open>The in-memory replay store keeps the contract\<close>

abbreviation memory_recorded :: "InMemoryReplayStore \<Rightarrow> ReplayKey \<Rightarrow> i64 option" where
  "memory_recorded st \<equiv> hm_get (rs_entries st)"

abbreviation memory_check :: "i64 \<Rightarrow> InMemoryReplayStore replay_op" where
  "memory_check t \<equiv> replay_check_and_record (Inr t)"

text \<open>What one call can do, branch by branch.\<close>

lemma memory_check_cases:
  assumes "memory_check t st k e = (r, st')"
  obtains (late) "e < t \<or> rs_poisoned st" "r = Inl DpopPortError" "st' = st"
  | (replay) entries where "t \<le> e" "entries = hm_retain (\<lambda>x. x \<ge> t) (rs_entries st)"
      "hm_contains entries k" "r = Inr Replay" "st' = st\<lparr>rs_entries := entries\<rparr>"
  | (full) entries where "t \<le> e" "entries = hm_retain (\<lambda>x. x \<ge> t) (rs_entries st)"
      "\<not> hm_contains entries k" "rs_capacity st \<le> hm_len entries" "r = Inl DpopPortError"
      "st' = st\<lparr>rs_entries := entries\<rparr>"
  | (fresh) entries where "t \<le> e" "entries = hm_retain (\<lambda>x. x \<ge> t) (rs_entries st)"
      "\<not> hm_contains entries k" "hm_len entries < rs_capacity st" "r = Inr Fresh"
      "st' = st\<lparr>rs_entries := hm_insert k e entries\<rparr>"
proof -
  define entries where "entries = hm_retain (\<lambda>x. x \<ge> t) (rs_entries st)"
  have r: "(r, st') = (if e < t \<or> rs_poisoned st then (Inl DpopPortError, st)
      else if hm_contains entries k then (Inr Replay, st\<lparr>rs_entries := entries\<rparr>)
      else if hm_len entries \<ge> rs_capacity st then (Inl DpopPortError, st\<lparr>rs_entries := entries\<rparr>)
      else (Inr Fresh, st\<lparr>rs_entries := hm_insert k e entries\<rparr>))"
    unfolding assms [symmetric] replay_check_and_record_def Let_def entries_def by simp
  consider "e < t \<or> rs_poisoned st" | "\<not> (e < t \<or> rs_poisoned st)" "hm_contains entries k"
    | "\<not> (e < t \<or> rs_poisoned st)" "\<not> hm_contains entries k" "rs_capacity st \<le> hm_len entries"
    | "\<not> (e < t \<or> rs_poisoned st)" "\<not> hm_contains entries k" "hm_len entries < rs_capacity st"
    by linarith
  then show thesis
  proof cases
    case 1
    then show ?thesis using r late by simp
  next
    case 2
    then show ?thesis using r replay [OF _ entries_def] by simp
  next
    case 3
    then show ?thesis using r full [OF _ entries_def] by simp
  next
    case 4
    then show ?thesis using r fresh [OF _ entries_def] by simp
  qed
qed

lemma memory_check_wf:
  assumes "wf_replay_store st" "memory_check t st k e = (r, st')"
  shows "wf_replay_store st'"
  using assms(2)
proof (cases rule: memory_check_cases)
  case late
  then show ?thesis using assms(1) by simp
next
  case (replay entries)
  then show ?thesis
    using assms(1) hm_len_retain_le [of _ "rs_entries st"] by (auto simp: wf_replay_store_def intro: order_trans)
next
  case (full entries)
  then show ?thesis
    using assms(1) hm_len_retain_le [of _ "rs_entries st"] by (auto simp: wf_replay_store_def intro: order_trans)
next
  case (fresh entries)
  then show ?thesis
    using assms(1) by (auto simp: wf_replay_store_def hm_len_insert)
qed

interpretation memory: replay_store memory_check wf_replay_store memory_recorded
proof (unfold_locales, goal_cases)
  case (1 s t k e r s')
  then show ?case by (rule memory_check_wf)
next
  case (2 s t k e s')
  from 2(2) show ?case by (cases rule: memory_check_cases) (simp_all add: hm_simps)
next
  case (3 s t k e s' e')
  then have "hm_wf (rs_entries s)" by (simp add: wf_replay_store_def)
  with 3(3) show ?case
    by (cases rule: memory_check_cases [OF 3(2)]) (auto simp: hm_contains_def hm_simps split: if_splits)
next
  case (4 s t k e r s' k' e')
  then have "hm_wf (rs_entries s)" by (simp add: wf_replay_store_def)
  with 4(3,4) show ?case
    by (cases rule: memory_check_cases [OF 4(2)]) (auto simp: hm_contains_def hm_simps)
qed

interpretation memory_server: verifying_server memory_check wf_replay_store memory_recorded X policy
  for X policy
  by unfold_locales

section \<open>The client nonce contract\<close>

datatype nonce_event =
    Challenged NonceContext DpopNonce
  | Succeeded NonceContext "DpopNonce option"

fun event_context :: "nonce_event \<Rightarrow> NonceContext" where
  "event_context (Challenged c n) = c"
| "event_context (Succeeded c n) = c"

fun event_nonce :: "nonce_event \<Rightarrow> DpopNonce option" where
  "event_nonce (Challenged c n) = Some n"
| "event_nonce (Succeeded c n) = n"

fun nonce_step ::
  "('s \<Rightarrow> NonceContext \<Rightarrow> DpopNonce \<Rightarrow> (DpopPortError + unit) \<times> 's)
   \<Rightarrow> ('s \<Rightarrow> NonceContext \<Rightarrow> DpopNonce option \<Rightarrow> (DpopPortError + unit) \<times> 's)
   \<Rightarrow> 's \<Rightarrow> nonce_event \<Rightarrow> (DpopPortError + unit) \<times> 's" where
  "nonce_step challenge success s (Challenged c n) = challenge s c n"
| "nonce_step challenge success s (Succeeded c n) = success s c n"

locale client_nonce_store =
  fixes lookup :: "'s \<Rightarrow> NonceContext \<Rightarrow> DpopPortError + DpopNonce option"
    and challenge :: "'s \<Rightarrow> NonceContext \<Rightarrow> DpopNonce \<Rightarrow> (DpopPortError + unit) \<times> 's"
    and success :: "'s \<Rightarrow> NonceContext \<Rightarrow> DpopNonce option \<Rightarrow> (DpopPortError + unit) \<times> 's"
  assumes challenge_ok: "challenge s c n = (Inr u, s') \<Longrightarrow> lookup s' c = Inr (Some n)"
    and challenge_failed: "challenge s c n = (Inl e, s') \<Longrightarrow> s' = s"
    and challenge_other: "challenge s c n = (r, s') \<Longrightarrow> c' \<noteq> c \<Longrightarrow> lookup s' c' = lookup s c'"
    and success_none: "success s c None = (r, s') \<Longrightarrow> s' = s"
    and success_some: "success s c (Some n) = challenge s c n"
begin

lemma step_lookup:
  assumes "nonce_step challenge success s ev = (r, s')"
  shows "lookup s' c = (if event_context ev = c \<and> r = Inr () \<and> event_nonce ev \<noteq> None
    then Inr (event_nonce ev) else lookup s c)"
proof -
  have chal: "lookup s' c = (if d = c \<and> r = Inr () then Inr (Some n) else lookup s c)"
    if "challenge s d n = (r, s')" for d n
    using that challenge_ok [of s d n "()" s'] challenge_failed [of s d n _ s'] challenge_other [of s d n r s' c]
    by (cases r) auto
  show ?thesis
  proof (cases ev)
    case (Challenged d n)
    then show ?thesis using assms chal by auto
  next
    case (Succeeded d n)
    then show ?thesis
      using assms chal [of d] success_none [of s d r s'] by (cases n) (simp_all add: success_some)
  qed
qed

text \<open>No sequence of challenges and successes, failed ones included, takes a nonce away.\<close>

lemma run_keeps_nonce:
  assumes "run_ops (nonce_step challenge success) s evs = (rs, s')" "lookup s c = Inr (Some n)"
  shows "\<exists>n'. lookup s' c = Inr (Some n') \<and>
    (n' = n \<or> (\<exists>ev \<in> set evs. event_context ev = c \<and> event_nonce ev = Some n'))"
  using assms
proof (induction evs arbitrary: s n rs)
  case (Cons ev evs)
  obtain r s1 rs1 where s1: "nonce_step challenge success s ev = (r, s1)"
    and run: "run_ops (nonce_step challenge success) s1 evs = (rs1, s')"
    using Cons.prems(1) by (auto split: prod.splits)
  obtain m where m: "lookup s1 c = Inr (Some m)" "m = n \<or> event_context ev = c \<and> event_nonce ev = Some m"
    using step_lookup [OF s1, of c] Cons.prems(2) by (cases "event_nonce ev") (auto split: if_splits)
  show ?case
    using Cons.IH [OF run m(1)] m(2) by auto
qed simp

lemma run_other_contexts:
  assumes "run_ops (nonce_step challenge success) s evs = (rs, s')" "\<forall>ev \<in> set evs. event_context ev \<noteq> c"
  shows "lookup s' c = lookup s c"
  using assms
proof (induction evs arbitrary: s rs)
  case (Cons ev evs)
  then show ?case using step_lookup [of s ev _ _ c] by (auto split: prod.splits)
qed simp

end

interpretation memory_nonces: client_nonce_store nonce_for record_challenge record_success
  by unfold_locales
    (auto simp: nonce_for_def record_challenge_def record_success_def nonce_record_def hm_simps
      split: if_splits)

section \<open>One proof, one replay key\<close>

text \<open>Whatever the requests, two accepted verifications of one proof used the same replay key and
  the same expiry: method and target are those the proof names.\<close>

lemma accepted_call_key:
  assumes "is_ok r" "dpop_verify X policy (vc_clock c) car (vc_proof c) (vc_request c) s = (r, s')"
  shows "\<exists>u key. target_parse (clm_htu (up_claims (vc_proof c))) = Inr u \<and>
    derive_replay_key X (thumbprint X (up_public_jwk (vc_proof c))) (clm_htm (up_claims (vc_proof c))) u
      (clm_jti (up_claims (vc_proof c))) = Inr key \<and>
    accepted_call X policy c r = Some (key, clm_iat (up_claims (vc_proof c)) + max_proof_age_seconds policy)"
proof -
  obtain v where r: "r = Inr v" using assms(1) by (auto simp: result_simps)
  then obtain tp key e ath where k: "verify_before_replay X policy (vc_clock c) (vc_proof c) (vc_request c) =
      Inr (tp, key, e, ath)"
    using assms(2) by (auto simp: dpop_verify_Inr_iff)
  then have "accepted_call X policy c r = Some (key, e)"
    by (simp add: accepted_call_def r)
  moreover obtain now where "proof_checks X policy now (vc_proof c) (vc_request c)"
    using k by (auto simp: verify_before_replay_Inr_iff)
  then have "clm_htm (up_claims (vc_proof c)) = req_method (vc_request c)"
    "target_parse (clm_htu (up_claims (vc_proof c))) = Inr (req_target (vc_request c))"
    by (simp_all add: proof_checks_def)
  ultimately show ?thesis
    using k unfolding verify_before_replay_Inr_iff by auto
qed

section \<open>A proof against a new store\<close>

text \<open>The replay material of a proof that passed the parser always fits the length prefixes.\<close>

lemma replay_key_exists:
  assumes "wf_request req" "sha256_law X" "length jti \<le> MAX_PROOF_ID_BYTES"
  shows "\<exists>key. derive_replay_key X (thumbprint X jwk) (req_method req) (req_target req) jti = Inr key"
proof -
  have "\<forall>q \<in> set (replay_parts (thumbprint X jwk) (req_method req) (req_target req) jti). length q < 2 ^ 64"
    using wf_requestD(2,5) [OF assms(1)] assms(2,3)
    by (auto simp: replay_parts_def thumbprint_def sha256_length MAX_METHOD_BYTES_def MAX_TARGET_BYTES_def
        MAX_PROOF_ID_BYTES_def)
  from replay_material_ok [OF this] show ?thesis
    by (auto simp: derive_replay_key_def replay_parts_def simp del: replay_material.simps)
qed

text \<open>A proof that passes the checks is accepted by a new store and is a replay the next time.\<close>

lemma accepted_then_replay:
  assumes "replay_store_new capacity = Inr store"
    and "proof_checks X policy now p req" "proof_checks X policy later p req" "now \<le> later"
    and "derive_replay_key X (thumbprint X (up_public_jwk p)) (req_method req) (req_target req)
      (clm_jti (up_claims p)) = Inr key"
    and "in_i64 (clm_iat (up_claims p) + max_proof_age_seconds policy)"
  shows "\<exists>v store1. dpop_verify X policy (Inr now) (replay_check_and_record (Inr now)) p req store = (Inr v, store1) \<and>
    vp_key_thumbprint v = thumbprint X (up_public_jwk p) \<and>
    vp_access_token_hash_verified v = (req_access_token req \<noteq> None) \<and>
    fst (dpop_verify X policy (Inr later) (replay_check_and_record (Inr later)) p req store1) = Inl ReplayDetected"
proof -
  let ?e = "clm_iat (up_claims p) + max_proof_age_seconds policy"
  let ?r = "\<lambda>t. verify_before_replay X policy (Inr t) p req"
  have before: "?r t = Inr (thumbprint X (up_public_jwk p), key, ?e, req_access_token req \<noteq> None)"
    if "proof_checks X policy t p req" for t
    using that assms(5,6) by (simp add: verify_before_replay_Inr_iff)
  have le: "now \<le> ?e" "later \<le> ?e"
    using assms(2,3) by (simp_all add: proof_checks_def)
  have fresh: "replay_check_and_record (Inr now) store key ?e = (Inr Fresh, store\<lparr>rs_entries := [(key, ?e)]\<rparr>)"
    using assms(1) le
    by (auto simp: replay_store_new_def replay_check_and_record_def hm_retain_def hm_contains_def hm_get_def
        hm_len_def hm_insert_def split: if_splits)
  have "fst (replay_check_and_record (Inr later) (store\<lparr>rs_entries := [(key, ?e)]\<rparr>) key ?e) = Inr Replay"
    using assms(1) le
    by (auto simp: replay_store_new_def replay_check_and_record_def hm_retain_def hm_contains_def hm_get_def
        split: if_splits)
  then show ?thesis
    using before [OF assms(2)] before [OF assms(3)] fresh
    by (auto simp: dpop_verify_def split: prod.splits)
qed

section \<open>Properties\<close>

definition sample_store :: InMemoryReplayStore where
  "sample_store = \<lparr>rs_capacity = 2, rs_entries = [], rs_poisoned = False\<rparr>"

lemma sample_store_wf: "wf_replay_store sample_store"
  by (simp add: sample_store_def wf_replay_store_def hm_len_def)

text \<open>C1. No replay: along any sequence of verifications against one in-memory replay store whose
  clock readings do not go back, one proof is accepted at most once, however the other calls
  interleave and whatever requests it is presented with.\<close>

theorem proof_accepted_at_most_once:
  fixes calls :: "verify_call list"
  assumes "wf_replay_store st" "sorted (map vc_time calls)"
    and "run_ops (\<lambda>s c. dpop_verify X policy (vc_clock c) (replay_check_and_record (Inr (vc_time c)))
      (vc_proof c) (vc_request c) s) st calls = (rs, st')"
    and "i < length calls" "j < length calls" "is_ok (rs ! i)" "is_ok (rs ! j)"
    and "vc_proof (calls ! i) = vc_proof (calls ! j)"
  shows "i = j"
proof -
  have key: "\<exists>u key. target_parse (clm_htu (up_claims (vc_proof (calls ! m)))) = Inr u \<and>
      derive_replay_key X (thumbprint X (up_public_jwk (vc_proof (calls ! m))))
        (clm_htm (up_claims (vc_proof (calls ! m)))) u (clm_jti (up_claims (vc_proof (calls ! m)))) = Inr key \<and>
      accepted_call X policy (calls ! m) (rs ! m) =
        Some (key, clm_iat (up_claims (vc_proof (calls ! m))) + max_proof_age_seconds policy)"
    if "m < length calls" "is_ok (rs ! m)" for m
    by (rule run_ops_nth [OF assms(3) that(1)]) (rule accepted_call_key [OF that(2)])
  obtain k e where "accepted_call X policy (calls ! i) (rs ! i) = Some (k, e)"
    "accepted_call X policy (calls ! j) (rs ! j) = Some (k, e)"
    using key [OF assms(4,6)] key [OF assms(5,7)] assms(8) by auto
  then show ?thesis
    using memory_server.server.accepted_once [OF assms(1,3,2,4,5)] by blast
qed

theorem proof_accepted_at_most_once_witness:
  "\<exists>p v st1 r st2. parse_dpop_header_values sample_X [proof_header_value sample_proof] = Inr p \<and>
     dpop_verify sample_X policy_default (Inr 1010) (replay_check_and_record (Inr 1010)) p sample_request
       sample_store = (Inr v, st1) \<and>
     dpop_verify sample_X policy_default (Inr 1300) (replay_check_and_record (Inr 1300)) p sample_request
       st1 = (r, st2) \<and> \<not> is_ok r"
proof -
  define sk where "sk key = sample_store\<lparr>rs_entries := [(key, 1300)]\<rparr>" for key
  have fresh: "replay_check_and_record (Inr 1010) sample_store key 1300 = (Inr Fresh, sk key)" for key
    by (simp add: replay_check_and_record_def sample_store_def hm_retain_def hm_contains_def hm_get_def
        hm_len_def hm_insert_def sk_def)
  obtain p key v where p: "parse_dpop_header_values sample_X [proof_header_value sample_proof] = Inr p"
    and v: "dpop_verify sample_X policy_default (Inr 1010) (replay_check_and_record (Inr 1010)) p sample_request
      sample_store = (Inr v, sk key)"
    using sample_accepted [of "replay_check_and_record (Inr 1010)" sample_store sk, OF fresh] by blast
  obtain r st2 where r: "dpop_verify sample_X policy_default (Inr 1300) (replay_check_and_record (Inr 1300)) p
      sample_request (sk key) = (r, st2)"
    by fastforce
  let ?c = "\<lambda>t. \<lparr>vc_clock = Inr t, vc_time = t, vc_proof = p, vc_request = sample_request\<rparr>"
  have run: "run_ops (\<lambda>s c. dpop_verify sample_X policy_default (vc_clock c) (replay_check_and_record (Inr (vc_time c)))
      (vc_proof c) (vc_request c) s) sample_store [?c 1010, ?c 1300] = ([Inr v, r], st2)"
    using v r by simp
  have "\<not> is_ok r"
    using proof_accepted_at_most_once [OF sample_store_wf _ run, of 0 1] by auto
  with p v r show ?thesis by blast
qed

text \<open>The replay store stays within its capacity and never drops a record that is still
  alive, whatever the outcome of the call; a fresh answer means that the key had no live record
  and now has one, and a replay answer that it had one.\<close>

lemma replay_store_bounded_and_retaining:
  assumes "wf_replay_store st" "replay_check_and_record (Inr now) st key expires = (r, st')"
  shows "wf_replay_store st' \<and> hm_len (rs_entries st') \<le> rs_capacity st \<and>
    (\<forall>k e. hm_get (rs_entries st) k = Some e \<and> now \<le> e \<longrightarrow> hm_get (rs_entries st') k = Some e) \<and>
    (r = Inr Fresh \<longrightarrow> hm_get (rs_entries st') key = Some expires \<and>
       (\<forall>e. hm_get (rs_entries st) key = Some e \<longrightarrow> e < now)) \<and>
    (r = Inr Replay \<longrightarrow> (\<exists>e. hm_get (rs_entries st) key = Some e \<and> now \<le> e))"
proof -
  have wf: "hm_wf (rs_entries st)"
    using assms(1) by (simp add: wf_replay_store_def)
  have wf': "wf_replay_store st'"
    by (rule memory_check_wf [OF assms])
  have cap: "rs_capacity st' = rs_capacity st"
    by (cases rule: memory_check_cases [OF assms(2)]) simp_all
  have "\<exists>e. hm_get (rs_entries st) key = Some e \<and> now \<le> e" if "r = Inr Replay"
    using that wf
    by (cases rule: memory_check_cases [OF assms(2)])
      (auto simp: hm_contains_def hm_simps split: option.splits if_splits)
  moreover have "hm_get (rs_entries st') key = Some expires \<and> (\<forall>e. hm_get (rs_entries st) key = Some e \<longrightarrow> e < now)"
    if "r = Inr Fresh"
    using memory.check_fresh [OF assms(1)] memory.check_fresh_new [OF assms(1)] assms(2) that by blast
  moreover have "hm_len (rs_entries st') \<le> rs_capacity st"
    using wf' cap by (simp add: wf_replay_store_def)
  ultimately show ?thesis
    using wf' memory.check_keeps [OF assms] by blast
qed

text \<open>C34. No nonce downgrade: once the client store has a nonce for a server context, no sequence
  of challenges and successful responses, with or without nonce and failed ones included, leaves
  it without one, and the nonce it then has is the old one or one received for that context.\<close>

theorem client_nonce_never_lost:
  assumes "run_ops (nonce_step record_challenge record_success) st events = (rs, st')"
    and "nonce_for st ctx = Inr (Some n)"
  shows "\<exists>n'. nonce_for st' ctx = Inr (Some n') \<and>
    (n' = n \<or> (\<exists>ev \<in> set events. event_context ev = ctx \<and> event_nonce ev = Some n'))"
  using assms by (rule memory_nonces.run_keeps_nonce)

theorem client_nonce_never_lost_witness:
  "\<exists>st n'. nonce_for st \<lparr>nc_namespace = ResourceServer, nc_server_id = ''rs''\<rparr> = Inr (Some n') \<and>
     st = snd (run_ops (nonce_step record_challenge record_success)
       \<lparr>ns_capacity = 1, ns_entries = [(\<lparr>nc_namespace = ResourceServer, nc_server_id = ''rs''\<rparr>, DpopNonce ''a'')],
         ns_poisoned = False\<rparr>
       [Succeeded \<lparr>nc_namespace = ResourceServer, nc_server_id = ''rs''\<rparr> None])"
  using client_nonce_never_lost [OF surjective_pairing,
      of "\<lparr>ns_capacity = 1, ns_entries = [(\<lparr>nc_namespace = ResourceServer, nc_server_id = ''rs''\<rparr>, DpopNonce ''a'')],
         ns_poisoned = False\<rparr>" "\<lparr>nc_namespace = ResourceServer, nc_server_id = ''rs''\<rparr>" "DpopNonce ''a''"
      "[Succeeded \<lparr>nc_namespace = ResourceServer, nc_server_id = ''rs''\<rparr> None]"]
  by (auto simp: nonce_for_def hm_get_def)

text \<open>Nonce state does not cross between authorization servers and resource servers: events
  for one namespace leave every context of the other as it was.\<close>

lemma client_nonce_namespaces_separate:
  assumes "run_ops (nonce_step record_challenge record_success) st events = (rs, st')"
    and "\<forall>ev \<in> set events. nc_namespace (event_context ev) = AuthorizationServer"
    and "nc_namespace ctx = ResourceServer"
  shows "nonce_for st' ctx = nonce_for st ctx"
  using assms(2,3) by (intro memory_nonces.run_other_contexts [OF assms(1)]) auto

end
