(* ===== verification/OAuth_Binding.thy ===== *)
theory OAuth_Binding
  imports Dpop_State
begin

text \<open>
  Sender binding in \<open>keylix-oauth\<close>: the errors (\<open>error.rs\<close>) and the composition of a verified
  proof with the host's own validation of the access token (\<open>binding.rs\<close>). The host's validation
  itself is outside; a \<open>HostValidatedToken\<close> records for which exact token it was done and which
  confirmation key it found.
\<close>

section \<open>Definitions\<close>

datatype OAuthDpopError =
    TokenTypeNotDpop
  | TokenIdentityMismatch
  | TokenBindingMissing
  | TokenBindingMalformed
  | TokenBindingMismatch
  | ProofNotAccessTokenBound
  | TokenInactive
  | ProofKeyContinuityMismatch
  | NonceContextMismatch
  | NonceStateUnavailable
  | NonceRetryLimitExceeded
  | InvalidCredential
  | Dpop DpopError

definition SHA256_BYTES :: nat where
  "SHA256_BYTES = 32"

datatype TokenFingerprint = TokenFingerprint bytes

definition from_token_bytes :: "externs \<Rightarrow> bytes \<Rightarrow> TokenFingerprint" where
  "from_token_bytes X token = TokenFingerprint (sha256 X token)"

datatype TokenValidationSource = ValidatedJwt | AuthenticatedIntrospection | EquivalentHostValidator

record HostValidatedToken =
  hv_fingerprint :: TokenFingerprint
  hv_confirmation :: "bytes option"
  hv_source :: TokenValidationSource

definition parse_jkt :: "externs \<Rightarrow> str \<Rightarrow> OAuthDpopError + bytes" where
  "parse_jkt X value =
     (if length value \<noteq> SHA256_BASE64URL_BYTES \<or> str_contains value (CHR ''='')
      then Inl TokenBindingMalformed
      else bindE (ok_or TokenBindingMalformed (b64_decode X value)) (\<lambda>decoded.
        if length decoded \<noteq> SHA256_BYTES then Inl TokenBindingMalformed
        else if b64_encode X decoded \<noteq> value then Inl TokenBindingMalformed
        else Inr decoded))"

definition host_validated_new ::
  "externs \<Rightarrow> bytes \<Rightarrow> str option \<Rightarrow> TokenValidationSource \<Rightarrow> OAuthDpopError + HostValidatedToken" where
  "host_validated_new X exact_token confirmation_jkt source =
     bindE (case confirmation_jkt of None \<Rightarrow> Inr None | Some j \<Rightarrow> map_ok Some (parse_jkt X j))
       (\<lambda>confirmation.
         Inr \<lparr>hv_fingerprint = from_token_bytes X exact_token, hv_confirmation = confirmation,
              hv_source = source\<rparr>)"

definition from_host_validated_jwt ::
  "externs \<Rightarrow> bytes \<Rightarrow> str option \<Rightarrow> OAuthDpopError + HostValidatedToken" where
  "from_host_validated_jwt X exact_token jkt = host_validated_new X exact_token jkt ValidatedJwt"

definition from_host_authenticated_introspection ::
  "externs \<Rightarrow> bytes \<Rightarrow> bool \<Rightarrow> str option \<Rightarrow> OAuthDpopError + HostValidatedToken" where
  "from_host_authenticated_introspection X exact_token active jkt =
     (if \<not> active then Inl TokenInactive
      else host_validated_new X exact_token jkt AuthenticatedIntrospection)"

definition from_equivalent_host_validator ::
  "externs \<Rightarrow> bytes \<Rightarrow> str option \<Rightarrow> OAuthDpopError + HostValidatedToken" where
  "from_equivalent_host_validator X exact_token jkt =
     host_validated_new X exact_token jkt EquivalentHostValidator"

record VerifiedSenderBinding =
  sb_key_thumbprint :: JwkThumbprint
  sb_source :: TokenValidationSource
  sb_proof_issued_at_unix :: i64
  sb_nonce_enforced :: bool
  sb_replay_checked :: bool

definition compose_sender_binding ::
  "externs \<Rightarrow> VerifiedDpopProof \<Rightarrow> bytes \<Rightarrow> HostValidatedToken \<Rightarrow> OAuthDpopError + VerifiedSenderBinding" where
  "compose_sender_binding X proof exact_presented_token validated =
     (if \<not> vp_access_token_hash_verified proof then Inl ProofNotAccessTokenBound
      else if from_token_bytes X exact_presented_token \<noteq> hv_fingerprint validated
      then Inl TokenIdentityMismatch
      else bindE (ok_or TokenBindingMissing (hv_confirmation validated)) (\<lambda>confirmation.
        if vp_key_thumbprint proof \<noteq> confirmation then Inl TokenBindingMismatch
        else Inr \<lparr>sb_key_thumbprint = vp_key_thumbprint proof, sb_source = hv_source validated,
                  sb_proof_issued_at_unix = vp_issued_at_unix proof,
                  sb_nonce_enforced = vp_nonce_enforced proof,
                  sb_replay_checked = vp_replay_checked proof\<rparr>))"

section \<open>Lemmas\<close>

lemma parse_jkt_Inr_iff [result_simps]:
  "parse_jkt X v = Inr b \<longleftrightarrow>
     length v = SHA256_BASE64URL_BYTES \<and> CHR ''='' \<notin> set v \<and> b64_decode X v = Some b \<and>
     length b = SHA256_BYTES \<and> b64_encode X b = v"
  by (cases "b64_decode X v") (auto simp: parse_jkt_def)

text \<open>The text form of a thumbprint is what a host puts into \<open>cnf.jkt\<close>, and is read back.\<close>

lemma parse_jkt_thumbprint:
  "b64_law X \<Longrightarrow> sha256_law X \<Longrightarrow> parse_jkt X (to_base64url X (thumbprint X jwk)) = Inr (thumbprint X jwk)"
  by (simp add: parse_jkt_Inr_iff to_base64url_def thumbprint_def b64_encode_length b64_decode_encode
      sha256_length b64_encode_no_char SHA256_BASE64URL_BYTES_def SHA256_BYTES_def)

lemma host_validated_new_Inr_iff:
  "host_validated_new X t jkt src = Inr h \<longleftrightarrow>
     hv_fingerprint h = from_token_bytes X t \<and> hv_source h = src \<and>
     (case jkt of None \<Rightarrow> hv_confirmation h = None
      | Some j \<Rightarrow> (\<exists>b. parse_jkt X j = Inr b \<and> hv_confirmation h = Some b))"
  by (cases h) (auto simp: host_validated_new_def bindE_Inr_iff map_ok_Inr_iff split: option.splits)

lemma compose_sender_binding_Inr_iff:
  "compose_sender_binding X p tok val = Inr b \<longleftrightarrow>
     vp_access_token_hash_verified p \<and> from_token_bytes X tok = hv_fingerprint val \<and>
     hv_confirmation val = Some (vp_key_thumbprint p) \<and>
     b = \<lparr>sb_key_thumbprint = vp_key_thumbprint p, sb_source = hv_source val,
          sb_proof_issued_at_unix = vp_issued_at_unix p, sb_nonce_enforced = vp_nonce_enforced p,
          sb_replay_checked = vp_replay_checked p\<rparr>"
  by (cases "hv_confirmation val") (auto simp: compose_sender_binding_def)

section \<open>Properties\<close>

text \<open>C4. Sender binding is sound: when a proof verified for a presented token is composed with
  the host's validation of some token, the presented token is the validated one (barring a
  digest collision), the proof's \<open>ath\<close> is its hash, and the confirmation found by the host is
  the thumbprint of the very key that signed the proof. A token bound to another key, or without
  binding, never composes.\<close>

theorem sender_binding_sound:
  assumes "host_validated_new X token jkt source = Inr h"
    and "dpop_verify X policy clock car p request store = (Inr v, store')"
    and "req_access_token request = Some presented"
    and "compose_sender_binding X v presented h = Inr b"
    and "b64_law X" "sha256_separates X {presented, token}"
  shows "presented = token \<and> clm_ath (up_claims p) = Some (access_token_hash X token) \<and>
    jkt = Some (to_base64url X (thumbprint X (up_public_jwk p))) \<and>
    sb_key_thumbprint b = thumbprint X (up_public_jwk p) \<and> sb_source b = source \<and> sb_replay_checked b"
proof -
  have v: "clm_ath (up_claims p) = Some (access_token_hash X presented)"
    "vp_key_thumbprint v = thumbprint X (up_public_jwk p)" "vp_replay_checked v"
    using assms(2,3) by (auto simp: dpop_verify_Inr_iff verify_before_replay_Inr_iff proof_checks_def)
  have b: "from_token_bytes X presented = hv_fingerprint h" "hv_confirmation h = Some (thumbprint X (up_public_jwk p))"
    "sb_key_thumbprint b = thumbprint X (up_public_jwk p)" "sb_source b = hv_source h" "sb_replay_checked b"
    using assms(4) v by (auto simp: compose_sender_binding_Inr_iff)
  have h: "hv_fingerprint h = from_token_bytes X token" "hv_source h = source"
    "jkt = Some (to_base64url X (thumbprint X (up_public_jwk p)))"
    using assms(1) b(2) by (auto simp: host_validated_new_Inr_iff parse_jkt_Inr_iff to_base64url_def split: option.splits)
  have "presented = token"
    using b(1) h(1) sha256_separatesD [OF assms(6)] by (simp add: from_token_bytes_def)
  then show ?thesis
    using v b h by simp
qed

lemma sample_verified:
  "\<exists>p v. parse_dpop_header_values sample_X [proof_header_value sample_proof] = Inr p \<and>
     up_public_jwk p = sample_jwk \<and>
     dpop_verify sample_X policy_default (Inr 1010) (\<lambda>s k e. (Inr Fresh, s)) p sample_request () = (Inr v, ())"
proof -
  obtain p v where pv: "parse_dpop_header_values sample_X [proof_header_value sample_proof] = Inr p"
    "dpop_verify sample_X policy_default (Inr 1010) (\<lambda>s k e. (Inr Fresh, s)) p sample_request () = (Inr v, ())"
    using sample_accepted [of "\<lambda>s k e. (Inr Fresh, s)" "()" "\<lambda>_. ()"] by auto
  moreover have "up_public_jwk p = sample_jwk"
    using sample_parse pv(1) by auto
  ultimately show ?thesis by blast
qed

lemma sample_host_token:
  "\<exists>h. host_validated_new sample_X token (Some (to_base64url sample_X (thumbprint sample_X sample_jwk))) ValidatedJwt = Inr h \<and>
     hv_fingerprint h = from_token_bytes sample_X token \<and> hv_confirmation h = Some (thumbprint sample_X sample_jwk)"
  using parse_jkt_thumbprint [OF sample_b64_law sample_sha256_law, of sample_docs sample_jwk]
  by (simp add: host_validated_new_def)

lemma sample_composed:
  assumes "dpop_verify sample_X policy_default (Inr 1010) (\<lambda>s k e. (Inr Fresh, s)) p sample_request () = (Inr v, ())"
    and "up_public_jwk p = sample_jwk" "hv_fingerprint h = from_token_bytes sample_X token"
    and "hv_confirmation h = Some (thumbprint sample_X sample_jwk)"
  shows "\<exists>b. compose_sender_binding sample_X v token h = Inr b"
proof -
  have "vp_access_token_hash_verified v" "vp_key_thumbprint v = thumbprint sample_X sample_jwk"
    using assms(1,2) by (auto simp: dpop_verify_Inr_iff verify_before_replay_Inr_iff sample_request_def)
  then show ?thesis
    using assms(3,4) by (simp add: compose_sender_binding_Inr_iff)
qed

theorem sender_binding_sound_witness:
  "\<exists>p v h b. parse_dpop_header_values sample_X [proof_header_value sample_proof] = Inr p \<and>
     compose_sender_binding sample_X v [1, 2, 3] h = Inr b \<and>
     sb_key_thumbprint b = thumbprint sample_X (up_public_jwk p) \<and> sb_replay_checked b"
proof -
  obtain p v where p: "parse_dpop_header_values sample_X [proof_header_value sample_proof] = Inr p"
    "up_public_jwk p = sample_jwk"
    and v: "dpop_verify sample_X policy_default (Inr 1010) (\<lambda>s k e. (Inr Fresh, s)) p sample_request () = (Inr v, ())"
    using sample_verified by blast
  obtain h where h: "host_validated_new sample_X [1, 2, 3] (Some (to_base64url sample_X (thumbprint sample_X sample_jwk)))
      ValidatedJwt = Inr h" "hv_fingerprint h = from_token_bytes sample_X [1, 2, 3]"
    "hv_confirmation h = Some (thumbprint sample_X sample_jwk)"
    using sample_host_token by blast
  obtain b where b: "compose_sender_binding sample_X v [1, 2, 3] h = Inr b"
    using sample_composed [OF v p(2) h(2,3)] by blast
  have "req_access_token sample_request = Some [1, 2, 3]"
    by (simp add: sample_request_def)
  then show ?thesis
    using sender_binding_sound [OF h(1) v _ b sample_b64_law] p b by (auto simp: sha256_separates_def)
qed

text \<open>The composition itself does not see which token the \<open>ath\<close> check was made for: a proof
  verified for one token composes with the validation of another token that is bound to the same
  key, when the caller hands that other token to \<open>compose_sender_binding\<close>.\<close>

lemma compose_ignores_verified_token:
  "\<exists>p v h b. parse_dpop_header_values sample_X [proof_header_value sample_proof] = Inr p \<and>
     dpop_verify sample_X policy_default (Inr 1010) (\<lambda>s k e. (Inr Fresh, s)) p sample_request () = (Inr v, ()) \<and>
     req_access_token sample_request = Some [1, 2, 3] \<and>
     host_validated_new sample_X [9] (Some (to_base64url sample_X (thumbprint sample_X sample_jwk))) ValidatedJwt = Inr h \<and>
     compose_sender_binding sample_X v [9] h = Inr b"
proof -
  obtain p v where p: "parse_dpop_header_values sample_X [proof_header_value sample_proof] = Inr p"
    "up_public_jwk p = sample_jwk"
    and v: "dpop_verify sample_X policy_default (Inr 1010) (\<lambda>s k e. (Inr Fresh, s)) p sample_request () = (Inr v, ())"
    using sample_verified by blast
  obtain h where h: "host_validated_new sample_X [9] (Some (to_base64url sample_X (thumbprint sample_X sample_jwk)))
      ValidatedJwt = Inr h" "hv_fingerprint h = from_token_bytes sample_X [9]"
    "hv_confirmation h = Some (thumbprint sample_X sample_jwk)"
    using sample_host_token by blast
  have "req_access_token sample_request = Some [1, 2, 3]"
    by (simp add: sample_request_def)
  then show ?thesis
    using p v h sample_composed [OF v p(2) h(2,3)] by blast
qed

end
