(* ===== verification/OAuth_Client.thy ===== *)
theory OAuth_Client
  imports OAuth_Binding
begin

text \<open>
  The client side of \<open>keylix-oauth\<close>: bound credentials and the \<open>DpopRequiredClient\<close>
  (\<open>client.rs\<close>), and the nonce retry budget (\<open>retry.rs\<close>).

  The client holds a signer; clock readings and proof identifiers are what its ports return for
  the call. Its nonce store is any \<open>ClientNonceStore\<close>: the look-up and the two recording
  operations are arguments, and the recording ones return the new state of the store.
\<close>

section \<open>Credentials\<close>

definition MAX_CREDENTIAL_BYTES :: nat where
  "MAX_CREDENTIAL_BYTES = 16384"

record BoundAccessToken =
  at_value :: str
  at_proof_key :: JwkThumbprint

record BoundRefreshToken =
  rt_value :: str
  rt_proof_key :: JwkThumbprint

record BoundTokenSet =
  ts_access_token :: BoundAccessToken
  ts_refresh_token :: "BoundRefreshToken option"

datatype TokenEndpointDpop = TokenEndpointDpop (te_proof: DpopProof)

record ProtectedResourceAuthorization =
  pr_authorization :: str
  pr_proof :: DpopProof

definition is_b64token_byte :: "u8 \<Rightarrow> bool" where
  "is_b64token_byte b \<longleftrightarrow>
     0x41 \<le> b \<and> b \<le> 0x5A \<or> 0x61 \<le> b \<and> b \<le> 0x7A \<or> 0x30 \<le> b \<and> b \<le> 0x39 \<or>
     b \<in> {0x2D, 0x2E, 0x5F, 0x7E, 0x2B, 0x2F}"

definition validate_access_token :: "str \<Rightarrow> OAuthDpopError + unit" where
  "validate_access_token value =
     (if value = [] \<or> length value > MAX_CREDENTIAL_BYTES \<or> \<not> is_ascii value
      then Inl InvalidCredential
      else (let bs = as_bytes value;
                first_padding = (case str_find (\<lambda>b. b = 0x3D) bs of Some i \<Rightarrow> i | None \<Rightarrow> length bs);
                body = take first_padding bs;
                padding = drop first_padding bs
            in if body = [] \<or> \<not> list_all is_b64token_byte body \<or> \<not> list_all (\<lambda>b. b = 0x3D) padding
               then Inl InvalidCredential else Inr ()))"

definition validate_refresh_token :: "str \<Rightarrow> OAuthDpopError + unit" where
  "validate_refresh_token value =
     (if value = [] \<or> length value > MAX_CREDENTIAL_BYTES \<or> \<not> is_ascii value \<or>
         list_ex (\<lambda>c. \<not> (0x20 \<le> byte_of c \<and> byte_of c \<le> 0x7E)) value
      then Inl InvalidCredential else Inr ())"

section \<open>Retry budget\<close>

record NonceRetryBudget =
  budget_remaining :: u8

definition single_retry :: NonceRetryBudget where
  "single_retry = \<lparr>budget_remaining = 1\<rparr>"

definition can_retry :: "NonceRetryBudget \<Rightarrow> bool" where
  "can_retry b \<longleftrightarrow> budget_remaining b > 0"

definition budget_consume :: "NonceRetryBudget \<Rightarrow> (OAuthDpopError + unit) \<times> NonceRetryBudget" where
  "budget_consume b =
     (if budget_remaining b = 0 then (Inl NonceRetryLimitExceeded, b)
      else (Inr (), b\<lparr>budget_remaining := budget_remaining b - 1\<rparr>))"

section \<open>Client\<close>

record DpopRequiredClient =
  cl_public_jwk :: PublicP256Jwk
  cl_sign :: "bytes \<Rightarrow> DpopPortError + bytes"

type_synonym nonce_lookup = "NonceContext \<Rightarrow> DpopPortError + DpopNonce option"

definition require_namespace :: "NonceContext \<Rightarrow> NonceNamespace \<Rightarrow> OAuthDpopError + unit" where
  "require_namespace ctx expected =
     (if nc_namespace ctx \<noteq> expected then Inl NonceContextMismatch else Inr ())"

definition require_key_continuity ::
  "externs \<Rightarrow> DpopRequiredClient \<Rightarrow> JwkThumbprint \<Rightarrow> OAuthDpopError + unit" where
  "require_key_continuity X cl expected =
     (if thumbprint X (cl_public_jwk cl) \<noteq> expected then Inl ProofKeyContinuityMismatch else Inr ())"

definition optional_nonce :: "DpopNonce option \<Rightarrow> DpopRequest \<Rightarrow> DpopRequest" where
  "optional_nonce nonce request =
     (case nonce of Some n \<Rightarrow> with_nonce n request | None \<Rightarrow> request)"

definition token_request ::
  "externs \<Rightarrow> DpopRequiredClient \<Rightarrow> nonce_lookup \<Rightarrow> DpopPortError + i64 \<Rightarrow> DpopPortError + ProofId
   \<Rightarrow> NonceContext \<Rightarrow> EffectiveRequestTarget \<Rightarrow> OAuthDpopError + TokenEndpointDpop" where
  "token_request X cl lookup clock pid ctx token_endpoint =
     bindE (require_namespace ctx AuthorizationServer) (\<lambda>_.
     bindE (map_err (\<lambda>_. NonceStateUnavailable) (lookup ctx)) (\<lambda>nonce.
     bindE (map_err Dpop (dpop_request_new ''POST'' token_endpoint)) (\<lambda>request.
     bindE (map_err Dpop (dpop_build X clock pid (cl_public_jwk cl) (cl_sign cl)
              (optional_nonce nonce request))) (\<lambda>proof.
       Inr (TokenEndpointDpop proof)))))"

definition accept_token_response ::
  "externs \<Rightarrow> DpopRequiredClient \<Rightarrow> str \<Rightarrow> str \<Rightarrow> str option \<Rightarrow> OAuthDpopError + BoundTokenSet" where
  "accept_token_response X cl token_type access_token refresh_token =
     (if \<not> eq_ignore_ascii_case token_type ''DPoP'' then Inl TokenTypeNotDpop
      else
        bindE (validate_access_token access_token) (\<lambda>_.
        bindE (case refresh_token of Some v \<Rightarrow> validate_refresh_token v | None \<Rightarrow> Inr ()) (\<lambda>_.
        let proof_key = thumbprint X (cl_public_jwk cl) in
          Inr \<lparr>ts_access_token = \<lparr>at_value = access_token, at_proof_key = proof_key\<rparr>,
               ts_refresh_token =
                 map_option (\<lambda>v. \<lparr>rt_value = v, rt_proof_key = proof_key\<rparr>) refresh_token\<rparr>)))"

definition protected_resource ::
  "externs \<Rightarrow> DpopRequiredClient \<Rightarrow> nonce_lookup \<Rightarrow> DpopPortError + i64 \<Rightarrow> DpopPortError + ProofId
   \<Rightarrow> NonceContext \<Rightarrow> str \<Rightarrow> EffectiveRequestTarget \<Rightarrow> BoundAccessToken
   \<Rightarrow> OAuthDpopError + ProtectedResourceAuthorization" where
  "protected_resource X cl lookup clock pid ctx m target token =
     bindE (require_namespace ctx ResourceServer) (\<lambda>_.
     bindE (require_key_continuity X cl (at_proof_key token)) (\<lambda>_.
     bindE (map_err (\<lambda>_. NonceStateUnavailable) (lookup ctx)) (\<lambda>nonce.
     bindE (map_err Dpop (dpop_request_new m target)) (\<lambda>request.
     bindE (map_err Dpop (dpop_build X clock pid (cl_public_jwk cl) (cl_sign cl)
              (optional_nonce nonce (with_access_token (as_bytes (at_value token)) request)))) (\<lambda>proof.
       Inr \<lparr>pr_authorization = ''DPoP '' @ at_value token, pr_proof = proof\<rparr>)))))"

definition refresh_token_request ::
  "externs \<Rightarrow> DpopRequiredClient \<Rightarrow> nonce_lookup \<Rightarrow> DpopPortError + i64 \<Rightarrow> DpopPortError + ProofId
   \<Rightarrow> NonceContext \<Rightarrow> EffectiveRequestTarget \<Rightarrow> BoundRefreshToken \<Rightarrow> OAuthDpopError + TokenEndpointDpop" where
  "refresh_token_request X cl lookup clock pid ctx token_endpoint refresh_token =
     bindE (require_key_continuity X cl (rt_proof_key refresh_token)) (\<lambda>_.
       token_request X cl lookup clock pid ctx token_endpoint)"

text \<open>The budget is consumed before the store is touched; both new states are returned.\<close>

definition record_nonce_challenge ::
  "('s \<Rightarrow> NonceContext \<Rightarrow> DpopNonce \<Rightarrow> (DpopPortError + unit) \<times> 's) \<Rightarrow> NonceContext \<Rightarrow> DpopNonce
   \<Rightarrow> NonceRetryBudget \<times> 's \<Rightarrow> (OAuthDpopError + unit) \<times> NonceRetryBudget \<times> 's" where
  "record_nonce_challenge challenge ctx nonce st =
     (case budget_consume (fst st) of
        (Inl e, b) \<Rightarrow> (Inl e, b, snd st)
      | (Inr _, b) \<Rightarrow>
          (case challenge (snd st) ctx nonce of
             (r, s) \<Rightarrow> (map_err (\<lambda>_. NonceStateUnavailable) r, b, s)))"

definition record_success_nonce ::
  "('s \<Rightarrow> NonceContext \<Rightarrow> DpopNonce option \<Rightarrow> (DpopPortError + unit) \<times> 's) \<Rightarrow> NonceContext
   \<Rightarrow> DpopNonce option \<Rightarrow> 's \<Rightarrow> (OAuthDpopError + unit) \<times> 's" where
  "record_success_nonce success ctx nonce st =
     (case success st ctx nonce of (r, s) \<Rightarrow> (map_err (\<lambda>_. NonceStateUnavailable) r, s))"

section \<open>Lemmas\<close>

lemma str_find_split:
  "take (case str_find P s of Some i \<Rightarrow> i | None \<Rightarrow> length s) s = takeWhile (\<lambda>c. \<not> P c) s"
  "drop (case str_find P s of Some i \<Rightarrow> i | None \<Rightarrow> length s) s = dropWhile (\<lambda>c. \<not> P c) s"
  by (induction s) (auto split: option.splits)

lemma b64token_ascii: "is_b64token_byte b \<Longrightarrow> b < 128 \<and> b \<noteq> 0x3D"
  by (auto simp: is_b64token_byte_def byte_arith)

lemma equals_byte: "byte_of (CHR ''='') = 0x3D"
  by code_simp

lemma byte_of_equals_iff: "byte_of c = 0x3D \<longleftrightarrow> c = CHR ''=''"
  using equals_byte byte_of_inject by metis

text \<open>The two scans of \<open>validate_access_token\<close> accept exactly the \<open>token68\<close> texts.\<close>

definition token68 :: "str \<Rightarrow> bool" where
  "token68 v \<longleftrightarrow> (\<exists>body n. v = body @ replicate n (CHR ''='') \<and> body \<noteq> [] \<and>
     (\<forall>c \<in> set body. is_b64token_byte (byte_of c)))"

lemma validate_access_token_iff:
  "validate_access_token v = Inr u \<longleftrightarrow> token68 v \<and> length v \<le> MAX_CREDENTIAL_BYTES"
proof -
  let ?b = "takeWhile (\<lambda>b. \<not> b = 0x3D) (as_bytes v)"
  let ?p = "dropWhile (\<lambda>b. \<not> b = 0x3D) (as_bytes v)"
  have split: "takeWhile (\<lambda>b. \<not> b = 0x3D) (as_bytes s) = as_bytes (takeWhile (\<lambda>c. c \<noteq> CHR ''='') s)"
    "dropWhile (\<lambda>b. \<not> b = 0x3D) (as_bytes s) = as_bytes (dropWhile (\<lambda>c. c \<noteq> CHR ''='') s)" for s
    by (induction s) (auto simp: as_bytes_def byte_of_equals_iff)
  have code: "validate_access_token v = Inr u \<longleftrightarrow>
      v \<noteq> [] \<and> length v \<le> MAX_CREDENTIAL_BYTES \<and> is_ascii v \<and> ?b \<noteq> [] \<and>
      list_all is_b64token_byte ?b \<and> list_all (\<lambda>b. b = 0x3D) ?p"
    unfolding validate_access_token_def Let_def str_find_split by auto
  show ?thesis
  proof
    assume "validate_access_token v = Inr u"
    then have v: "length v \<le> MAX_CREDENTIAL_BYTES" "?b \<noteq> []" "list_all is_b64token_byte ?b" "list_all (\<lambda>b. b = 0x3D) ?p"
      unfolding code by blast+
    have "\<forall>c \<in> set (dropWhile (\<lambda>c. c \<noteq> CHR ''='') v). c = CHR ''=''"
      using v(4) unfolding split list_all_iff
      by (simp only: as_bytes_def set_map ball_simps byte_of_equals_iff)
    then have "dropWhile (\<lambda>c. c \<noteq> CHR ''='') v = replicate (length (dropWhile (\<lambda>c. c \<noteq> CHR ''='') v)) (CHR ''='')"
      by (intro replicate_eqI) blast+
    then have "v = takeWhile (\<lambda>c. c \<noteq> CHR ''='') v @ replicate (length (dropWhile (\<lambda>c. c \<noteq> CHR ''='') v)) (CHR ''='')"
      by (metis takeWhile_dropWhile_id)
    then show "token68 v \<and> length v \<le> MAX_CREDENTIAL_BYTES"
      using v unfolding split token68_def by (fastforce simp: list_all_iff as_bytes_def)
  next
    assume t: "token68 v \<and> length v \<le> MAX_CREDENTIAL_BYTES"
    then obtain body n where v: "v = body @ replicate n (CHR ''='')" "body \<noteq> []"
      and body: "\<forall>c \<in> set body. is_b64token_byte (byte_of c)"
      by (auto simp: token68_def)
    have ne: "\<forall>c \<in> set body. c \<noteq> CHR ''=''"
      using body b64token_ascii equals_byte by metis
    have "takeWhile (\<lambda>c. c \<noteq> CHR ''='') v = body" "dropWhile (\<lambda>c. c \<noteq> CHR ''='') v = replicate n (CHR ''='')"
      unfolding v(1) using ne by (auto simp: takeWhile_append dropWhile_append)
    moreover have "is_ascii v"
    proof -
      have "byte_of (CHR ''='') < 128" by code_simp
      then show ?thesis
        unfolding v(1) using body b64token_ascii by (auto simp: is_ascii_def list_all_iff)
    qed
    ultimately show "validate_access_token v = Inr u"
      unfolding code split using t v body equals_byte by (auto simp: list_all_iff as_bytes_def)
  qed
qed

lemma protected_resource_Inr_iff:
  "protected_resource X cl lookup clock pid ctx m target token = Inr r \<longleftrightarrow>
     nc_namespace ctx = ResourceServer \<and> thumbprint X (cl_public_jwk cl) = at_proof_key token \<and>
     (\<exists>nonce proof. lookup ctx = Inr nonce \<and> validate_method m = Inr () \<and>
        dpop_build X clock pid (cl_public_jwk cl) (cl_sign cl)
          \<lparr>req_method = m, req_target = target, req_access_token = Some (as_bytes (at_value token)),
           req_nonce = nonce\<rparr> = Inr proof \<and>
        r = \<lparr>pr_authorization = ''DPoP '' @ at_value token, pr_proof = proof\<rparr>)"
  by (auto simp: protected_resource_def require_namespace_def require_key_continuity_def dpop_request_new_def
      with_access_token_def with_nonce_def optional_nonce_def result_simps split: option.splits if_splits)

lemma accept_token_response_Inr_iff:
  "accept_token_response X cl ty a r = Inr ts \<longleftrightarrow>
     eq_ignore_ascii_case ty ''DPoP'' \<and> validate_access_token a = Inr () \<and>
     (case r of None \<Rightarrow> True | Some v \<Rightarrow> validate_refresh_token v = Inr ()) \<and>
     ts = \<lparr>ts_access_token = \<lparr>at_value = a, at_proof_key = thumbprint X (cl_public_jwk cl)\<rparr>,
           ts_refresh_token = map_option (\<lambda>v. \<lparr>rt_value = v, rt_proof_key = thumbprint X (cl_public_jwk cl)\<rparr>) r\<rparr>"
  by (auto simp: accept_token_response_def result_simps Let_def split: option.splits)

lemma refresh_token_request_key:
  "refresh_token_request X cl lookup clock pid ctx e t = Inr r \<Longrightarrow> thumbprint X (cl_public_jwk cl) = rt_proof_key t"
  by (auto simp: refresh_token_request_def require_key_continuity_def result_simps)

section \<open>Properties\<close>

text \<open>Access tokens are accepted exactly when they fit the HTTP \<open>token68\<close> grammar within
  16384 bytes: at least one token character, then only padding. Nothing else can end up in the
  \<open>Authorization\<close> header.\<close>

lemma access_token_grammar:
  "is_ok (validate_access_token v) \<longleftrightarrow>
     length v \<le> 16384 \<and>
     (\<exists>body n. v = body @ replicate n (CHR ''='') \<and> body \<noteq> [] \<and>
        list_all (\<lambda>c. is_b64token_byte (byte_of c)) body)"
  by (auto simp: is_ok_iff validate_access_token_iff token68_def MAX_CREDENTIAL_BYTES_def list_all_iff)

text \<open>C23. Key continuity: credentials of a token response accepted by one client are used by
  another client, for a protected resource or for a refresh, only if both sign with the same key
  (barring a digest collision on the two keys' canonical texts); and the emitted authorization is
  always the \<open>DPoP\<close> scheme with the accepted token.\<close>

theorem bound_credentials_keep_key:
  assumes "accept_token_response X cl ty access refresh = Inr ts"
    and "protected_resource X cl' lookup clock pid ctx m target (ts_access_token ts) = Inr r \<or>
      (\<exists>rt e r'. ts_refresh_token ts = Some rt \<and> refresh_token_request X cl' lookup clock pid ctx e rt = Inr r')"
    and "b64_law X" "wf_jwk X (cl_public_jwk cl)" "wf_jwk X (cl_public_jwk cl')"
    and "sha256_separates X {as_bytes (canonical_thumbprint_input X (cl_public_jwk cl)),
      as_bytes (canonical_thumbprint_input X (cl_public_jwk cl'))}"
  shows "cl_public_jwk cl' = cl_public_jwk cl \<and>
    (protected_resource X cl' lookup clock pid ctx m target (ts_access_token ts) = Inr r \<longrightarrow>
       pr_authorization r = ''DPoP '' @ access)"
proof -
  have "thumbprint X (cl_public_jwk cl') = thumbprint X (cl_public_jwk cl)"
    using assms(1,2)
    by (auto simp: accept_token_response_Inr_iff protected_resource_Inr_iff dest: refresh_token_request_key)
  then have "sha256 X (as_bytes (canonical_thumbprint_input X (cl_public_jwk cl))) =
      sha256 X (as_bytes (canonical_thumbprint_input X (cl_public_jwk cl')))"
    by (simp add: thumbprint_def)
  then have "canonical_thumbprint_input X (cl_public_jwk cl) = canonical_thumbprint_input X (cl_public_jwk cl')"
    by (simp only: sha256_separatesD [OF assms(6)] insert_iff simp_thms as_bytes_inject)
  then have "cl_public_jwk cl' = cl_public_jwk cl"
    by (rule canonical_thumbprint_input_inj [OF assms(3-5), symmetric])
  then show ?thesis
    using assms(1) by (auto simp: accept_token_response_Inr_iff protected_resource_Inr_iff)
qed

definition sample_client :: DpopRequiredClient where
  "sample_client = \<lparr>cl_public_jwk = sample_jwk, cl_sign = (\<lambda>_. Inr (replicate 64 7))\<rparr>"

definition other_client :: DpopRequiredClient where
  "other_client = \<lparr>cl_public_jwk = other_jwk, cl_sign = (\<lambda>_. Inr (replicate 64 7))\<rparr>"

lemma sample_token_response:
  "\<exists>ts. accept_token_response (sample_externs docs) sample_client ''dpop'' ''abc='' (Some ''r'') = Inr ts"
proof -
  have "eq_ignore_ascii_case ''dpop'' ''DPoP''" "validate_access_token ''abc='' = Inr ()"
    "validate_refresh_token ''r'' = Inr ()"
    by code_simp+
  then show ?thesis
    by (simp add: accept_token_response_def Let_def)
qed

theorem bound_credentials_keep_key_witness:
  "\<exists>ts rt. accept_token_response (sample_externs []) sample_client ''dpop'' ''abc='' (Some ''r'') = Inr ts \<and>
     ts_refresh_token ts = Some rt \<and>
     \<not> is_ok (refresh_token_request (sample_externs []) other_client (\<lambda>_. Inr None) (Inr 1) (Inr (ProofId ''i''))
       \<lparr>nc_namespace = AuthorizationServer, nc_server_id = ''as''\<rparr> (EffectiveRequestTarget ''http://a/'') rt)"
proof -
  obtain ts where ts: "accept_token_response (sample_externs []) sample_client ''dpop'' ''abc='' (Some ''r'') = Inr ts"
    using sample_token_response by blast
  then obtain rt where rt: "ts_refresh_token ts = Some rt"
    by (auto simp: accept_token_response_Inr_iff)
  have keys: "wf_jwk (sample_externs []) (cl_public_jwk sample_client)"
    "wf_jwk (sample_externs []) (cl_public_jwk other_client)" "cl_public_jwk other_client \<noteq> cl_public_jwk sample_client"
    using sample_jwk_wf by (simp_all add: sample_client_def other_client_def) (simp add: sample_jwk_def other_jwk_def)
  have sep: "sha256_separates (sample_externs [])
      {as_bytes (canonical_thumbprint_input (sample_externs []) (cl_public_jwk sample_client)),
       as_bytes (canonical_thumbprint_input (sample_externs []) (cl_public_jwk other_client))}"
    using last32_differ by (simp add: sample_client_def other_client_def)
  show ?thesis
    using bound_credentials_keep_key [OF ts _ sample_b64_law keys(1,2) sep] keys(3) ts rt
    unfolding is_ok_iff by blast
qed

text \<open>One logical operation retries on a nonce challenge at most once: with the single-retry
  budget, any sequence of challenge recordings succeeds at most once, and every call after the
  first is refused without touching the nonce store.\<close>

lemma nonce_retry_at_most_once:
  "run_ops (\<lambda>st c. record_nonce_challenge challenge (fst c) (snd c) st) (single_retry, s) ((ctx, nonce) # cs) =
     (fst (record_nonce_challenge challenge ctx nonce (single_retry, s)) #
        replicate (length cs) (Inl NonceRetryLimitExceeded),
      \<lparr>budget_remaining = 0\<rparr>, snd (challenge s ctx nonce))"
proof -
  have spent: "run_ops (\<lambda>st c. record_nonce_challenge challenge (fst c) (snd c) st) (\<lparr>budget_remaining = 0\<rparr>, t) cs =
      (replicate (length cs) (Inl NonceRetryLimitExceeded), \<lparr>budget_remaining = 0\<rparr>, t)" for t
    by (induction cs) (simp_all add: record_nonce_challenge_def budget_consume_def)
  have "record_nonce_challenge challenge ctx nonce (single_retry, s) =
      (fst (record_nonce_challenge challenge ctx nonce (single_retry, s)), \<lparr>budget_remaining = 0\<rparr>,
       snd (challenge s ctx nonce))"
    by (simp add: record_nonce_challenge_def budget_consume_def single_retry_def split: prod.splits)
  then show ?thesis
    using spent by (metis (no_types, lifting) fst_conv run_ops.simps(2) snd_conv case_prod_conv)
qed

end
