(* ===== verification/Dpop_Adapter.thy ===== *)
theory Dpop_Adapter
  imports Dpop_State
begin

text \<open>
  The contract of a component that stands in front of \<open>DpopVerifier\<close>: the MCP server adapter and
  the verifier application take a request of their own, read one proof from it and either refuse
  it without touching the replay store or run one verification. Whatever else they do, the
  replay guarantee of the verifier carries over to them.
\<close>

text \<open>The replay record an accepted use of a proof leaves, as a function of the proof alone.\<close>

definition proof_replay_record ::
  "externs \<Rightarrow> VerificationPolicy \<Rightarrow> UnverifiedDpopProof \<Rightarrow> (ReplayKey \<times> i64) option" where
  "proof_replay_record X policy p =
     (case target_parse (clm_htu (up_claims p)) of
        Inl _ \<Rightarrow> None
      | Inr u \<Rightarrow>
          (case derive_replay_key X (thumbprint X (up_public_jwk p)) (clm_htm (up_claims p)) u
                  (clm_jti (up_claims p)) of
             Inl _ \<Rightarrow> None
           | Inr key \<Rightarrow> Some (key, clm_iat (up_claims p) + max_proof_age_seconds policy)))"

lemma accepted_call_record:
  assumes "is_ok r" "dpop_verify X policy (vc_clock c) car (vc_proof c) (vc_request c) s = (r, s')"
  shows "accepted_call X policy c r = proof_replay_record X policy (vc_proof c) \<and>
    proof_replay_record X policy (vc_proof c) \<noteq> None"
  using accepted_call_key [OF assms] by (auto simp: proof_replay_record_def)

text \<open>\<open>step\<close> is the handler of the component, \<open>store\<close> the replay store inside its state, \<open>time\<close> the
  reading of the store's clock during the call, \<open>presented\<close> the proof a request carries and
  \<open>passed\<close> the results that let a request through.\<close>

locale dpop_adapter = verifying_server +
  fixes step :: "'t \<Rightarrow> 'o \<Rightarrow> 'r \<times> 't"
    and store :: "'t \<Rightarrow> 'a"
    and time :: "'o \<Rightarrow> int"
    and presented :: "'o \<Rightarrow> UnverifiedDpopProof option"
    and passed :: "'r \<Rightarrow> bool"
  assumes step_verifies: "step t op = (r, t') \<Longrightarrow>
    store t' = store t \<and> \<not> passed r \<or>
    (\<exists>(c :: verify_call) q. vc_time c = time op \<and> presented op = Some (vc_proof c) \<and>
       dpop_verify X policy (vc_clock c) (check (vc_time c)) (vc_proof c) (vc_request c) (store t) = (q, store t') \<and>
       (passed r \<longrightarrow> is_ok q))"
begin

definition passed_record :: "'o \<Rightarrow> 'r \<Rightarrow> (ReplayKey \<times> int) option" where
  "passed_record op r =
     (if passed r then Option.bind (presented op) (proof_replay_record X policy) else None)"

lemma step_cases:
  assumes "step t op = (r, t')"
  obtains (refused) "store t' = store t" "\<not> passed r" "passed_record op r = None"
  | (verified) c q where "vc_time c = time op"
      "dpop_verify X policy (vc_clock c) (check (vc_time c)) (vc_proof c) (vc_request c) (store t) = (q, store t')"
      "passed_record op r = (if passed r then accepted_call X policy c q else None)"
      "passed r \<longrightarrow> accepted_call X policy c q \<noteq> None"
proof (cases "store t' = store t \<and> \<not> passed r")
  case True
  then show ?thesis by (intro refused) (simp_all add: passed_record_def)
next
  case False
  then obtain c :: verify_call and q where c: "vc_time c = time op" "presented op = Some (vc_proof c)"
    "dpop_verify X policy (vc_clock c) (check (vc_time c)) (vc_proof c) (vc_request c) (store t) = (q, store t')"
    "passed r \<longrightarrow> is_ok q"
    using step_verifies [OF assms] by blast
  show ?thesis
    using c(2,4) accepted_call_record [OF _ c(3)]
    by (intro verified [OF c(1,3)]) (auto simp: passed_record_def)
qed

lemma passed_recorded:
  assumes "step t op = (r, t')" "passed r"
  shows "passed_record op r \<noteq> None"
  using assms(1) by (cases rule: step_cases) (use assms(2) in simp_all)

end

sublocale dpop_adapter \<subseteq> requests: one_shot step "\<lambda>t. inv (store t)" "\<lambda>t. recorded (store t)" time passed_record
proof (unfold_locales, goal_cases)
  case (1 s op r s')
  from 1(2) show ?case
  proof (cases rule: step_cases)
    case (verified c q)
    then show ?thesis using server.inv_step [OF 1(1) verified(2)] by simp
  qed (use 1 in simp)
next
  case (2 s op r s' k e)
  from 2(2) show ?case
  proof (cases rule: step_cases)
    case (verified c q)
    then show ?thesis using server.accept_records [OF 2(1) verified(2), of k e] 2(3) by (auto split: if_splits)
  qed (use 2 in simp)
next
  case (3 s op r s' k e e')
  from 3(2) show ?case
  proof (cases rule: step_cases)
    case (verified c q)
    then show ?thesis using server.accept_unrecorded [OF 3(1) verified(2), of k e e'] 3(3,4) by (auto split: if_splits)
  qed (use 3 in simp)
next
  case (4 s op r s' k e)
  from 4(2) show ?case
  proof (cases rule: step_cases)
    case (verified c q)
    then show ?thesis using server.keeps_active [OF 4(1) verified(2) 4(3)] 4(4) by simp
  qed (use 4 in simp)
qed

context dpop_adapter
begin

text \<open>Along any sequence of requests with clock readings that never go back, one proof gets at
  most one request through.\<close>

lemma passed_once:
  assumes "inv (store t)" "run_ops step t ops = (rs, t')" "sorted (map time ops)"
    and "i < length ops" "j < length ops" "passed (rs ! i)" "passed (rs ! j)"
    and "presented (ops ! i) = presented (ops ! j)"
  shows "i = j"
proof -
  have recorded: "passed_record (ops ! m) (rs ! m) \<noteq> None" if "m < length ops" "passed (rs ! m)" for m
    by (rule run_ops_nth [OF assms(2) that(1)]) (rule passed_recorded [OF _ that(2)])
  then obtain k e where "passed_record (ops ! i) (rs ! i) = Some (k, e)"
    using assms(4,6) by fastforce
  moreover from this have "passed_record (ops ! j) (rs ! j) = Some (k, e)"
    using assms(6-8) by (simp add: passed_record_def)
  ultimately show ?thesis
    using requests.accepted_once [OF assms(1-5)] by blast
qed

end

end
