(* ===== verification/Mcp.thy ===== *)
theory Mcp
  imports OAuth_Client Dpop_Adapter
begin

text \<open>
  The MCP adapters (\<open>keylix-mcp\<close>): the client decorator and the wrapper of an \<open>rmcp\<close>
  streamable-HTTP client (\<open>lib.rs\<close>), and the server-side verifier (\<open>server.rs\<close>).

  The \<open>http\<close> crate's \<open>HeaderValue::from_str\<close> is the argument \<open>header_value\<close>; header names are
  strings, header maps are hash maps. The wrapped \<open>rmcp\<close> client is an argument as well: one
  function from the authorization value and the headers of the attempt to its result.
\<close>

section \<open>Profile\<close>

definition SEP_1932_DRAFT_PROFILE :: str where
  "SEP_1932_DRAFT_PROFILE = ''sep-1932-draft''"

definition RMCP_ADAPTER_VERSION :: str where
  "RMCP_ADAPTER_VERSION = ''3.0.1''"

definition MCP_SPEC_VERSION :: str where
  "MCP_SPEC_VERSION = ''2026-07-28''"

datatype ProfileStatus = Draft

record McpDpopProfileMetadata =
  pm_profile :: str
  pm_sep :: str
  pm_status :: ProfileStatus
  pm_rmcp_version :: str
  pm_mcp_spec_version :: str

definition profile_metadata :: McpDpopProfileMetadata where
  "profile_metadata =
     \<lparr>pm_profile = SEP_1932_DRAFT_PROFILE, pm_sep = ''SEP-1932'', pm_status = Draft,
      pm_rmcp_version = RMCP_ADAPTER_VERSION, pm_mcp_spec_version = MCP_SPEC_VERSION\<rparr>"

datatype McpDpopError =
    UnsupportedProfile
  | OAuth OAuthDpopError
  | ExistingAuthorization
  | ExistingDpopHeader
  | InvalidHeaderValue

definition require_profile :: "str \<Rightarrow> McpDpopError + McpDpopProfileMetadata" where
  "require_profile profile =
     (if profile = SEP_1932_DRAFT_PROFILE then Inr profile_metadata else Inl UnsupportedProfile)"

section \<open>Client\<close>

record McpDpopClient =
  mc_client :: DpopRequiredClient
  mc_authorization_server :: NonceContext
  mc_resource_server :: NonceContext

definition mcp_client_new ::
  "DpopRequiredClient \<Rightarrow> str \<Rightarrow> str \<Rightarrow> McpDpopError + McpDpopClient" where
  "mcp_client_new cl as_id rs_id =
     bindE (map_err (\<lambda>e. OAuth (Dpop e)) (nonce_context_new AuthorizationServer as_id)) (\<lambda>a.
     bindE (map_err (\<lambda>e. OAuth (Dpop e)) (nonce_context_new ResourceServer rs_id)) (\<lambda>r.
       Inr \<lparr>mc_client = cl, mc_authorization_server = a, mc_resource_server = r\<rparr>))"

definition token_endpoint_attempt ::
  "externs \<Rightarrow> McpDpopClient \<Rightarrow> nonce_lookup \<Rightarrow> DpopPortError + i64 \<Rightarrow> DpopPortError + ProofId
   \<Rightarrow> EffectiveRequestTarget \<Rightarrow> McpDpopError + TokenEndpointDpop" where
  "token_endpoint_attempt X mc lookup clock pid token_endpoint =
     map_err OAuth (token_request X (mc_client mc) lookup clock pid (mc_authorization_server mc)
       token_endpoint)"

record McpHttpAuthorization =
  ma_authorization :: str
  ma_proof :: str

definition resource_attempt ::
  "externs \<Rightarrow> McpDpopClient \<Rightarrow> nonce_lookup \<Rightarrow> DpopPortError + i64 \<Rightarrow> DpopPortError + ProofId
   \<Rightarrow> str \<Rightarrow> EffectiveRequestTarget \<Rightarrow> BoundAccessToken \<Rightarrow> McpDpopError + McpHttpAuthorization" where
  "resource_attempt X mc lookup clock pid m target access_token =
     bindE (map_err OAuth (protected_resource X (mc_client mc) lookup clock pid (mc_resource_server mc)
              m target access_token)) (\<lambda>a.
       Inr \<lparr>ma_authorization = pr_authorization a, ma_proof = proof_header_value (pr_proof a)\<rparr>)"

definition record_authorization_server_nonce_challenge ::
  "('s \<Rightarrow> NonceContext \<Rightarrow> DpopNonce \<Rightarrow> (DpopPortError + unit) \<times> 's) \<Rightarrow> McpDpopClient \<Rightarrow> DpopNonce
   \<Rightarrow> NonceRetryBudget \<times> 's \<Rightarrow> (McpDpopError + unit) \<times> NonceRetryBudget \<times> 's" where
  "record_authorization_server_nonce_challenge challenge mc nonce st =
     apfst (map_err OAuth) (record_nonce_challenge challenge (mc_authorization_server mc) nonce st)"

definition record_resource_server_nonce_challenge ::
  "('s \<Rightarrow> NonceContext \<Rightarrow> DpopNonce \<Rightarrow> (DpopPortError + unit) \<times> 's) \<Rightarrow> McpDpopClient \<Rightarrow> DpopNonce
   \<Rightarrow> NonceRetryBudget \<times> 's \<Rightarrow> (McpDpopError + unit) \<times> NonceRetryBudget \<times> 's" where
  "record_resource_server_nonce_challenge challenge mc nonce st =
     apfst (map_err OAuth) (record_nonce_challenge challenge (mc_resource_server mc) nonce st)"

definition record_authorization_server_success_nonce ::
  "('s \<Rightarrow> NonceContext \<Rightarrow> DpopNonce option \<Rightarrow> (DpopPortError + unit) \<times> 's) \<Rightarrow> McpDpopClient
   \<Rightarrow> DpopNonce option \<Rightarrow> 's \<Rightarrow> (McpDpopError + unit) \<times> 's" where
  "record_authorization_server_success_nonce success mc nonce st =
     apfst (map_err OAuth) (record_success_nonce success (mc_authorization_server mc) nonce st)"

definition record_resource_server_success_nonce ::
  "('s \<Rightarrow> NonceContext \<Rightarrow> DpopNonce option \<Rightarrow> (DpopPortError + unit) \<times> 's) \<Rightarrow> McpDpopClient
   \<Rightarrow> DpopNonce option \<Rightarrow> 's \<Rightarrow> (McpDpopError + unit) \<times> 's" where
  "record_resource_server_success_nonce success mc nonce st =
     apfst (map_err OAuth) (record_success_nonce success (mc_resource_server mc) nonce st)"

section \<open>Streamable HTTP wrapper\<close>

type_synonym 'h header_map = "(str, 'h) hashmap"

definition DPOP_HEADER :: str where
  "DPOP_HEADER = ''dpop''"

definition AUTHORIZATION_HEADER :: str where
  "AUTHORIZATION_HEADER = ''authorization''"

definition into_rmcp_parts ::
  "(str \<Rightarrow> 'h option) \<Rightarrow> McpHttpAuthorization \<Rightarrow> 'h header_map
   \<Rightarrow> McpDpopError + (str option \<times> 'h header_map)" where
  "into_rmcp_parts header_value a custom_headers =
     bindE (ok_or InvalidHeaderValue (header_value (ma_proof a))) (\<lambda>proof.
       Inr (Some (ma_authorization a), hm_insert DPOP_HEADER proof custom_headers))"

record DpopStreamableHttpClient =
  sc_dpop :: McpDpopClient
  sc_access_token :: BoundAccessToken

definition decorate ::
  "externs \<Rightarrow> (str \<Rightarrow> 'h option) \<Rightarrow> DpopStreamableHttpClient \<Rightarrow> nonce_lookup \<Rightarrow> DpopPortError + i64
   \<Rightarrow> DpopPortError + ProofId \<Rightarrow> str \<Rightarrow> str \<Rightarrow> bool \<Rightarrow> 'h header_map
   \<Rightarrow> McpDpopError + (str option \<times> 'h header_map)" where
  "decorate X header_value sc lookup clock pid m uri auth_header_present custom_headers =
     (if auth_header_present \<or> hm_contains custom_headers AUTHORIZATION_HEADER
      then Inl ExistingAuthorization
      else if hm_contains custom_headers DPOP_HEADER then Inl ExistingDpopHeader
      else bindE (map_err (\<lambda>e. OAuth (Dpop e)) (target_parse uri)) (\<lambda>target.
           bindE (resource_attempt X (sc_dpop sc) lookup clock pid m target (sc_access_token sc)) (\<lambda>a.
             into_rmcp_parts header_value a custom_headers)))"

datatype 'e DpopStreamableHttpClientError = Keylix McpDpopError | Inner 'e

definition inner_error :: "'e \<Rightarrow> 'e DpopStreamableHttpClientError" where
  "inner_error e = Inner e"

text \<open>The common shape of the five operations: decorate the attempt, then hand it to the wrapped
  client. Both errors travel inside \<open>rmcp\<close>'s \<open>StreamableHttpError::Client\<close>, left out here.\<close>

definition decorated_call ::
  "externs \<Rightarrow> (str \<Rightarrow> 'h option) \<Rightarrow> DpopStreamableHttpClient \<Rightarrow> nonce_lookup \<Rightarrow> DpopPortError + i64
   \<Rightarrow> DpopPortError + ProofId \<Rightarrow> str \<Rightarrow> str \<Rightarrow> str option \<Rightarrow> 'h header_map
   \<Rightarrow> (str option \<Rightarrow> 'h header_map \<Rightarrow> 'e + 'a) \<Rightarrow> 'e DpopStreamableHttpClientError + 'a" where
  "decorated_call X header_value sc lookup clock pid m uri auth_header custom_headers send =
     bindE (map_err Keylix (decorate X header_value sc lookup clock pid m uri (auth_header \<noteq> None)
              custom_headers)) (\<lambda>(auth_header, custom_headers).
       map_err inner_error (send auth_header custom_headers))"

definition post_message where
  "post_message X header_value sc lookup clock pid inner uri message session_id auth_header custom_headers =
     decorated_call X header_value sc lookup clock pid ''POST'' uri auth_header custom_headers
       (\<lambda>auth_header custom_headers. inner uri message session_id auth_header custom_headers)"

definition post_message_with_max_sse_event_size where
  "post_message_with_max_sse_event_size X header_value sc lookup clock pid inner uri message session_id
     auth_header custom_headers max_sse_event_size =
     decorated_call X header_value sc lookup clock pid ''POST'' uri auth_header custom_headers
       (\<lambda>auth_header custom_headers.
          inner uri message session_id auth_header custom_headers max_sse_event_size)"

definition delete_session where
  "delete_session X header_value sc lookup clock pid inner uri session_id auth_header custom_headers =
     decorated_call X header_value sc lookup clock pid ''DELETE'' uri auth_header custom_headers
       (\<lambda>auth_header custom_headers. inner uri session_id auth_header custom_headers)"

definition get_stream where
  "get_stream X header_value sc lookup clock pid inner uri session_id last_event_id auth_header custom_headers =
     decorated_call X header_value sc lookup clock pid ''GET'' uri auth_header custom_headers
       (\<lambda>auth_header custom_headers. inner uri session_id last_event_id auth_header custom_headers)"

definition get_stream_with_max_sse_event_size where
  "get_stream_with_max_sse_event_size X header_value sc lookup clock pid inner uri session_id last_event_id
     auth_header custom_headers max_sse_event_size =
     decorated_call X header_value sc lookup clock pid ''GET'' uri auth_header custom_headers
       (\<lambda>auth_header custom_headers.
          inner uri session_id last_event_id auth_header custom_headers max_sse_event_size)"

section \<open>Server\<close>

record McpHttpRequest =
  mr_method :: str
  mr_target :: EffectiveRequestTarget
  mr_access_token :: bytes
  mr_dpop_header_values :: "str list"
  mr_nonce :: "DpopNonce option"

datatype McpDpopServerError = Proof DpopError | SenderBinding OAuthDpopError

definition mcp_verify ::
  "externs \<Rightarrow> VerificationPolicy \<Rightarrow> DpopPortError + i64 \<Rightarrow> 'r replay_op \<Rightarrow> McpHttpRequest
   \<Rightarrow> HostValidatedToken \<Rightarrow> 'r \<Rightarrow> (McpDpopServerError + VerifiedSenderBinding) \<times> 'r" where
  "mcp_verify X policy clock check_and_record request validated_token store =
     (case parse_dpop_header_values X (mr_dpop_header_values request) of
        Inl e \<Rightarrow> (Inl (Proof e), store)
      | Inr proof \<Rightarrow>
          (case dpop_request_new (mr_method request) (mr_target request) of
             Inl e \<Rightarrow> (Inl (Proof e), store)
           | Inr r \<Rightarrow>
               (case dpop_verify X policy clock check_and_record proof
                       (optional_nonce (mr_nonce request) (with_access_token (mr_access_token request) r)) store of
                  (Inl e, store') \<Rightarrow> (Inl (Proof e), store')
                | (Inr verified, store') \<Rightarrow>
                    (map_err SenderBinding (compose_sender_binding X verified (mr_access_token request)
                       validated_token), store'))))"

section \<open>Lemmas\<close>

definition mcp_dpop_request :: "McpHttpRequest \<Rightarrow> DpopRequest" where
  "mcp_dpop_request request =
     \<lparr>req_method = mr_method request, req_target = mr_target request,
      req_access_token = Some (mr_access_token request), req_nonce = mr_nonce request\<rparr>"

lemma mcp_dpop_request_eq:
  "optional_nonce (mr_nonce request) (with_access_token (mr_access_token request)
     \<lparr>req_method = mr_method request, req_target = mr_target request, req_access_token = None, req_nonce = None\<rparr>) =
     mcp_dpop_request request"
  by (cases "mr_nonce request")
    (simp_all add: optional_nonce_def with_access_token_def with_nonce_def mcp_dpop_request_def)

lemma mcp_verify_Inr_iff:
  "mcp_verify X policy clock car request h store = (Inr b, store') \<longleftrightarrow>
     (\<exists>p v. parse_dpop_header_values X (mr_dpop_header_values request) = Inr p \<and>
        validate_method (mr_method request) = Inr () \<and>
        dpop_verify X policy clock car p (mcp_dpop_request request) store = (Inr v, store') \<and>
        compose_sender_binding X v (mr_access_token request) h = Inr b)"
  by (cases "validate_method (mr_method request)")
    (auto simp: mcp_verify_def dpop_request_new_def mcp_dpop_request_eq map_err_Inr_iff
      split: sum.splits prod.splits)

lemma resource_attempt_Inr_iff:
  "resource_attempt X mc lookup clock pid m target tok = Inr a \<longleftrightarrow>
     (\<exists>r. protected_resource X (mc_client mc) lookup clock pid (mc_resource_server mc) m target tok = Inr r \<and>
        a = \<lparr>ma_authorization = pr_authorization r, ma_proof = proof_header_value (pr_proof r)\<rparr>)"
  by (auto simp: resource_attempt_def result_simps)

lemma decorate_Inr_iff:
  "decorate X hv sc lookup clock pid m uri present headers = Inr (auth, headers') \<longleftrightarrow>
     \<not> present \<and> hm_get headers AUTHORIZATION_HEADER = None \<and> hm_get headers DPOP_HEADER = None \<and>
     (\<exists>target nonce proof v.
        target_parse uri = Inr target \<and>
        nc_namespace (mc_resource_server (sc_dpop sc)) = ResourceServer \<and>
        thumbprint X (cl_public_jwk (mc_client (sc_dpop sc))) = at_proof_key (sc_access_token sc) \<and>
        lookup (mc_resource_server (sc_dpop sc)) = Inr nonce \<and> validate_method m = Inr () \<and>
        dpop_build X clock pid (cl_public_jwk (mc_client (sc_dpop sc))) (cl_sign (mc_client (sc_dpop sc)))
          \<lparr>req_method = m, req_target = target,
           req_access_token = Some (as_bytes (at_value (sc_access_token sc))), req_nonce = nonce\<rparr> = Inr proof \<and>
        hv (proof_header_value proof) = Some v \<and>
        auth = Some (''DPoP '' @ at_value (sc_access_token sc)) \<and>
        headers' = hm_insert DPOP_HEADER v headers)"
  unfolding decorate_def into_rmcp_parts_def
  by (auto simp: hm_contains_def result_simps resource_attempt_Inr_iff protected_resource_Inr_iff)

text \<open>What reaches the verifier from a request, and the replay guarantee it inherits.\<close>

lemma mcp_verify_store:
  assumes "mcp_verify X policy clock car request h s = (r, s')"
  shows "s' = s \<and> \<not> is_ok r \<or>
    (\<exists>p q. parse_dpop_header_values X (mr_dpop_header_values request) = Inr p \<and>
       dpop_verify X policy clock car p (mcp_dpop_request request) s = (q, s') \<and> (is_ok r \<longrightarrow> is_ok q))"
  using assms by (cases "validate_method (mr_method request)")
    (auto simp: mcp_verify_def dpop_request_new_def mcp_dpop_request_eq is_ok_iff split: sum.splits prod.splits)

record mcp_call =
  mcl_clock :: "DpopPortError + i64"
  mcl_time :: i64
  mcl_request :: McpHttpRequest
  mcl_token :: HostValidatedToken

definition mcp_step ::
  "externs \<Rightarrow> VerificationPolicy \<Rightarrow> InMemoryReplayStore \<Rightarrow> mcp_call
   \<Rightarrow> (McpDpopServerError + VerifiedSenderBinding) \<times> InMemoryReplayStore" where
  "mcp_step X policy s c =
     mcp_verify X policy (mcl_clock c) (replay_check_and_record (Inr (mcl_time c))) (mcl_request c) (mcl_token c) s"

definition mcp_presented :: "externs \<Rightarrow> mcp_call \<Rightarrow> UnverifiedDpopProof option" where
  "mcp_presented X c =
     (case parse_dpop_header_values X (mr_dpop_header_values (mcl_request c)) of Inl _ \<Rightarrow> None | Inr p \<Rightarrow> Some p)"

interpretation mcp_server: dpop_adapter memory_check wf_replay_store memory_recorded X policy
  "mcp_step X policy" "\<lambda>s. s" mcl_time "mcp_presented X" is_ok for X policy
proof (unfold_locales, goal_cases)
  case (1 t op r t')
  then show ?case
    using mcp_verify_store [OF 1 [unfolded mcp_step_def]]
    by (elim disjE exE conjE; intro disjI1 disjI2)
      (auto simp: mcp_presented_def intro!: exI [of _ "\<lparr>vc_clock = mcl_clock op, vc_time = mcl_time op, vc_proof = _,
        vc_request = mcp_dpop_request (mcl_request op)\<rparr>"])
qed

section \<open>Properties\<close>

text \<open>C22. An attempt that reaches the wrapped HTTP client carries exactly one fresh credential: the
  host supplied neither an authorization nor a DPoP header of its own, the authorization is the
  \<open>DPoP\<close> scheme with the client's token, the \<open>dpop\<close> header is a proof built for the method, the
  parsed URI, that token and the current resource-server nonce, and all other headers are as
  the host gave them. A decoration that fails never reaches the wrapped client.\<close>

theorem decorated_attempt_carries_proof:
  assumes "decorated_call X hv sc lookup clock pid m uri auth headers send = r" "\<forall>e. r \<noteq> Inl (Keylix e)"
  shows "\<exists>headers' target nonce proof v.
    r = map_err Inner (send (Some (''DPoP '' @ at_value (sc_access_token sc))) headers') \<and>
    auth = None \<and> hm_get headers ''authorization'' = None \<and> hm_get headers ''dpop'' = None \<and>
    target_parse uri = Inr target \<and> lookup (mc_resource_server (sc_dpop sc)) = Inr nonce \<and>
    dpop_build X clock pid (cl_public_jwk (mc_client (sc_dpop sc))) (cl_sign (mc_client (sc_dpop sc)))
      \<lparr>req_method = m, req_target = target,
       req_access_token = Some (as_bytes (at_value (sc_access_token sc))), req_nonce = nonce\<rparr> = Inr proof \<and>
    hv (proof_header_value proof) = Some v \<and>
    (\<forall>name. hm_get headers' name = (if name = ''dpop'' then Some v else hm_get headers name))"
proof -
  obtain auth' headers' where d: "decorate X hv sc lookup clock pid m uri (auth \<noteq> None) headers = Inr (auth', headers')"
    and r: "r = map_err Inner (send auth' headers')"
    using assms by (auto simp: decorated_call_def inner_error_def bindE_def map_err_def split: sum.splits prod.splits)
  obtain target nonce pf v where "hm_get headers ''authorization'' = None" "hm_get headers ''dpop'' = None"
    "auth = None" "target_parse uri = Inr target" "lookup (mc_resource_server (sc_dpop sc)) = Inr nonce"
    "dpop_build X clock pid (cl_public_jwk (mc_client (sc_dpop sc))) (cl_sign (mc_client (sc_dpop sc)))
      \<lparr>req_method = m, req_target = target,
       req_access_token = Some (as_bytes (at_value (sc_access_token sc))), req_nonce = nonce\<rparr> = Inr pf"
    "hv (proof_header_value pf) = Some v" "auth' = Some (''DPoP '' @ at_value (sc_access_token sc))"
    "headers' = hm_insert ''dpop'' v headers"
    using d [unfolded decorate_Inr_iff AUTHORIZATION_HEADER_def DPOP_HEADER_def] by blast
  with r show ?thesis
    by (intro exI [of _ headers'] exI [of _ target] exI [of _ nonce] exI [of _ pf] exI [of _ v] conjI)
      (simp_all only: hm_get_insert simp_thms if_True if_False)
qed

definition sample_streamable :: DpopStreamableHttpClient where
  "sample_streamable =
     \<lparr>sc_dpop = \<lparr>mc_client = sample_client,
        mc_authorization_server = \<lparr>nc_namespace = AuthorizationServer, nc_server_id = ''as''\<rparr>,
        mc_resource_server = \<lparr>nc_namespace = ResourceServer, nc_server_id = ''rs''\<rparr>\<rparr>,
      sc_access_token = \<lparr>at_value = from_bytes [1, 2, 3],
        at_proof_key = thumbprint sample_X sample_jwk\<rparr>\<rparr>"

lemma sample_decorate:
  "decorate sample_X Some sample_streamable (\<lambda>_. Inr (Some (DpopNonce ''n1''))) (Inr 1000) (Inr (ProofId ''id''))
     ''GET'' ''http://a/b?x'' False [(''accept'', ''x'')] =
     Inr (Some (''DPoP '' @ from_bytes [1, 2, 3]),
          [(''accept'', ''x''), (''dpop'', proof_header_value sample_proof)])"
proof -
  have t: "target_parse ''http://a/b?x'' = Inr (EffectiveRequestTarget ''http://a/b'')"
    "validate_method ''GET'' = Inr ()"
    by code_simp+
  have "dpop_build sample_X (Inr 1000) (Inr (ProofId ''id'')) sample_jwk (\<lambda>_. Inr (replicate 64 7))
      \<lparr>req_method = ''GET'', req_target = EffectiveRequestTarget ''http://a/b'',
       req_access_token = Some (as_bytes (from_bytes [1, 2, 3])), req_nonce = Some (DpopNonce ''n1'')\<rparr> =
      Inr sample_proof"
    using sample_build by (simp add: sample_request_def)
  then show ?thesis
    unfolding decorate_Inr_iff using t
    by (simp add: sample_streamable_def sample_client_def hm_get_def hm_insert_def AUTHORIZATION_HEADER_def
        DPOP_HEADER_def)
qed

theorem decorated_attempt_carries_proof_witness:
  "\<exists>headers' v.
     decorated_call sample_X Some sample_streamable (\<lambda>_. Inr (Some (DpopNonce ''n1''))) (Inr 1000) (Inr (ProofId ''id''))
       ''GET'' ''http://a/b?x'' None [(''accept'', ''x'')] (\<lambda>a h. Inr h :: unit + _) = Inr headers' \<and>
     hm_get headers' ''dpop'' = Some v \<and> hm_get headers' ''accept'' = Some ''x''"
proof -
  let ?call = "decorated_call sample_X Some sample_streamable (\<lambda>_. Inr (Some (DpopNonce ''n1''))) (Inr 1000)
    (Inr (ProofId ''id'')) ''GET'' ''http://a/b?x'' None [(''accept'', ''x'')] (\<lambda>a h. Inr h :: unit + _)"
  have c: "?call = Inr [(''accept'', ''x''), (''dpop'', proof_header_value sample_proof)]"
    using sample_decorate by (simp add: decorated_call_def)
  have "\<forall>e. ?call \<noteq> Inl (Keylix e)"
    unfolding c by simp
  from decorated_attempt_carries_proof [OF refl this] obtain headers' v
    where "?call = map_err Inner (Inr headers')"
      "\<forall>name. hm_get headers' name = (if name = ''dpop'' then Some v else hm_get [(''accept'', ''x'')] name)"
    by blast
  then show ?thesis
    by (intro exI [of _ headers'] exI [of _ v]) (simp add: hm_get_def)
qed

text \<open>A resource server that uses the MCP adapter over one in-memory replay store lets one proof
  pass at most once, whatever requests and validated tokens it is presented with, as long as the
  store's clock readings do not go back.\<close>

lemma mcp_proof_passes_once:
  fixes calls :: "mcp_call list"
  assumes "wf_replay_store s" "sorted (map mcl_time calls)"
    and "run_ops (\<lambda>s c. mcp_verify X policy (mcl_clock c) (replay_check_and_record (Inr (mcl_time c)))
      (mcl_request c) (mcl_token c) s) s calls = (rs, s')"
    and "i < length calls" "j < length calls" "is_ok (rs ! i)" "is_ok (rs ! j)"
    and "mr_dpop_header_values (mcl_request (calls ! i)) = mr_dpop_header_values (mcl_request (calls ! j))"
  shows "i = j"
proof -
  have "run_ops (mcp_step X policy) s calls = (rs, s')"
    using assms(3) unfolding mcp_step_def .
  then show ?thesis
    using mcp_server.passed_once [OF assms(1) _ assms(2,4,5)] assms(6-8) by (simp add: mcp_presented_def)
qed

definition sample_mcp_call :: "i64 \<Rightarrow> HostValidatedToken \<Rightarrow> mcp_call" where
  "sample_mcp_call t h =
     \<lparr>mcl_clock = Inr t, mcl_time = t,
      mcl_request = \<lparr>mr_method = ''GET'', mr_target = EffectiveRequestTarget ''http://a/b'',
        mr_access_token = [1, 2, 3], mr_dpop_header_values = [proof_header_value sample_proof],
        mr_nonce = Some (DpopNonce ''n1'')\<rparr>,
      mcl_token = h\<rparr>"

lemma sample_mcp_accepted:
  "\<exists>h b s. mcp_step sample_X policy_default sample_store (sample_mcp_call 1010 h) = (Inr b, s)"
proof -
  have fresh: "replay_check_and_record (Inr 1010) sample_store key 1300 =
      (Inr Fresh, sample_store\<lparr>rs_entries := [(key, 1300)]\<rparr>)" for key
    by (simp add: replay_check_and_record_def sample_store_def hm_retain_def hm_contains_def hm_get_def
        hm_len_def hm_insert_def)
  obtain p key v where p: "parse_dpop_header_values sample_X [proof_header_value sample_proof] = Inr p"
    and v: "dpop_verify sample_X policy_default (Inr 1010) (replay_check_and_record (Inr 1010)) p sample_request
      sample_store = (Inr v, sample_store\<lparr>rs_entries := [(key, 1300)]\<rparr>)"
    using sample_accepted [of "replay_check_and_record (Inr 1010)" sample_store
        "\<lambda>key. sample_store\<lparr>rs_entries := [(key, 1300)]\<rparr>", OF fresh] by blast
  obtain h :: HostValidatedToken where h: "hv_fingerprint h = from_token_bytes sample_X [1, 2, 3]"
    "hv_confirmation h = Some (thumbprint sample_X sample_jwk)"
    using sample_host_token by blast
  have "up_public_jwk p = sample_jwk"
    using sample_parse p by auto
  then have "vp_access_token_hash_verified v" "vp_key_thumbprint v = thumbprint sample_X sample_jwk"
    using v by (auto simp: dpop_verify_Inr_iff verify_before_replay_Inr_iff sample_request_def)
  then have "\<exists>b. compose_sender_binding sample_X v [1, 2, 3] h = Inr b"
    using h by (simp add: compose_sender_binding_Inr_iff)
  moreover have "mcp_dpop_request (mcl_request (sample_mcp_call 1010 h)) = sample_request"
    "validate_method ''GET'' = Inr ()"
    by (simp add: sample_mcp_call_def mcp_dpop_request_def sample_request_def) code_simp
  ultimately have "\<exists>b s. mcp_step sample_X policy_default sample_store (sample_mcp_call 1010 h) = (Inr b, s)"
    unfolding mcp_step_def mcp_verify_Inr_iff using p v by (auto simp: sample_mcp_call_def)
  then show ?thesis by blast
qed

end
