(* ===== verification/Http_Target.thy ===== *)
theory Http_Target
  imports Dpop_Request
begin

text \<open>
  Trusted request targets from HTTP metadata (\<open>keylix-http/src/lib.rs\<close>): direct resolution, and
  resolution from the forwarding headers of a trusted proxy. The host's trust decision about the
  immediate peer (\<open>ProxyTrust\<close>) is a predicate argument.
\<close>

section \<open>Definitions\<close>

definition MAX_FORWARDING_VALUE_BYTES :: nat where
  "MAX_FORWARDING_VALUE_BYTES = 1024"

definition MAX_EXTERNAL_PATH_BYTES :: nat where
  "MAX_EXTERNAL_PATH_BYTES = 2048"

datatype ProxyHeaderFamily = Forwarded | XForwarded

record ForwardingHeaders =
  fh_forwarded :: "str option"
  fh_x_forwarded_proto :: "str option"
  fh_x_forwarded_host :: "str option"

definition forwarding_headers_new :: ForwardingHeaders where
  "forwarding_headers_new =
     \<lparr>fh_forwarded = None, fh_x_forwarded_proto = None, fh_x_forwarded_host = None\<rparr>"

definition with_forwarded :: "str \<Rightarrow> ForwardingHeaders \<Rightarrow> ForwardingHeaders" where
  "with_forwarded v h = h\<lparr>fh_forwarded := Some v\<rparr>"

definition with_x_forwarded_proto :: "str \<Rightarrow> ForwardingHeaders \<Rightarrow> ForwardingHeaders" where
  "with_x_forwarded_proto v h = h\<lparr>fh_x_forwarded_proto := Some v\<rparr>"

definition with_x_forwarded_host :: "str \<Rightarrow> ForwardingHeaders \<Rightarrow> ForwardingHeaders" where
  "with_x_forwarded_host v h = h\<lparr>fh_x_forwarded_host := Some v\<rparr>"

datatype HttpTargetError =
    UntrustedProxy
  | MissingForwardingMetadata
  | AmbiguousForwardingMetadata
  | InvalidForwardingMetadata
  | InvalidRequestTarget_http

definition is_invalid_header_value_byte :: "u8 \<Rightarrow> bool" where
  "is_invalid_header_value_byte b \<longleftrightarrow> b \<le> 0x20 \<or> b = 0x7F"

definition is_invalid_request_target_byte :: "u8 \<Rightarrow> bool" where
  "is_invalid_request_target_byte b \<longleftrightarrow> b \<le> 0x20 \<or> b = 0x7F"

definition is_header_token_byte :: "u8 \<Rightarrow> bool" where
  "is_header_token_byte b \<longleftrightarrow>
     b \<in> {0x21, 0x23, 0x24, 0x25, 0x26, 0x27, 0x2A, 0x2B, 0x2D, 0x2E, 0x5E, 0x5F, 0x60, 0x7C, 0x7E} \<or>
     0x30 \<le> b \<and> b \<le> 0x39 \<or> 0x41 \<le> b \<and> b \<le> 0x5A \<or> 0x61 \<le> b \<and> b \<le> 0x7A"

definition is_ows :: "char \<Rightarrow> bool" where
  "is_ows c \<longleftrightarrow> byte_of c = 0x20 \<or> byte_of c = 0x09"

definition trim_ows :: "str \<Rightarrow> str" where
  "trim_ows v = rev (dropWhile is_ows (rev (dropWhile is_ows v)))"

definition target_parts_ok :: "str \<Rightarrow> str \<Rightarrow> str \<Rightarrow> bool" where
  "target_parts_ok scheme authority path_and_query \<longleftrightarrow>
     \<not> (scheme = [] \<or> length scheme > MAX_FORWARDING_VALUE_BYTES \<or>
        authority = [] \<or> length authority > MAX_FORWARDING_VALUE_BYTES \<or>
        path_and_query = [] \<or> length path_and_query > MAX_EXTERNAL_PATH_BYTES \<or>
        \<not> is_ascii scheme \<or> \<not> is_ascii authority \<or> \<not> is_ascii path_and_query \<or>
        \<not> starts_with path_and_query ''/'' \<or>
        str_contains path_and_query (CHR ''#'') \<or>
        (str_contains authority (CHR ''/'') \<or> str_contains authority (CHR ''?'') \<or>
         str_contains authority (CHR ''#'')) \<or>
        list_ex (\<lambda>c. is_invalid_header_value_byte (byte_of c)) scheme \<or>
        list_ex (\<lambda>c. is_invalid_header_value_byte (byte_of c)) authority \<or>
        list_ex (\<lambda>c. is_invalid_request_target_byte (byte_of c)) path_and_query)"

definition build_target :: "str \<Rightarrow> str \<Rightarrow> str \<Rightarrow> HttpTargetError + EffectiveRequestTarget" where
  "build_target scheme authority path_and_query =
     (if \<not> target_parts_ok scheme authority path_and_query then Inl InvalidRequestTarget_http
      else map_err (\<lambda>_. InvalidRequestTarget_http)
             (target_parse (scheme @ ''://'' @ authority @ path_and_query)))"

definition resolve_direct_target :: "str \<Rightarrow> str \<Rightarrow> str \<Rightarrow> HttpTargetError + EffectiveRequestTarget" where
  "resolve_direct_target scheme authority path_and_query = build_target scheme authority path_and_query"

definition checked_forwarding_value :: "str \<Rightarrow> HttpTargetError + str" where
  "checked_forwarding_value raw =
     (if raw = [] \<or> length raw > MAX_FORWARDING_VALUE_BYTES \<or> \<not> is_ascii raw
      then Inl InvalidForwardingMetadata
      else (let trimmed = trim_ows raw in
        if trimmed = [] then Inl InvalidForwardingMetadata else Inr trimmed))"

definition single_forwarding_value :: "str \<Rightarrow> HttpTargetError + str" where
  "single_forwarding_value raw =
     bindE (checked_forwarding_value raw) (\<lambda>value.
       if str_contains value (CHR '','') then Inl AmbiguousForwardingMetadata
       else if list_ex (\<lambda>c. is_invalid_header_value_byte (byte_of c)) value
       then Inl InvalidForwardingMetadata
       else Inr value)"

text \<open>The loop over the parameters of a \<open>Forwarded\<close> element, with the two values found so far.\<close>

fun forwarded_parameters ::
  "str list \<Rightarrow> str option \<Rightarrow> str option \<Rightarrow> HttpTargetError + (str option \<times> str option)" where
  "forwarded_parameters [] proto host = Inr (proto, host)"
| "forwarded_parameters (parameter # ps) proto host =
     bindE (ok_or InvalidForwardingMetadata (split_once (trim_ows parameter) (CHR ''=''))) (\<lambda>(n, v).
       let name = trim_ows n; value = trim_ows v in
       if name = [] \<or> value = [] \<or> \<not> list_all (\<lambda>c. is_header_token_byte (byte_of c)) name \<or>
          list_ex (\<lambda>c. is_invalid_header_value_byte (byte_of c)) value
       then Inl InvalidForwardingMetadata
       else if eq_ignore_ascii_case name ''proto'' then
         (if proto \<noteq> None then Inl AmbiguousForwardingMetadata
          else forwarded_parameters ps (Some value) host)
       else if eq_ignore_ascii_case name ''host'' then
         (if host \<noteq> None then Inl AmbiguousForwardingMetadata
          else forwarded_parameters ps proto (Some value))
       else forwarded_parameters ps proto host)"

definition parse_single_forwarded :: "str \<Rightarrow> HttpTargetError + (str \<times> str)" where
  "parse_single_forwarded raw =
     bindE (checked_forwarding_value raw) (\<lambda>raw.
       if str_contains raw (CHR '','') \<or>
          list_ex (\<lambda>c. byte_of c = 0x22 \<or> byte_of c = 0x5C) raw
       then Inl AmbiguousForwardingMetadata
       else bindE (forwarded_parameters (str_split (CHR '';'') raw) None None) (\<lambda>(proto, host).
         bindE (ok_or MissingForwardingMetadata proto) (\<lambda>proto.
         bindE (ok_or MissingForwardingMetadata host) (\<lambda>host.
           Inr (proto, host)))))"

definition resolve_forwarded :: "ForwardingHeaders \<Rightarrow> HttpTargetError + (str \<times> str)" where
  "resolve_forwarded h =
     (if fh_x_forwarded_proto h \<noteq> None \<or> fh_x_forwarded_host h \<noteq> None
      then Inl AmbiguousForwardingMetadata
      else bindE (ok_or MissingForwardingMetadata (fh_forwarded h)) parse_single_forwarded)"

definition resolve_x_forwarded :: "ForwardingHeaders \<Rightarrow> HttpTargetError + (str \<times> str)" where
  "resolve_x_forwarded h =
     (if fh_forwarded h \<noteq> None then Inl AmbiguousForwardingMetadata
      else bindE (ok_or MissingForwardingMetadata (fh_x_forwarded_proto h)) (\<lambda>proto.
           bindE (ok_or MissingForwardingMetadata (fh_x_forwarded_host h)) (\<lambda>host.
           bindE (single_forwarding_value proto) (\<lambda>proto.
           bindE (single_forwarding_value host) (\<lambda>host.
             Inr (proto, host))))))"

definition resolve ::
  "('p \<Rightarrow> bool) \<Rightarrow> ProxyHeaderFamily \<Rightarrow> 'p \<Rightarrow> str \<Rightarrow> ForwardingHeaders
   \<Rightarrow> HttpTargetError + EffectiveRequestTarget" where
  "resolve is_trusted_proxy family peer path_and_query headers =
     (if \<not> is_trusted_proxy peer then Inl UntrustedProxy
      else bindE (case family of Forwarded \<Rightarrow> resolve_forwarded headers
                  | XForwarded \<Rightarrow> resolve_x_forwarded headers) (\<lambda>(scheme, authority).
        build_target scheme authority path_and_query))"

section \<open>Lemmas\<close>

lemma build_target_Inr_iff [result_simps]:
  "build_target s a p = Inr t \<longleftrightarrow> target_parts_ok s a p \<and> target_parse (s @ ''://'' @ a @ p) = Inr t"
  by (simp add: build_target_def result_simps)

text \<open>With one of the two schemes the absolute text is split where it was joined: the authority
  of the target is the given authority.\<close>

lemma canonical_scheme_no_colon:
  assumes "canonical_scheme s = Some s'"
  shows "CHR '':'' \<notin> set s"
proof
  assume "CHR '':'' \<in> set s"
  moreover have "ascii_lower (CHR '':'') = CHR '':''"
    by code_simp
  ultimately have "CHR '':'' \<in> set (to_ascii_lowercase s)"
    unfolding to_ascii_lowercase_def set_map by (metis imageI)
  moreover have "to_ascii_lowercase ''http'' = ''http''" "to_ascii_lowercase ''https'' = ''https''"
    by code_simp+
  ultimately show False
    using assms by (auto simp: canonical_scheme_def eq_ignore_ascii_case_def split: if_splits)
qed

lemma authority_of_slash:
  "set a \<inter> set ''/?#'' = {} \<Longrightarrow> authority_of (a @ CHR ''/'' # p) = a"
  unfolding authority_of_def by (induction a) auto

lemma target_of_parts:
  assumes scheme: "canonical_scheme s = Some s'" and parts: "target_parts_ok s a p"
    and parsed: "target_parse (s @ ''://'' @ a @ p) = Inr t"
  shows "\<exists>host port path. normalize_authority a s' = Inr (host, port) \<and>
    target_str t = s' @ ''://'' @ host @ port_text port @ path"
proof -
  obtain p' where p: "p = CHR ''/'' # p'"
    using parts by (auto simp: target_parts_ok_def dest!: starts_withE)
  have auth: "authority_of (a @ p) = a"
    unfolding p using parts by (intro authority_of_slash) (auto simp: target_parts_ok_def)
  have colon: "str_find (\<lambda>c. c = CHR '':'') (s @ CHR '':'' # ''//'' @ a @ p) = Some (length s)"
    using canonical_scheme_no_colon [OF scheme] by (intro str_find_append) auto
  have "normalize_http_uri (s @ CHR '':'' # ''//'' @ a @ p) = Inr (target_str t)"
    using parsed by (auto simp: target_parse_def result_simps)
  then have "assemble_target s' a (raw_path_of (a @ p)) = Inr (target_str t)"
    unfolding normalize_http_uri_scan colon
    by (simp add: scheme auth strip_prefix_def starts_with_def split: if_splits)
  then obtain host port q where "normalize_authority a s' = Inr (host, port)"
    "s' @ ''://'' @ host @ port_text port @ or_slash (remove_dot_segments q) = target_str t"
    by (auto simp: assemble_target_def result_simps split: if_splits)
  then show ?thesis
    by metis
qed

section \<open>Properties\<close>

text \<open>C31. A proxy-derived target exists only for a trusted peer that sent exactly the selected
  header family, with one hop: no comma-separated values, and no headers of the other family.\<close>

theorem resolve_requires_trusted_single_hop:
  assumes "resolve is_trusted_proxy family peer path headers = Inr t"
  shows "is_trusted_proxy peer \<and>
    (case family of
       Forwarded \<Rightarrow> fh_x_forwarded_proto headers = None \<and> fh_x_forwarded_host headers = None \<and>
         (\<exists>v. fh_forwarded headers = Some v \<and> CHR '','' \<notin> set (trim_ows v))
     | XForwarded \<Rightarrow> fh_forwarded headers = None \<and>
         (\<exists>v w. fh_x_forwarded_proto headers = Some v \<and> fh_x_forwarded_host headers = Some w \<and>
            CHR '','' \<notin> set (trim_ows v) \<and> CHR '','' \<notin> set (trim_ows w)))"
  using assms
  by (auto simp: resolve_def resolve_forwarded_def resolve_x_forwarded_def parse_single_forwarded_def
      single_forwarding_value_def checked_forwarding_value_def Let_def result_simps
      split: ProxyHeaderFamily.splits if_splits)

theorem resolve_requires_trusted_single_hop_witness:
  "resolve (\<lambda>p. p = (1 :: nat)) XForwarded 1 ''/m''
     \<lparr>fh_forwarded = None, fh_x_forwarded_proto = Some ''https'', fh_x_forwarded_host = Some ''h''\<rparr> =
     Inr (EffectiveRequestTarget ''https://h/m'') \<and> CHR '','' \<notin> set (trim_ows ''h'')"
proof -
  have r: "resolve (\<lambda>p. p = (1 :: nat)) XForwarded 1 ''/m''
      \<lparr>fh_forwarded = None, fh_x_forwarded_proto = Some ''https'', fh_x_forwarded_host = Some ''h''\<rparr> =
      Inr (EffectiveRequestTarget ''https://h/m'')"
    by code_simp
  show ?thesis
    using resolve_requires_trusted_single_hop [OF r] r by simp
qed

text \<open>When the scheme part is one of the two HTTP schemes, the resolved target has the host and
  port of the given authority: neither the path nor the query can move the target to another
  server.\<close>

lemma direct_target_keeps_authority:
  assumes "resolve_direct_target scheme authority path = Inr t"
    and "eq_ignore_ascii_case scheme ''http'' \<or> eq_ignore_ascii_case scheme ''https''"
  shows "\<exists>s host port rest. canonical_scheme scheme = Some s \<and>
    normalize_authority authority s = Inr (host, port) \<and>
    target_str t = s @ ''://'' @ host @ port_text port @ rest"
proof -
  have "canonical_scheme scheme \<noteq> None"
    using assms(2) by (auto simp: canonical_scheme_def)
  then obtain s where s: "canonical_scheme scheme = Some s"
    by blast
  then show ?thesis
    using assms(1) target_of_parts [OF s, of authority path t]
    by (auto simp: resolve_direct_target_def result_simps)
qed

text \<open>The scheme part itself is not checked to be a scheme: a forwarded protocol value that
  holds a whole URI moves the target to the server it names, and the forwarded host is ignored.\<close>

lemma forwarded_proto_redirects_target:
  "resolve (\<lambda>_. True) XForwarded () ''/mcp''
     \<lparr>fh_forwarded = None, fh_x_forwarded_proto = Some ''https://evil/?'', fh_x_forwarded_host = Some ''good''\<rparr> =
   Inr (EffectiveRequestTarget ''https://evil/'')"
  by code_simp

end
