(* ===== verification/Rust_Io.thy ===== *)
theory Rust_Io
  imports Rust_Numbers
begin

text \<open>
  Code that talks to the operating system: a fallible operation on a world state, with the
  \<open>?\<close> operator, matching on a result, and loops; the weakest precondition of such code, with
  one rewrite rule per construct; \<open>std::io::ErrorKind\<close>, \<open>std::path::Path::components\<close> and the
  text functions of the standard library that the host process uses.
\<close>

named_theorems wp_simps \<open>weakest preconditions of the constructs\<close>

section \<open>Fallible operations on a state\<close>

type_synonym ('w, 'e, 'a) io = "'w \<Rightarrow> ('e + 'a) \<times> 'w"

definition ret :: "'a \<Rightarrow> ('w, 'e, 'a) io" where
  "ret x w = (Inr x, w)"

definition raise :: "'e \<Rightarrow> ('w, 'e, 'a) io" where
  "raise e w = (Inl e, w)"

definition lift :: "'e + 'a \<Rightarrow> ('w, 'e, 'a) io" where
  "lift r w = (r, w)"

text \<open>\<open>let x = m?; f(x)\<close>.\<close>

definition bindM :: "('w, 'e, 'a) io \<Rightarrow> ('a \<Rightarrow> ('w, 'e, 'b) io) \<Rightarrow> ('w, 'e, 'b) io" where
  "bindM m f w = (case m w of (Inl e, w') \<Rightarrow> (Inl e, w') | (Inr x, w') \<Rightarrow> f x w')"

text \<open>\<open>match m \{ Ok(x) => .., Err(e) => .. \}\<close>: the result itself, never an error.\<close>

definition attempt :: "('w, 'e, 'a) io \<Rightarrow> ('w, 'f, 'e + 'a) io" where
  "attempt m w = (case m w of (r, w') \<Rightarrow> (Inr r, w'))"

definition map_errM :: "('e \<Rightarrow> 'f) \<Rightarrow> ('w, 'e, 'a) io \<Rightarrow> ('w, 'f, 'a) io" where
  "map_errM g m w = (case m w of (r, w') \<Rightarrow> (map_err g r, w'))"

text \<open>A \<open>for\<close> loop that threads an accumulator and leaves at the first error.\<close>

fun foldM :: "('b \<Rightarrow> 'a \<Rightarrow> ('w, 'e, 'b) io) \<Rightarrow> 'b \<Rightarrow> 'a list \<Rightarrow> ('w, 'e, 'b) io" where
  "foldM f acc [] = ret acc"
| "foldM f acc (x # xs) = bindM (f acc x) (\<lambda>acc. foldM f acc xs)"

section \<open>Weakest preconditions\<close>

definition wp :: "('w, 'e, 'a) io \<Rightarrow> ('e + 'a \<Rightarrow> 'w \<Rightarrow> bool) \<Rightarrow> 'w \<Rightarrow> bool" where
  "wp m Q w = (case m w of (r, w') \<Rightarrow> Q r w')"

lemma wp_ret [wp_simps]: "wp (ret x) Q w = Q (Inr x) w"
  by (simp add: wp_def ret_def)

lemma wp_raise [wp_simps]: "wp (raise e) Q w = Q (Inl e) w"
  by (simp add: wp_def raise_def)

lemma wp_lift [wp_simps]: "wp (lift r) Q w = Q r w"
  by (simp add: wp_def lift_def)

lemma wp_bindM [wp_simps]:
  "wp (bindM m f) Q w = wp m (\<lambda>r w'. case r of Inl e \<Rightarrow> Q (Inl e) w' | Inr x \<Rightarrow> wp (f x) Q w') w"
  by (simp add: wp_def bindM_def split: prod.splits sum.splits)

lemma wp_attempt [wp_simps]: "wp (attempt m) Q w = wp m (\<lambda>r. Q (Inr r)) w"
  by (simp add: wp_def attempt_def split: prod.splits)

lemma wp_map_errM [wp_simps]: "wp (map_errM g m) Q w = wp m (\<lambda>r. Q (map_err g r)) w"
  by (simp add: wp_def map_errM_def split: prod.splits)

lemma wp_if [wp_simps]: "wp (if c then m else n) Q w = (if c then wp m Q w else wp n Q w)"
  by simp

lemma wp_mono: "wp m P w \<Longrightarrow> (\<And>r w'. P r w' \<Longrightarrow> Q r w') \<Longrightarrow> wp m Q w"
  by (auto simp: wp_def split: prod.splits)

lemma wp_conj: "wp m P w \<Longrightarrow> wp m Q w \<Longrightarrow> wp m (\<lambda>r w'. P r w' \<and> Q r w') w"
  by (auto simp: wp_def split: prod.splits)

lemma wp_both:
  assumes "wp m P w" "wp m Q w" "\<And>r w'. P r w' \<Longrightarrow> Q r w' \<Longrightarrow> R r w'"
  shows "wp m R w"
  by (rule wp_mono [OF wp_conj [OF assms(1,2)]]) (use assms(3) in blast)

text \<open>Sequencing after a step with a known specification.\<close>

lemma wp_bindI:
  assumes "wp m P w" "\<And>e w'. P (Inl e) w' \<Longrightarrow> Q (Inl e) w'" "\<And>x w'. P (Inr x) w' \<Longrightarrow> wp (f x) Q w'"
  shows "wp (bindM m f) Q w"
  unfolding wp_bindM by (rule wp_mono [OF assms(1)]) (use assms(2,3) in \<open>auto split: sum.splits\<close>)

lemma wp_bind_attemptI:
  assumes "wp m P w" "\<And>r w'. P r w' \<Longrightarrow> wp (f r) Q w'"
  shows "wp (bindM (attempt m) f) Q w"
  unfolding wp_bindM wp_attempt by (rule wp_mono [OF assms(1)]) (use assms(2) in auto)

lemma wp_map_errI:
  assumes "wp m P w" "\<And>e w'. P (Inl e) w' \<Longrightarrow> Q (Inl (g e)) w'" "\<And>x w'. P (Inr x) w' \<Longrightarrow> Q (Inr x) w'"
  shows "wp (map_errM g m) Q w"
  unfolding wp_map_errM by (rule wp_mono [OF assms(1)]) (use assms(2,3) in \<open>auto simp: map_err_def split: sum.splits\<close>)

lemma wpI: "(\<And>r w'. m w = (r, w') \<Longrightarrow> Q r w') \<Longrightarrow> wp m Q w"
  by (simp add: wp_def split: prod.splits)

lemma wpD: "wp m Q w \<Longrightarrow> m w = (r, w') \<Longrightarrow> Q r w'"
  by (simp add: wp_def)

text \<open>A loop keeps what each of its steps keeps.\<close>

lemma wp_foldM:
  assumes "I acc [] w"
    and "\<And>acc seen x rest w. xs = seen @ x # rest \<Longrightarrow> I acc seen w \<Longrightarrow>
      wp (f acc x) (\<lambda>r w'. case r of Inl e \<Rightarrow> E e w' | Inr acc' \<Rightarrow> I acc' (seen @ [x]) w') w"
  shows "wp (foldM f acc xs) (\<lambda>r w'. case r of Inl e \<Rightarrow> E e w' | Inr acc' \<Rightarrow> I acc' xs w') w"
proof -
  have "wp (foldM f acc rest) (\<lambda>r w'. case r of Inl e \<Rightarrow> E e w' | Inr acc' \<Rightarrow> I acc' xs w') w"
    if "xs = seen @ rest" "I acc seen w" for seen rest acc w
    using that
  proof (induction rest arbitrary: seen acc w)
    case (Cons x rest)
    have "wp (f acc x) (\<lambda>r w'. case r of Inl e \<Rightarrow> E e w' | Inr acc' \<Rightarrow> I acc' (seen @ [x]) w') w"
      using assms(2) [OF Cons.prems] .
    then show ?case
      unfolding foldM.simps wp_bindM
    proof (rule wp_mono)
      fix r w'
      assume "case r of Inl e \<Rightarrow> E e w' | Inr acc' \<Rightarrow> I acc' (seen @ [x]) w'"
      then show "case r of Inl e \<Rightarrow> (case Inl e of Inl e \<Rightarrow> E e w' | Inr acc' \<Rightarrow> I acc' xs w')
          | Inr acc \<Rightarrow> wp (foldM f acc rest) (\<lambda>r w'. case r of Inl e \<Rightarrow> E e w' | Inr acc' \<Rightarrow> I acc' xs w') w'"
        using Cons.IH [of "seen @ [x]"] Cons.prems(1) by (cases r) auto
    qed
  qed (simp add: wp_simps)
  from this [of "[]" xs] show ?thesis using assms(1) by simp
qed

text \<open>Code that leaves a part of the world as it is.\<close>

definition keeps :: "('w \<Rightarrow> 'p) \<Rightarrow> ('w, 'e, 'a) io \<Rightarrow> bool" where
  "keeps part m \<longleftrightarrow> (\<forall>w. wp m (\<lambda>_ w'. part w' = part w) w)"

named_theorems keeps_intros \<open>constructs that keep a part of the world\<close>

lemma keepsD: "keeps part m \<Longrightarrow> wp m (\<lambda>_ w'. part w' = part w) w"
  by (simp add: keeps_def)

lemma keeps_ret [keeps_intros]: "keeps part (ret x)" "keeps part (raise e)" "keeps part (lift r)"
  by (simp_all add: keeps_def wp_simps)

lemma keeps_bindM [keeps_intros]:
  assumes "keeps part m" "\<And>x. keeps part (f x)"
  shows "keeps part (bindM m f)"
  unfolding keeps_def
proof
  fix w
  show "wp (bindM m f) (\<lambda>_ w'. part w' = part w) w"
    by (rule wp_bindI [OF keepsD [OF assms(1)]]) (use wp_mono [OF keepsD [OF assms(2)]] in auto)
qed

lemma keeps_attempt [keeps_intros]: "keeps part m \<Longrightarrow> keeps part (attempt m)"
  by (simp add: keeps_def wp_simps)

lemma keeps_map_errM [keeps_intros]: "keeps part m \<Longrightarrow> keeps part (map_errM g m)"
  by (simp add: keeps_def wp_simps)

lemma keeps_foldM: "(\<And>acc x. keeps part (f acc x)) \<Longrightarrow> keeps part (foldM f acc xs)"
  by (induction xs arbitrary: acc) (simp_all add: keeps_intros)

lemma keeps_if [keeps_intros]: "keeps part m \<Longrightarrow> keeps part n \<Longrightarrow> keeps part (if c then m else n)"
  by simp

lemma keeps_case [keeps_intros]:
  "(\<And>a. keeps part (f a)) \<Longrightarrow> (\<And>b. keeps part (g b)) \<Longrightarrow> keeps part (case r of Inl a \<Rightarrow> f a | Inr b \<Rightarrow> g b)"
  "keeps part m \<Longrightarrow> (\<And>x. keeps part (h x)) \<Longrightarrow> keeps part (case q of None \<Rightarrow> m | Some x \<Rightarrow> h x)"
  by (simp_all split: sum.split option.split)

section \<open>Error kinds\<close>

datatype ErrorKind =
    NotFound
  | AlreadyExists
  | PermissionDenied
  | ConnectionRefused
  | InvalidInput
  | InvalidData
  | Unsupported
  | OtherKind

section \<open>Paths\<close>

text \<open>\<open>Path::components\<close> on Unix: separators are folded, \<open>.\<close> is kept only at the start of a
  relative path.\<close>

datatype Component = RootDir | CurDir | ParentDir | Normal str

definition path_is_absolute :: "str \<Rightarrow> bool" where
  "path_is_absolute p \<longleftrightarrow> starts_with p ''/''"

definition path_components :: "str \<Rightarrow> Component list" where
  "path_components p =
     (let segments = str_split (CHR ''/'') p in
      (if path_is_absolute p then [RootDir] else if hd segments = ''.'' then [CurDir] else []) @
      map (\<lambda>s. if s = ''..'' then ParentDir else Normal s)
        (filter (\<lambda>s. s \<noteq> [] \<and> s \<noteq> ''.'') segments))"

section \<open>Text\<close>

text \<open>\<open>str::parse\<close> and \<open>from_str_radix\<close> for an unsigned type with maximum \<open>bound\<close>.\<close>

definition parse_unsigned :: "nat \<Rightarrow> nat \<Rightarrow> str \<Rightarrow> nat option" where
  "parse_unsigned radix bound s =
     (let ds = (case s of c # cs \<Rightarrow> if c = CHR ''+'' then cs else s | [] \<Rightarrow> [])
      in if ds = [] \<or> \<not> list_all (is_digit_of radix) ds then None
         else if digits_value radix ds > bound then None
         else Some (digits_value radix ds))"

definition newline :: char where
  "newline = char_of (10 :: nat)"

definition carriage_return :: char where
  "carriage_return = char_of (13 :: nat)"

definition strip_suffix_char :: "str \<Rightarrow> char \<Rightarrow> str option" where
  "strip_suffix_char s c = (if s \<noteq> [] \<and> last s = c then Some (butlast s) else None)"

text \<open>\<open>str::lines\<close>: a line ends with a newline, before which one carriage return is dropped; an
  unfinished last line is kept as it is.\<close>

definition str_lines :: "str \<Rightarrow> str list" where
  "str_lines s =
     (let pieces = str_split newline s;
          ended = map (\<lambda>l. case strip_suffix_char l carriage_return of Some l' \<Rightarrow> l' | None \<Rightarrow> l) (butlast pieces)
      in if last pieces = [] then ended else ended @ [last pieces])"

text \<open>\<open>Display\<close> of \<open>i64\<close>.\<close>

definition fmt_i64 :: "i64 \<Rightarrow> str" where
  "fmt_i64 n = (if n < 0 then CHR ''-'' # nat_to_string (nat (- n)) else nat_to_string (nat n))"

text \<open>White space of ASCII text.\<close>

definition is_white :: "char \<Rightarrow> bool" where
  "is_white c \<longleftrightarrow> (let n = of_char c :: nat in n = 32 \<or> (9 \<le> n \<and> n \<le> 13))"

definition str_trim :: "str \<Rightarrow> str" where
  "str_trim s = rev (dropWhile is_white (rev (dropWhile is_white s)))"

function split_whitespace :: "str \<Rightarrow> str list" where
  "split_whitespace s =
     (let t = dropWhile is_white s
      in if t = [] then [] else takeWhile (\<lambda>c. \<not> is_white c) t # split_whitespace (dropWhile (\<lambda>c. \<not> is_white c) t))"
  by pat_completeness auto

termination
proof (relation "measure length", simp)
  fix s t :: str
  assume t: "t = dropWhile is_white s" "t \<noteq> []"
  then have "\<not> is_white (hd t)" using hd_dropWhile by blast
  with t(2) obtain c r where "t = c # r" "\<not> is_white c" by (cases t) auto
  then have "length (dropWhile (\<lambda>c. \<not> is_white c) t) < length t"
    using length_dropWhile_le [of "\<lambda>c. \<not> is_white c" r] by simp
  also have "length t \<le> length s"
    unfolding t(1) by (rule length_dropWhile_le)
  finally show "(dropWhile (\<lambda>c. \<not> is_white c) t, s) \<in> measure length" by simp
qed

declare split_whitespace.simps [simp del]

text \<open>\<open>std::str::from_utf8\<close>: well-formed UTF-8 only, without overlong forms and surrogates.\<close>

definition utf8_tail :: "u8 \<Rightarrow> bool" where
  "utf8_tail b \<longleftrightarrow> 0x80 \<le> b \<and> b \<le> 0xBF"

fun is_utf8 :: "bytes \<Rightarrow> bool" where
  "is_utf8 [] = True"
| "is_utf8 (a # r) =
     (if a < 0x80 then is_utf8 r
      else if 0xC2 \<le> a \<and> a \<le> 0xDF then (case r of b # r' \<Rightarrow> utf8_tail b \<and> is_utf8 r' | _ \<Rightarrow> False)
      else if 0xE0 \<le> a \<and> a \<le> 0xEF then
        (case r of b # c # r' \<Rightarrow>
           utf8_tail b \<and> (a = 0xE0 \<longrightarrow> 0xA0 \<le> b) \<and> (a = 0xED \<longrightarrow> b < 0xA0) \<and> utf8_tail c \<and> is_utf8 r'
         | _ \<Rightarrow> False)
      else if 0xF0 \<le> a \<and> a \<le> 0xF4 then
        (case r of b # c # d # r' \<Rightarrow>
           utf8_tail b \<and> (a = 0xF0 \<longrightarrow> 0x90 \<le> b) \<and> (a = 0xF4 \<longrightarrow> b < 0x90) \<and>
           utf8_tail c \<and> utf8_tail d \<and> is_utf8 r'
         | _ \<Rightarrow> False)
      else False)"

end
