(* ===== verification/Observe.thy ===== *)
theory Observe
  imports OAuth_Binding Rust_Io
begin

text \<open>
  Telemetry and evidence (\<open>keylix-observe/src/lib.rs\<close>): the bounded event vocabulary with its label
  tables, and the evidence built from a verified sender binding, with its redacting \<open>Debug\<close> form.
\<close>

section \<open>Vocabulary\<close>

datatype SecurityMechanism = Mechanism_Dpop

fun mechanism_str :: "SecurityMechanism \<Rightarrow> str" where
  "mechanism_str Mechanism_Dpop = ''dpop''"

datatype AlgorithmProfile = Es256P256

fun algorithm_str :: "AlgorithmProfile \<Rightarrow> str" where
  "algorithm_str Es256P256 = ''es256-p256''"

datatype Operation =
    ProofBuild
  | ProofVerify
  | OAuthTokenRequest
  | OAuthResourceRequest
  | OAuthSenderBinding
  | HttpTargetResolution
  | McpClient
  | McpServer

fun operation_str :: "Operation \<Rightarrow> str" where
  "operation_str ProofBuild = ''proof-build''"
| "operation_str ProofVerify = ''proof-verify''"
| "operation_str OAuthTokenRequest = ''oauth-token-request''"
| "operation_str OAuthResourceRequest = ''oauth-resource-request''"
| "operation_str OAuthSenderBinding = ''oauth-sender-binding''"
| "operation_str HttpTargetResolution = ''http-target-resolution''"
| "operation_str McpClient = ''mcp-client''"
| "operation_str McpServer = ''mcp-server''"

datatype TelemetryFailure =
    MalformedInput
  | UnsupportedProfile
  | CryptographicFailure
  | RequestBindingFailure
  | FreshnessFailure
  | NonceFailure
  | ReplayFailure
  | TokenBindingFailure
  | CredentialRejected
  | StateUnavailable
  | PolicyRejected
  | Internal

fun telemetry_failure_str :: "TelemetryFailure \<Rightarrow> str" where
  "telemetry_failure_str MalformedInput = ''malformed-input''"
| "telemetry_failure_str UnsupportedProfile = ''unsupported-profile''"
| "telemetry_failure_str CryptographicFailure = ''cryptographic-failure''"
| "telemetry_failure_str RequestBindingFailure = ''request-binding-failure''"
| "telemetry_failure_str FreshnessFailure = ''freshness-failure''"
| "telemetry_failure_str NonceFailure = ''nonce-failure''"
| "telemetry_failure_str ReplayFailure = ''replay-failure''"
| "telemetry_failure_str TokenBindingFailure = ''token-binding-failure''"
| "telemetry_failure_str CredentialRejected = ''credential-rejected''"
| "telemetry_failure_str StateUnavailable = ''state-unavailable''"
| "telemetry_failure_str PolicyRejected = ''policy-rejected''"
| "telemetry_failure_str Internal = ''internal''"

datatype TelemetryOutcome = Success | Failure TelemetryFailure

fun result_label :: "TelemetryOutcome \<Rightarrow> str" where
  "result_label Success = ''success''"
| "result_label (Failure class) = ''failure''"

fun failure_label :: "TelemetryOutcome \<Rightarrow> str option" where
  "failure_label Success = None"
| "failure_label (Failure class) = Some (telemetry_failure_str class)"

section \<open>Events\<close>

record TelemetryEvent =
  te_operation :: Operation
  te_outcome :: TelemetryOutcome

record TelemetryLabels =
  tl_mechanism :: str
  tl_algorithm :: str
  tl_operation :: str
  tl_result :: str
  tl_failure_class :: "str option"

definition event_success :: "Operation \<Rightarrow> TelemetryEvent" where
  "event_success operation = \<lparr>te_operation = operation, te_outcome = Success\<rparr>"

definition event_failure :: "Operation \<Rightarrow> TelemetryFailure \<Rightarrow> TelemetryEvent" where
  "event_failure operation class = \<lparr>te_operation = operation, te_outcome = Failure class\<rparr>"

definition event_mechanism :: "TelemetryEvent \<Rightarrow> SecurityMechanism" where
  "event_mechanism e = Mechanism_Dpop"

definition event_algorithm :: "TelemetryEvent \<Rightarrow> AlgorithmProfile" where
  "event_algorithm e = Es256P256"

definition event_labels :: "TelemetryEvent \<Rightarrow> TelemetryLabels" where
  "event_labels e =
     \<lparr>tl_mechanism = mechanism_str (event_mechanism e), tl_algorithm = algorithm_str (event_algorithm e),
      tl_operation = operation_str (te_operation e), tl_result = result_label (te_outcome e),
      tl_failure_class = failure_label (te_outcome e)\<rparr>"

section \<open>Evidence\<close>

datatype EvidenceKeyPolicy = Omit | Include

datatype EvidenceError = InvalidVerificationTime

record SenderBindingEvidence =
  ev_mechanism :: SecurityMechanism
  ev_algorithm :: AlgorithmProfile
  ev_validation_source :: TokenValidationSource
  ev_proof_issued_at_unix :: i64
  ev_verified_at_unix :: i64
  ev_nonce_enforced :: bool
  ev_replay_checked :: bool
  ev_key_thumbprint :: "JwkThumbprint option"

definition evidence_from_binding ::
  "VerifiedSenderBinding \<Rightarrow> i64 \<Rightarrow> EvidenceKeyPolicy \<Rightarrow> EvidenceError + SenderBindingEvidence" where
  "evidence_from_binding binding verified_at_unix key_policy =
     (if verified_at_unix \<le> 0 then Inl InvalidVerificationTime
      else Inr
        \<lparr>ev_mechanism = Mechanism_Dpop, ev_algorithm = Es256P256,
         ev_validation_source = sb_source binding,
         ev_proof_issued_at_unix = sb_proof_issued_at_unix binding,
         ev_verified_at_unix = verified_at_unix,
         ev_nonce_enforced = sb_nonce_enforced binding,
         ev_replay_checked = sb_replay_checked binding,
         ev_key_thumbprint =
           (case key_policy of Omit \<Rightarrow> None | Include \<Rightarrow> Some (sb_key_thumbprint binding))\<rparr>)"

text \<open>The derived \<open>Debug\<close> names of the enums, and the hand-written \<open>Debug\<close> of the evidence.\<close>

fun source_debug :: "TokenValidationSource \<Rightarrow> str" where
  "source_debug ValidatedJwt = ''ValidatedJwt''"
| "source_debug AuthenticatedIntrospection = ''AuthenticatedIntrospection''"
| "source_debug EquivalentHostValidator = ''EquivalentHostValidator''"

definition bool_debug :: "bool \<Rightarrow> str" where
  "bool_debug b = (if b then ''true'' else ''false'')"

definition evidence_debug :: "SenderBindingEvidence \<Rightarrow> str" where
  \<open>evidence_debug ev =
     ''SenderBindingEvidence { mechanism: '' @ (case ev_mechanism ev of Mechanism_Dpop \<Rightarrow> ''Dpop'') @
     '', algorithm: '' @ (case ev_algorithm ev of Es256P256 \<Rightarrow> ''Es256P256'') @
     '', validation_source: '' @ source_debug (ev_validation_source ev) @
     '', proof_issued_at_unix: '' @ fmt_i64 (ev_proof_issued_at_unix ev) @
     '', verified_at_unix: '' @ fmt_i64 (ev_verified_at_unix ev) @
     '', nonce_enforced: '' @ bool_debug (ev_nonce_enforced ev) @
     '', replay_checked: '' @ bool_debug (ev_replay_checked ev) @
     '', key_thumbprint: '' @
       (case ev_key_thumbprint ev of None \<Rightarrow> ''None'' | Some _ \<Rightarrow> ''Some("[redacted]")'') @ '' }''\<close>

section \<open>Lemmas\<close>

definition all_operations :: "Operation list" where
  "all_operations =
     [ProofBuild, ProofVerify, OAuthTokenRequest, OAuthResourceRequest, OAuthSenderBinding,
      HttpTargetResolution, McpClient, McpServer]"

definition all_failures :: "TelemetryFailure list" where
  "all_failures =
     [MalformedInput, UnsupportedProfile, CryptographicFailure, RequestBindingFailure, FreshnessFailure,
      NonceFailure, ReplayFailure, TokenBindingFailure, CredentialRejected, StateUnavailable,
      PolicyRejected, Internal]"

lemma all_operations_UNIV: "(UNIV :: Operation set) = set all_operations"
proof -
  have "x \<in> set all_operations" for x by (cases x) (simp_all add: all_operations_def)
  then show ?thesis by blast
qed

lemma all_failures_UNIV: "(UNIV :: TelemetryFailure set) = set all_failures"
proof -
  have "x \<in> set all_failures" for x by (cases x) (simp_all add: all_failures_def)
  then show ?thesis by blast
qed

lemma distinct_map_eq: "distinct (map f xs) \<Longrightarrow> x \<in> set xs \<Longrightarrow> y \<in> set xs \<Longrightarrow> f x = f y \<longleftrightarrow> x = y"
  by (auto simp: distinct_map inj_on_def)

lemma operation_str_inj: "operation_str x = operation_str y \<longleftrightarrow> x = y"
proof -
  have "distinct (map operation_str all_operations)" by code_simp
  from distinct_map_eq [OF this] show ?thesis using all_operations_UNIV by blast
qed

lemma telemetry_failure_str_inj: "telemetry_failure_str x = telemetry_failure_str y \<longleftrightarrow> x = y"
proof -
  have "distinct (map telemetry_failure_str all_failures)" by code_simp
  from distinct_map_eq [OF this] show ?thesis using all_failures_UNIV by blast
qed

lemma event_labels_inj: "event_labels e = event_labels e' \<longleftrightarrow> e = e'"
  by (cases e; cases e'; cases "te_outcome e"; cases "te_outcome e'")
    (auto simp: event_labels_def operation_str_inj telemetry_failure_str_inj event_mechanism_def event_algorithm_def)

lemma card_outcomes: "card (UNIV :: TelemetryOutcome set) = 13"
proof -
  have UNIV: "(UNIV :: TelemetryOutcome set) = insert Success (Failure ` set all_failures)"
    using all_failures_UNIV by (auto intro: TelemetryOutcome.exhaust)
  have "card (Failure ` set all_failures) = card (set all_failures)"
    by (intro card_image) (simp add: inj_on_def)
  moreover have "card (set all_failures) = 12" by (simp add: all_failures_def)
  moreover have "Success \<notin> Failure ` set all_failures" by auto
  ultimately show ?thesis unfolding UNIV by simp
qed

lemma card_events: "card (UNIV :: TelemetryEvent set) = 104"
proof -
  have bij: "bij (\<lambda>e :: TelemetryEvent. (te_operation e, te_outcome e))"
  proof (rule bijI')
    fix y :: "Operation \<times> TelemetryOutcome"
    show "\<exists>e :: TelemetryEvent. y = (te_operation e, te_outcome e)"
      by (rule exI [of _ "\<lparr>te_operation = fst y, te_outcome = snd y\<rparr>"]) simp
  qed (auto intro: TelemetryEvent.equality)
  have "card (UNIV :: Operation set) = 8"
    unfolding all_operations_UNIV by (simp add: all_operations_def)
  moreover have "card (UNIV :: (Operation \<times> TelemetryOutcome) set) =
      card (UNIV :: Operation set) * card (UNIV :: TelemetryOutcome set)"
    unfolding UNIV_Times_UNIV [symmetric] by (rule card_cartesian_product)
  ultimately show ?thesis
    using bij_betw_same_card [OF bij] card_outcomes by simp
qed

section \<open>Properties\<close>

text \<open>Telemetry is bounded and faithful: labels tell events apart, and over all events there are
  exactly 104 of them, none of which is built from anything but the closed vocabulary.\<close>

lemma telemetry_labels_bounded:
  "inj event_labels \<and> card (range event_labels) = 104 \<and>
   range event_labels = event_labels ` (event_success ` UNIV \<union> (\<lambda>(operation, class). event_failure operation class) ` UNIV)"
proof -
  have inj: "inj event_labels" by (simp add: inj_on_def event_labels_inj)
  have "e \<in> event_success ` UNIV \<union> (\<lambda>(operation, class). event_failure operation class) ` UNIV" for e :: TelemetryEvent
  proof (cases "te_outcome e")
    case Success
    then have "e = event_success (te_operation e)" by (simp add: event_success_def)
    then show ?thesis by blast
  next
    case (Failure k)
    then have "e = (\<lambda>(operation, class). event_failure operation class) (te_operation e, k)"
      by (simp add: event_failure_def)
    then show ?thesis by blast
  qed
  then have "event_success ` UNIV \<union> (\<lambda>(operation, class). event_failure operation class) ` UNIV = (UNIV :: TelemetryEvent set)"
    by blast
  then show ?thesis
    using inj card_events by (simp add: card_image)
qed

text \<open>Evidence does not disclose the sender's key unless asked to: with the omitting policy it does
  not depend on the key at all, and its debug form never does, whatever the policy.\<close>

lemma evidence_hides_key:
  "evidence_from_binding (b\<lparr>sb_key_thumbprint := k\<rparr>) t Omit = evidence_from_binding b t Omit \<and>
   map_ok evidence_debug (evidence_from_binding (b\<lparr>sb_key_thumbprint := k\<rparr>) t policy) =
     map_ok evidence_debug (evidence_from_binding b t policy)"
  by (cases policy) (simp_all add: evidence_from_binding_def evidence_debug_def)

end
