(* ===== verification/Conformance.thy ===== *)
theory Conformance
  imports Dpop_State Rust_Io
begin

text \<open>
  The crate \<open>keylix-conformance\<close>: \<open>ai_adversary.rs\<close>, the batches of candidate mutations and the
  deterministic evaluator that runs each of them against the builder, the parser and the verifier,
  and \<open>keylix-ai-candidate-check.rs\<close>, the program around it. What the key generator, the signer and
  the random source give to one evaluation is an argument.
\<close>

section \<open>Texts of errors\<close>

fun dpop_error_display :: "DpopError \<Rightarrow> str" where
  "dpop_error_display MissingProof = ''DPoP proof missing''"
| "dpop_error_display AmbiguousProof = ''ambiguous DPoP proof''"
| "dpop_error_display MalformedProof = ''malformed DPoP proof''"
| "dpop_error_display ProofTooLarge = ''DPoP proof exceeds size limit''"
| "dpop_error_display UnsupportedAlgorithm = ''unsupported DPoP algorithm''"
| "dpop_error_display UnsupportedKey = ''unsupported DPoP public key''"
| "dpop_error_display InvalidSignature = ''invalid DPoP signature''"
| "dpop_error_display MethodMismatch = ''DPoP method mismatch''"
| "dpop_error_display TargetMismatch = ''DPoP target mismatch''"
| "dpop_error_display ProofExpired = ''DPoP proof expired''"
| "dpop_error_display ProofFromFuture = ''DPoP proof is from the future''"
| "dpop_error_display AccessTokenHashMissing = ''DPoP access-token hash missing''"
| "dpop_error_display AccessTokenHashMismatch = ''DPoP access-token hash mismatch''"
| "dpop_error_display NonceRequired = ''DPoP nonce required''"
| "dpop_error_display NonceMismatch = ''DPoP nonce mismatch''"
| "dpop_error_display ReplayDetected = ''DPoP replay detected''"
| "dpop_error_display ReplayStoreUnavailable = ''DPoP replay store unavailable''"
| "dpop_error_display SignerFailure = ''DPoP signer failure''"
| "dpop_error_display ClockUnavailable = ''DPoP clock unavailable''"
| "dpop_error_display ProofIdUnavailable = ''DPoP proof identifier unavailable''"
| "dpop_error_display InvalidRequestTarget = ''invalid effective request target''"
| "dpop_error_display InvalidMethod = ''invalid HTTP method''"
| "dpop_error_display InvalidPolicy = ''invalid DPoP verification policy''"

text \<open>The derived \<open>Debug\<close> of \<open>DpopError\<close>.\<close>

fun dpop_error_debug :: "DpopError \<Rightarrow> str" where
  "dpop_error_debug MissingProof = ''MissingProof''"
| "dpop_error_debug AmbiguousProof = ''AmbiguousProof''"
| "dpop_error_debug MalformedProof = ''MalformedProof''"
| "dpop_error_debug ProofTooLarge = ''ProofTooLarge''"
| "dpop_error_debug UnsupportedAlgorithm = ''UnsupportedAlgorithm''"
| "dpop_error_debug UnsupportedKey = ''UnsupportedKey''"
| "dpop_error_debug InvalidSignature = ''InvalidSignature''"
| "dpop_error_debug MethodMismatch = ''MethodMismatch''"
| "dpop_error_debug TargetMismatch = ''TargetMismatch''"
| "dpop_error_debug ProofExpired = ''ProofExpired''"
| "dpop_error_debug ProofFromFuture = ''ProofFromFuture''"
| "dpop_error_debug AccessTokenHashMissing = ''AccessTokenHashMissing''"
| "dpop_error_debug AccessTokenHashMismatch = ''AccessTokenHashMismatch''"
| "dpop_error_debug NonceRequired = ''NonceRequired''"
| "dpop_error_debug NonceMismatch = ''NonceMismatch''"
| "dpop_error_debug ReplayDetected = ''ReplayDetected''"
| "dpop_error_debug ReplayStoreUnavailable = ''ReplayStoreUnavailable''"
| "dpop_error_debug SignerFailure = ''SignerFailure''"
| "dpop_error_debug ClockUnavailable = ''ClockUnavailable''"
| "dpop_error_debug ProofIdUnavailable = ''ProofIdUnavailable''"
| "dpop_error_debug InvalidRequestTarget = ''InvalidRequestTarget''"
| "dpop_error_debug InvalidMethod = ''InvalidMethod''"
| "dpop_error_debug InvalidPolicy = ''InvalidPolicy''"

datatype AiAdversaryError = AiAdversaryError str

definition protocol_error :: "DpopError \<Rightarrow> AiAdversaryError" where
  "protocol_error error_value = AiAdversaryError (''deterministic evaluator failure: '' @ dpop_error_display error_value)"

section \<open>Candidates\<close>

definition MAX_CANDIDATES :: nat where
  "MAX_CANDIDATES = 16"

definition MAX_ID_BYTES :: nat where
  "MAX_ID_BYTES = 64"

datatype MutationKind =
    Mutate_MethodMismatch
  | Mutate_TargetMismatch
  | Mutate_QueryVariationIgnored
  | Mutate_AccessTokenMismatch
  | Mutate_NonceMismatch
  | Mutate_ReplaySameProof

record Candidate =
  cand_id :: str
  cand_mutation :: MutationKind

record CandidateBatch =
  batch_candidates :: "Candidate list"

datatype ObservedOutcome = Observed_Verified | Observed_Rejected DpopError

record Evaluation =
  el_id :: str
  el_mutation :: MutationKind
  el_observed :: ObservedOutcome
  el_novel_dimension :: bool

definition from_schema_value :: "str \<Rightarrow> AiAdversaryError + MutationKind" where
  "from_schema_value v =
     (if v = ''method_mismatch'' then Inr Mutate_MethodMismatch
      else if v = ''target_mismatch'' then Inr Mutate_TargetMismatch
      else if v = ''query_variation_ignored'' then Inr Mutate_QueryVariationIgnored
      else if v = ''access_token_mismatch'' then Inr Mutate_AccessTokenMismatch
      else if v = ''nonce_mismatch'' then Inr Mutate_NonceMismatch
      else if v = ''replay_same_proof'' then Inr Mutate_ReplaySameProof
      else Inl (AiAdversaryError ''unsupported semantic mutation''))"

definition previously_covered :: "MutationKind \<Rightarrow> bool" where
  "previously_covered m \<longleftrightarrow> m \<noteq> Mutate_QueryVariationIgnored"

definition is_identifier_byte :: "u8 \<Rightarrow> bool" where
  "is_identifier_byte b \<longleftrightarrow> is_ascii_alphanumeric b \<or> b = byte_of (CHR ''-'') \<or> b = byte_of (CHR ''_'')"

definition validate_identifier :: "str \<Rightarrow> AiAdversaryError + unit" where
  "validate_identifier i =
     (if i = [] \<or> length i > MAX_ID_BYTES
      then Inl (AiAdversaryError ''candidate identifier is outside the accepted bounds'')
      else if \<not> list_all (\<lambda>c. is_identifier_byte (byte_of c)) i
      then Inl (AiAdversaryError ''candidate identifier contains unsupported characters'')
      else Inr ())"

definition tab :: char where
  "tab = CHR 0x09"

text \<open>One line of \<open>parse_canonical\<close>; \<open>split\<close> gives at least one field.\<close>

definition parse_record :: "str \<Rightarrow> AiAdversaryError + Candidate" where
  "parse_record line =
     (if line = [] then Inl (AiAdversaryError ''blank canonical candidate record'')
      else
      (case str_split tab line of
         [] \<Rightarrow> Inl (AiAdversaryError ''candidate identifier missing'')
       | [i] \<Rightarrow> Inl (AiAdversaryError ''candidate mutation missing'')
       | [i, mutation] \<Rightarrow>
           bindE (validate_identifier i) (\<lambda>_.
           bindE (from_schema_value mutation) (\<lambda>m.
             Inr \<lparr>cand_id = i, cand_mutation = m\<rparr>))
       | _ \<Rightarrow> Inl (AiAdversaryError ''canonical candidate record has extra fields'')))"

fun parse_records :: "str list \<Rightarrow> AiAdversaryError + Candidate list" where
  "parse_records [] = Inr []"
| "parse_records (line # rest) =
     bindE (parse_record line) (\<lambda>c. bindE (parse_records rest) (\<lambda>cs. Inr (c # cs)))"

text \<open>The loop of \<open>validate\<close>, with the identifiers and mutations seen so far.\<close>

fun validate_candidates :: "str list \<Rightarrow> MutationKind list \<Rightarrow> Candidate list \<Rightarrow> AiAdversaryError + unit" where
  "validate_candidates ids mutations [] = Inr ()"
| "validate_candidates ids mutations (c # cs) =
     bindE (validate_identifier (cand_id c)) (\<lambda>_.
       if cand_id c \<in> set ids then Inl (AiAdversaryError ''duplicate candidate identifier'')
       else if cand_mutation c \<in> set mutations then Inl (AiAdversaryError ''duplicate semantic mutation'')
       else validate_candidates (cand_id c # ids) (cand_mutation c # mutations) cs)"

definition validate_batch :: "CandidateBatch \<Rightarrow> AiAdversaryError + unit" where
  "validate_batch batch =
     (if batch_candidates batch = [] \<or> length (batch_candidates batch) > MAX_CANDIDATES
      then Inl (AiAdversaryError ''candidate count is outside the accepted bounds'')
      else validate_candidates [] [] (batch_candidates batch))"

definition parse_canonical :: "str \<Rightarrow> AiAdversaryError + CandidateBatch" where
  "parse_canonical input =
     bindE (parse_records (str_lines input)) (\<lambda>candidates.
     bindE (validate_batch \<lparr>batch_candidates = candidates\<rparr>) (\<lambda>_.
       Inr \<lparr>batch_candidates = candidates\<rparr>))"

section \<open>Evaluation\<close>

text \<open>What one \<open>build_proof\<close> takes from its environment: the public key of the generated pair, its
  signing function, and the random bytes of the proof identifier.\<close>

record key_material =
  km_key_pair :: "bytes option"
  km_sign :: "bytes \<Rightarrow> DpopPortError + bytes"
  km_random :: "bytes option"

definition FIXED_CLOCK :: i64 where
  "FIXED_CLOCK = 1700000000"

definition build_proof :: "externs \<Rightarrow> key_material \<Rightarrow> DpopRequest \<Rightarrow> AiAdversaryError + str" where
  "build_proof X km request =
     bindE (map_err protocol_error (signer_generate X (km_key_pair km))) (\<lambda>jwk.
     bindE (map_err protocol_error
              (dpop_build X (Inr FIXED_CLOCK) (random_proof_id_generate X (km_random km)) jwk (km_sign km) request))
       (\<lambda>p. Inr (proof_header_value p)))"

definition verify_once :: "externs \<Rightarrow> str \<Rightarrow> DpopRequest \<Rightarrow> AiAdversaryError + (DpopError + unit)" where
  "verify_once X p request =
     bindE (map_err protocol_error (unverified_parse X p)) (\<lambda>parsed.
     bindE (map_err protocol_error (replay_store_new 8)) (\<lambda>replay.
       Inr (map_ok (\<lambda>_. ())
         (fst (dpop_verify X policy_default (Inr FIXED_CLOCK) (replay_check_and_record (Inr FIXED_CLOCK)) parsed request replay)))))"

definition expect_rejection :: "externs \<Rightarrow> str \<Rightarrow> DpopRequest \<Rightarrow> DpopError \<Rightarrow> AiAdversaryError + ObservedOutcome" where
  "expect_rejection X p request expected =
     bindE (verify_once X p request) (\<lambda>r.
       case r of
         Inl observed \<Rightarrow>
           if observed = expected then Inr (Observed_Rejected observed)
           else Inl (AiAdversaryError (''expected '' @ dpop_error_display expected @ '' but observed '' @ dpop_error_display observed))
       | Inr _ \<Rightarrow> Inl (AiAdversaryError ''adversarial candidate unexpectedly verified''))"

definition expect_verification :: "externs \<Rightarrow> str \<Rightarrow> DpopRequest \<Rightarrow> AiAdversaryError + ObservedOutcome" where
  "expect_verification X p request =
     bindE (verify_once X p request) (\<lambda>r.
       case r of
         Inr _ \<Rightarrow> Inr Observed_Verified
       | Inl observed \<Rightarrow> Inl (AiAdversaryError (''candidate unexpectedly rejected with '' @ dpop_error_display observed)))"

definition evaluate_method_mismatch :: "externs \<Rightarrow> key_material \<Rightarrow> AiAdversaryError + ObservedOutcome" where
  "evaluate_method_mismatch X km =
     bindE (map_err protocol_error (target_parse ''https://api.example.test/resource'')) (\<lambda>target.
     bindE (map_err protocol_error (dpop_request_new ''GET'' target)) (\<lambda>proof_request.
     bindE (build_proof X km proof_request) (\<lambda>p.
     bindE (map_err protocol_error (dpop_request_new ''POST'' target)) (\<lambda>verification_request.
       expect_rejection X p verification_request MethodMismatch))))"

definition evaluate_target_mismatch :: "externs \<Rightarrow> key_material \<Rightarrow> AiAdversaryError + ObservedOutcome" where
  "evaluate_target_mismatch X km =
     bindE (map_err protocol_error (target_parse ''https://api.example.test/resource'')) (\<lambda>proof_target.
     bindE (map_err protocol_error (target_parse ''https://api.example.test/other'')) (\<lambda>other_target.
     bindE (map_err protocol_error (dpop_request_new ''GET'' proof_target)) (\<lambda>proof_request.
     bindE (build_proof X km proof_request) (\<lambda>p.
     bindE (map_err protocol_error (dpop_request_new ''GET'' other_target)) (\<lambda>verification_request.
       expect_rejection X p verification_request TargetMismatch)))))"

definition evaluate_query_variation_ignored :: "externs \<Rightarrow> key_material \<Rightarrow> AiAdversaryError + ObservedOutcome" where
  "evaluate_query_variation_ignored X km =
     bindE (map_err protocol_error (target_parse ''https://api.example.test/resource?a=1&b=2'')) (\<lambda>proof_target.
     bindE (map_err protocol_error (target_parse ''https://api.example.test/resource?b=2&a=1'')) (\<lambda>reordered.
     bindE (map_err protocol_error (dpop_request_new ''GET'' proof_target)) (\<lambda>proof_request.
     bindE (build_proof X km proof_request) (\<lambda>p.
     bindE (map_err protocol_error (dpop_request_new ''GET'' reordered)) (\<lambda>verification_request.
       expect_verification X p verification_request)))))"

definition evaluate_access_token_mismatch :: "externs \<Rightarrow> key_material \<Rightarrow> AiAdversaryError + ObservedOutcome" where
  "evaluate_access_token_mismatch X km =
     bindE (map_err protocol_error (target_parse ''https://api.example.test/resource'')) (\<lambda>target.
     bindE (map_err protocol_error (dpop_request_new ''GET'' target)) (\<lambda>r.
     bindE (build_proof X km (with_access_token (as_bytes ''synthetic-token-a'') r)) (\<lambda>p.
     bindE (map_err protocol_error (dpop_request_new ''GET'' target)) (\<lambda>r.
       expect_rejection X p (with_access_token (as_bytes ''synthetic-token-b'') r) AccessTokenHashMismatch))))"

definition evaluate_nonce_mismatch :: "externs \<Rightarrow> key_material \<Rightarrow> AiAdversaryError + ObservedOutcome" where
  "evaluate_nonce_mismatch X km =
     bindE (map_err protocol_error (target_parse ''https://api.example.test/resource'')) (\<lambda>target.
     bindE (map_err protocol_error (nonce_new ''synthetic-nonce-a'')) (\<lambda>proof_nonce.
     bindE (map_err protocol_error (nonce_new ''synthetic-nonce-b'')) (\<lambda>other_nonce.
     bindE (map_err protocol_error (dpop_request_new ''GET'' target)) (\<lambda>r.
     bindE (build_proof X km (with_nonce proof_nonce r)) (\<lambda>p.
     bindE (map_err protocol_error (dpop_request_new ''GET'' target)) (\<lambda>r.
       expect_rejection X p (with_nonce other_nonce r) NonceMismatch))))))"

definition evaluate_replay :: "externs \<Rightarrow> key_material \<Rightarrow> AiAdversaryError + ObservedOutcome" where
  "evaluate_replay X km =
     bindE (map_err protocol_error (target_parse ''https://api.example.test/resource'')) (\<lambda>target.
     bindE (map_err protocol_error (dpop_request_new ''GET'' target)) (\<lambda>request.
     bindE (build_proof X km request) (\<lambda>p.
     bindE (map_err protocol_error (unverified_parse X p)) (\<lambda>parsed.
     bindE (map_err protocol_error (replay_store_new 8)) (\<lambda>replay.
     let verify = dpop_verify X policy_default (Inr FIXED_CLOCK) (replay_check_and_record (Inr FIXED_CLOCK)) parsed request in
     case verify replay of
       (first, replay) \<Rightarrow>
         bindE (map_err protocol_error first) (\<lambda>_.
           case fst (verify replay) of
             Inl e \<Rightarrow>
               if e = ReplayDetected then Inr (Observed_Rejected ReplayDetected)
               else Inl (AiAdversaryError (''expected replay detection but observed '' @ dpop_error_display e))
           | Inr _ \<Rightarrow> Inl (AiAdversaryError ''replayed proof unexpectedly verified'')))))))"

definition evaluate_candidate :: "externs \<Rightarrow> key_material \<Rightarrow> Candidate \<Rightarrow> AiAdversaryError + Evaluation" where
  "evaluate_candidate X km candidate =
     bindE (case cand_mutation candidate of
              Mutate_MethodMismatch \<Rightarrow> evaluate_method_mismatch X km
            | Mutate_TargetMismatch \<Rightarrow> evaluate_target_mismatch X km
            | Mutate_QueryVariationIgnored \<Rightarrow> evaluate_query_variation_ignored X km
            | Mutate_AccessTokenMismatch \<Rightarrow> evaluate_access_token_mismatch X km
            | Mutate_NonceMismatch \<Rightarrow> evaluate_nonce_mismatch X km
            | Mutate_ReplaySameProof \<Rightarrow> evaluate_replay X km) (\<lambda>observed.
       Inr \<lparr>el_id = cand_id candidate, el_mutation = cand_mutation candidate, el_observed = observed,
            el_novel_dimension = (\<not> previously_covered (cand_mutation candidate))\<rparr>)"

text \<open>\<open>map(..).collect()\<close>: the first error ends it; the \<open>n\<close>-th evaluation has key material of its own.\<close>

fun evaluate_candidates :: "externs \<Rightarrow> (nat \<Rightarrow> key_material) \<Rightarrow> nat \<Rightarrow> Candidate list \<Rightarrow> AiAdversaryError + Evaluation list" where
  "evaluate_candidates X material n [] = Inr []"
| "evaluate_candidates X material n (c # cs) =
     bindE (evaluate_candidate X (material n) c) (\<lambda>e.
     bindE (evaluate_candidates X material (n + 1) cs) (\<lambda>es. Inr (e # es)))"

definition evaluate :: "externs \<Rightarrow> (nat \<Rightarrow> key_material) \<Rightarrow> CandidateBatch \<Rightarrow> AiAdversaryError + Evaluation list" where
  "evaluate X material batch =
     bindE (validate_batch batch) (\<lambda>_. evaluate_candidates X material 0 (batch_candidates batch))"

section \<open>The program\<close>

fun mutation_debug :: "MutationKind \<Rightarrow> str" where
  "mutation_debug Mutate_MethodMismatch = ''MethodMismatch''"
| "mutation_debug Mutate_TargetMismatch = ''TargetMismatch''"
| "mutation_debug Mutate_QueryVariationIgnored = ''QueryVariationIgnored''"
| "mutation_debug Mutate_AccessTokenMismatch = ''AccessTokenMismatch''"
| "mutation_debug Mutate_NonceMismatch = ''NonceMismatch''"
| "mutation_debug Mutate_ReplaySameProof = ''ReplaySameProof''"

fun outcome_debug :: "ObservedOutcome \<Rightarrow> str" where
  "outcome_debug Observed_Verified = ''Verified''"
| "outcome_debug (Observed_Rejected e) = ''Rejected('' @ dpop_error_debug e @ '')''"

definition evaluation_line :: "Evaluation \<Rightarrow> str" where
  "evaluation_line e =
     el_id e @ [tab] @ mutation_debug (el_mutation e) @ [tab] @ outcome_debug (el_observed e) @ [tab] @
     (if el_novel_dimension e then ''novel-dimension'' else ''covered-dimension'')"

text \<open>The lines printed for the text read from standard input.\<close>

definition candidate_check :: "externs \<Rightarrow> (nat \<Rightarrow> key_material) \<Rightarrow> str \<Rightarrow> AiAdversaryError + str list" where
  "candidate_check X material input =
     bindE (parse_canonical input) (\<lambda>batch.
     bindE (evaluate X material batch) (\<lambda>results. Inr (map evaluation_line results)))"

section \<open>Batches\<close>

fun schema_value :: "MutationKind \<Rightarrow> str" where
  "schema_value Mutate_MethodMismatch = ''method_mismatch''"
| "schema_value Mutate_TargetMismatch = ''target_mismatch''"
| "schema_value Mutate_QueryVariationIgnored = ''query_variation_ignored''"
| "schema_value Mutate_AccessTokenMismatch = ''access_token_mismatch''"
| "schema_value Mutate_NonceMismatch = ''nonce_mismatch''"
| "schema_value Mutate_ReplaySameProof = ''replay_same_proof''"

definition canonical_record :: "Candidate \<Rightarrow> str" where
  "canonical_record c = cand_id c @ tab # schema_value (cand_mutation c)"

definition valid_identifier :: "str \<Rightarrow> bool" where
  "valid_identifier i \<longleftrightarrow> 1 \<le> length i \<and> length i \<le> 64 \<and> list_all (\<lambda>c. is_identifier_byte (byte_of c)) i"

lemma from_schema_value_Inr_iff [result_simps]: "from_schema_value v = Inr m \<longleftrightarrow> v = schema_value m"
  by (cases m) (auto simp: from_schema_value_def)

lemma validate_identifier_Inr_iff [result_simps]: "validate_identifier i = Inr u \<longleftrightarrow> valid_identifier i"
  by (cases i) (auto simp: validate_identifier_def valid_identifier_def MAX_ID_BYTES_def)

lemma identifier_no_tab: "valid_identifier i \<Longrightarrow> tab \<notin> set i"
proof -
  have "\<not> is_identifier_byte (byte_of tab)" by code_simp
  then show "valid_identifier i \<Longrightarrow> tab \<notin> set i"
    by (auto simp: valid_identifier_def list_all_iff)
qed

lemma schema_value_no_tab: "tab \<notin> set (schema_value m)"
  by (cases m) (simp_all add: tab_def)

lemma parse_record_Inr_iff [result_simps]:
  "parse_record line = Inr c \<longleftrightarrow> line = canonical_record c \<and> valid_identifier (cand_id c)"
proof
  assume "parse_record line = Inr c"
  then obtain i v where iv: "str_split tab line = [i, v]" "validate_identifier i = Inr ()"
    "from_schema_value v = Inr (cand_mutation c)" "cand_id c = i"
    by (auto simp: parse_record_def result_simps split: list.splits if_splits)
  then show "line = canonical_record c \<and> valid_identifier (cand_id c)"
    using str_split_join [OF iv(1)] by (simp add: canonical_record_def result_simps)
next
  assume c: "line = canonical_record c \<and> valid_identifier (cand_id c)"
  then have "str_split tab line = [cand_id c, schema_value (cand_mutation c)]"
    using identifier_no_tab schema_value_no_tab
    by (simp add: canonical_record_def str_split_append str_split_no_sep)
  then show "parse_record line = Inr c"
    using c by (auto simp: parse_record_def result_simps canonical_record_def)
qed

lemma parse_records_Inr_iff [result_simps]:
  "parse_records ls = Inr cs \<longleftrightarrow> ls = map canonical_record cs \<and> list_all (\<lambda>c. valid_identifier (cand_id c)) cs"
proof (induction ls arbitrary: cs)
  case (Cons l ls)
  have "parse_records (l # ls) = Inr cs \<longleftrightarrow>
      (\<exists>c cs'. parse_record l = Inr c \<and> parse_records ls = Inr cs' \<and> cs = c # cs')"
    by (auto simp: bindE_Inr_iff)
  then show ?case
    unfolding parse_record_Inr_iff Cons.IH by (cases cs) auto
qed auto

lemma validate_candidates_Inr_iff:
  "validate_candidates ids ms cs = Inr u \<longleftrightarrow>
     list_all (\<lambda>c. valid_identifier (cand_id c)) cs \<and>
     distinct (map cand_id cs) \<and> set (map cand_id cs) \<inter> set ids = {} \<and>
     distinct (map cand_mutation cs) \<and> set (map cand_mutation cs) \<inter> set ms = {}"
  by (induction ids ms cs rule: validate_candidates.induct) (auto simp: result_simps)

lemma validate_batch_Inr_iff [result_simps]:
  "validate_batch batch = Inr u \<longleftrightarrow>
     1 \<le> length (batch_candidates batch) \<and> length (batch_candidates batch) \<le> 16 \<and>
     list_all (\<lambda>c. valid_identifier (cand_id c)) (batch_candidates batch) \<and>
     distinct (map cand_id (batch_candidates batch)) \<and> distinct (map cand_mutation (batch_candidates batch))"
  by (cases "batch_candidates batch") 
    (auto simp: validate_batch_def validate_candidates_Inr_iff MAX_CANDIDATES_def simp del: validate_candidates.simps)

section \<open>The contract of the evaluator\<close>

text \<open>The outcome the protocol prescribes for each mutation.\<close>

fun contract_outcome :: "MutationKind \<Rightarrow> ObservedOutcome" where
  "contract_outcome Mutate_MethodMismatch = Observed_Rejected MethodMismatch"
| "contract_outcome Mutate_TargetMismatch = Observed_Rejected TargetMismatch"
| "contract_outcome Mutate_QueryVariationIgnored = Observed_Verified"
| "contract_outcome Mutate_AccessTokenMismatch = Observed_Rejected AccessTokenHashMismatch"
| "contract_outcome Mutate_NonceMismatch = Observed_Rejected NonceMismatch"
| "contract_outcome Mutate_ReplaySameProof = Observed_Rejected ReplayDetected"

text \<open>The requests for which the evaluator builds proofs.\<close>

definition resource :: EffectiveRequestTarget where
  "resource = EffectiveRequestTarget ''https://api.example.test/resource''"

definition plain_request :: DpopRequest where
  "plain_request = \<lparr>req_method = ''GET'', req_target = resource, req_access_token = None, req_nonce = None\<rparr>"

definition evaluator_requests :: "DpopRequest list" where
  "evaluator_requests =
     [plain_request, with_access_token (as_bytes ''synthetic-token-a'') plain_request,
      with_nonce (DpopNonce ''synthetic-nonce-a'') plain_request]"

text \<open>What the JSON library must do for a proof to be read: the documents round-trip, and with the
  86 characters of the signature their encodings stay within the bounds.\<close>

definition documents_readable :: "externs \<Rightarrow> PublicP256Jwk \<Rightarrow> json \<Rightarrow> bool" where
  "documents_readable X jwk claims \<longleftrightarrow>
     json_roundtrips X (header_build X jwk) \<and> json_roundtrips X claims \<and>
     json_roundtrips X (to_value (jwk_serialize X jwk)) \<and>
     js_print X (header_build X jwk) \<noteq> [] \<and> js_print X claims \<noteq> [] \<and>
     length (js_print X (header_build X jwk)) \<le> MAX_HEADER_BYTES \<and>
     length (js_print X claims) \<le> MAX_PAYLOAD_BYTES \<and>
     length (b64_encode X (js_print X (header_build X jwk))) + length (b64_encode X (js_print X claims)) + 88 \<le> MAX_PROOF_BYTES"

text \<open>Key material that works: a key pair, 16 random bytes, and signatures that the library verifies
  under the key.\<close>

definition works :: "externs \<Rightarrow> key_material \<Rightarrow> bool" where
  "works X km \<longleftrightarrow>
     (\<exists>jwk random. signer_generate X (km_key_pair km) = Inr jwk \<and>
        km_random km = Some random \<and> length random = GENERATED_PROOF_ID_BYTES \<and>
        (\<forall>m. \<exists>s. km_sign km m = Inr s \<and> is_ok (verify_es256_signature X jwk m s)) \<and>
        list_all (\<lambda>r. documents_readable X jwk (built_claims X r (ProofId (b64_encode X random)) FIXED_CLOCK))
          evaluator_requests)"

lemma evaluator_targets:
  "target_parse ''https://api.example.test/resource'' = Inr resource"
  "target_parse ''https://api.example.test/other'' = Inr (EffectiveRequestTarget ''https://api.example.test/other'')"
  by code_simp+

lemma query_ignored:
  assumes "is_ascii (CHR ''?'' # q)" "list_all target_byte_ok (CHR ''?'' # q)" "length q \<le> 100"
  shows "target_parse (''https://api.example.test/resource?'' @ q) = Inr resource"
  using target_parse_ignores_query [of "CHR ''?''" "''https://api.example.test/resource''" q] assms
  by (simp add: evaluator_targets MAX_TARGET_BYTES_def)

lemma evaluator_inputs:
  "target_parse ''https://api.example.test/resource?a=1&b=2'' = Inr resource"
  "target_parse ''https://api.example.test/resource?b=2&a=1'' = Inr resource"
  "dpop_request_new ''GET'' t = Inr (plain_request\<lparr>req_target := t\<rparr>)"
  "dpop_request_new ''POST'' t = Inr (plain_request\<lparr>req_target := t, req_method := ''POST''\<rparr>)"
  "nonce_new ''synthetic-nonce-a'' = Inr (DpopNonce ''synthetic-nonce-a'')"
  "nonce_new ''synthetic-nonce-b'' = Inr (DpopNonce ''synthetic-nonce-b'')"
proof -
  have "is_ascii ''?a=1&b=2''" "list_all target_byte_ok ''?a=1&b=2''" "is_ascii ''?b=2&a=1''" "list_all target_byte_ok ''?b=2&a=1''"
    "validate_method ''GET'' = Inr ()" "validate_method ''POST'' = Inr ()"
    by code_simp+
  then show
    "target_parse ''https://api.example.test/resource?a=1&b=2'' = Inr resource"
    "target_parse ''https://api.example.test/resource?b=2&a=1'' = Inr resource"
    "dpop_request_new ''GET'' t = Inr (plain_request\<lparr>req_target := t\<rparr>)"
    "dpop_request_new ''POST'' t = Inr (plain_request\<lparr>req_target := t, req_method := ''POST''\<rparr>)"
    using query_ignored [of "''a=1&b=2''"] query_ignored [of "''b=2&a=1''"]
    by (simp_all add: dpop_request_new_def plain_request_def)
qed (simp_all add: nonce_new_def MAX_NONCE_BYTES_def)

lemma plain_request_target [simp]: "plain_request\<lparr>req_target := resource\<rparr> = plain_request"
  by (simp add: plain_request_def)

lemma evaluator_requests_wf:
  assumes "r \<in> set evaluator_requests"
  shows "wf_request r"
proof -
  have "is_ok (validate_method ''GET'')" by code_simp
  moreover have "length (target_str resource) \<le> MAX_TARGET_BYTES"
    by (simp add: resource_def MAX_TARGET_BYTES_def)
  ultimately show ?thesis
    using assms evaluator_targets(1) evaluator_inputs(5)
    by (auto simp: evaluator_requests_def plain_request_def wf_request_def with_access_token_def with_nonce_def is_ok_iff)
qed

text \<open>What a built proof of the evaluator gives: it parses, it passes for its request, and its replay
  key can be derived.\<close>

lemma evaluator_proof:
  assumes laws: "b64_law X" "sha256_law X" and km: "works X km" and req: "r \<in> set evaluator_requests"
  obtains v p key where "build_proof X km r = Inr v" "unverified_parse X v = Inr p"
    "proof_checks X policy_default FIXED_CLOCK p r" "clm_iat (up_claims p) = FIXED_CLOCK"
    "derive_replay_key X (thumbprint X (up_public_jwk p)) (req_method r) (req_target r) (clm_jti (up_claims p)) = Inr key"
proof -
  obtain jwk random where gen: "signer_generate X (km_key_pair km) = Inr jwk"
    and random: "km_random km = Some random" "length random = GENERATED_PROOF_ID_BYTES"
    and sign: "\<forall>m. \<exists>s. km_sign km m = Inr s \<and> is_ok (verify_es256_signature X jwk m s)"
    and docs: "documents_readable X jwk (built_claims X r (ProofId (b64_encode X random)) FIXED_CLOCK)"
    using km req by (auto simp: works_def list_all_iff)
  let ?pid = "ProofId (b64_encode X random)"
  have pid: "random_proof_id_generate X (km_random km) = Inr ?pid" "is_ok (proof_id_new (proof_id_str ?pid))"
    using random_proof_id_ok [OF laws(1) random(2)] random(1)
    by (auto simp: random_proof_id_generate_def result_simps)
  let ?inp = "b64_encode X (js_print X (header_build X jwk)) @ ''.'' @ b64_encode X (js_print X (built_claims X r ?pid FIXED_CLOCK))"
  obtain s where s: "km_sign km (as_bytes ?inp) = Inr s" "is_ok (verify_es256_signature X jwk (as_bytes ?inp) s)"
    using sign by blast
  let ?proof = "DpopProof (?inp @ ''.'' @ b64_encode X s)"
  have built: "dpop_build X (Inr FIXED_CLOCK) (Inr ?pid) jwk (km_sign km) r = Inr ?proof"
    using s by (simp add: dpop_build_Inr_iff Let_def FIXED_CLOCK_def)
  have "length (b64_encode X s) = 86"
    using s(2) b64_encode_length [OF laws(1), of s] by (auto simp: result_simps ES256_SIGNATURE_BYTES_def)
  then have readable: "build_readable X jwk (built_claims X r ?pid FIXED_CLOCK) ?proof"
    using docs by (simp add: documents_readable_def build_readable_def)
  obtain p where p: "unverified_parse X (proof_header_value ?proof) = Inr p" "clm_iat (up_claims p) = FIXED_CLOCK"
    "clm_jti (up_claims p) = proof_id_str ?pid" "proof_checks X policy_default FIXED_CLOCK p r"
    using build_parse [OF laws signer_generate_wf [OF gen] evaluator_requests_wf [OF req] pid(2) _ built readable]
    by (force simp: in_i64_def policy_default_def FIXED_CLOCK_def parse_dpop_header_values_Inr_iff)
  obtain key where "derive_replay_key X (thumbprint X (up_public_jwk p)) (req_method r) (req_target r)
      (clm_jti (up_claims p)) = Inr key"
    using replay_key_exists [OF evaluator_requests_wf [OF req] laws(2), of "clm_jti (up_claims p)" "up_public_jwk p"] pid(2) p(3)
    by (auto simp: proof_id_new_def is_ok_iff split: if_splits)
  moreover have "build_proof X km r = Inr (proof_header_value ?proof)"
    using gen pid(1) built by (simp add: build_proof_def)
  ultimately show thesis
    using that p by blast
qed

text \<open>A refusal before the replay store is the observed outcome.\<close>

lemma expect_rejection_observed:
  assumes "unverified_parse X v = Inr p" "verify_before_replay X policy_default (Inr FIXED_CLOCK) p r = Inl e"
  shows "expect_rejection X v r e = Inr (Observed_Rejected e)"
  using assms by (simp add: expect_rejection_def verify_once_def replay_store_new_def dpop_verify_def)

text \<open>A proof that passes for one request fails for one that differs in a single point, with the
  error of that point.\<close>

lemma refused_for_other:
  assumes "proof_checks X policy now p r"
  shows "m \<noteq> req_method r \<Longrightarrow> verify_before_replay X policy (Inr now) p (r\<lparr>req_method := m\<rparr>) = Inl MethodMismatch"
    and "t \<noteq> req_target r \<Longrightarrow> verify_before_replay X policy (Inr now) p (r\<lparr>req_target := t\<rparr>) = Inl TargetMismatch"
    and "req_nonce r = Some n \<Longrightarrow> n' \<noteq> n \<Longrightarrow>
      verify_before_replay X policy (Inr now) p (r\<lparr>req_nonce := Some n'\<rparr>) = Inl NonceMismatch"
    and "req_access_token r = Some k \<Longrightarrow> access_token_hash X k' \<noteq> access_token_hash X k \<Longrightarrow>
      verify_before_replay X policy (Inr now) p (r\<lparr>req_access_token := Some k'\<rparr>) = Inl AccessTokenHashMismatch"
  using assms
  by (auto simp: proof_checks_def verify_before_replay_def verify_es256_signature_def verify_freshness_def
      verify_nonce_def verify_access_token_hash_def Let_def nonce_str_def split: option.splits DpopNonce.splits)

lemma token_hashes_differ:
  assumes "b64_law X" "sha256 X a \<noteq> sha256 X b"
  shows "access_token_hash X b \<noteq> access_token_hash X a"
  using b64_decode_encode [OF assms(1)] assms(2) unfolding access_token_hash_def by (metis option.inject)

lemma evaluate_access_token_mismatch_rejected:
  assumes laws: "b64_law X" "sha256_law X" and km: "works X km"
    and differ: "sha256 X (as_bytes ''synthetic-token-a'') \<noteq> sha256 X (as_bytes ''synthetic-token-b'')"
  shows "evaluate_access_token_mismatch X km = Inr (Observed_Rejected AccessTokenHashMismatch)"
proof -
  let ?r = "with_access_token (as_bytes ''synthetic-token-a'') plain_request"
  have "?r \<in> set evaluator_requests" by (simp add: evaluator_requests_def)
  from evaluator_proof [OF laws km this] obtain v p where v: "build_proof X km ?r = Inr v" "unverified_parse X v = Inr p"
    and checks: "proof_checks X policy_default FIXED_CLOCK p ?r"
    by blast
  have "expect_rejection X v (?r\<lparr>req_access_token := Some (as_bytes ''synthetic-token-b'')\<rparr>) AccessTokenHashMismatch =
      Inr (Observed_Rejected AccessTokenHashMismatch)"
    by (rule expect_rejection_observed [OF v(2) refused_for_other(4) [OF checks _ token_hashes_differ [OF laws(1) differ]]])
      (simp add: with_access_token_def)
  then show ?thesis
    using v(1) by (simp add: evaluate_access_token_mismatch_def evaluator_targets evaluator_inputs with_access_token_def)
qed

lemma evaluate_nonce_mismatch_rejected:
  assumes laws: "b64_law X" "sha256_law X" and km: "works X km"
  shows "evaluate_nonce_mismatch X km = Inr (Observed_Rejected NonceMismatch)"
proof -
  let ?r = "with_nonce (DpopNonce ''synthetic-nonce-a'') plain_request"
  have "?r \<in> set evaluator_requests" by (simp add: evaluator_requests_def)
  from evaluator_proof [OF laws km this] obtain v p where v: "build_proof X km ?r = Inr v" "unverified_parse X v = Inr p"
    and checks: "proof_checks X policy_default FIXED_CLOCK p ?r"
    by blast
  have "expect_rejection X v (?r\<lparr>req_nonce := Some (DpopNonce ''synthetic-nonce-b'')\<rparr>) NonceMismatch =
      Inr (Observed_Rejected NonceMismatch)"
    by (rule expect_rejection_observed [OF v(2) refused_for_other(3) [OF checks]]) (simp add: with_nonce_def, simp)
  then show ?thesis
    using v(1) by (simp add: evaluate_nonce_mismatch_def evaluator_targets evaluator_inputs with_nonce_def)
qed

lemma plain_outcomes:
  assumes laws: "b64_law X" "sha256_law X" and km: "works X km"
  shows "evaluate_method_mismatch X km = Inr (Observed_Rejected MethodMismatch)"
    and "evaluate_target_mismatch X km = Inr (Observed_Rejected TargetMismatch)"
    and "evaluate_query_variation_ignored X km = Inr Observed_Verified"
    and "evaluate_replay X km = Inr (Observed_Rejected ReplayDetected)"
proof -
  let ?verify = "dpop_verify X policy_default (Inr FIXED_CLOCK) (replay_check_and_record (Inr FIXED_CLOCK))"
  have "plain_request \<in> set evaluator_requests" by (simp add: evaluator_requests_def)
  from evaluator_proof [OF laws km this] obtain v p key where v: "build_proof X km plain_request = Inr v" "unverified_parse X v = Inr p"
    and checks: "proof_checks X policy_default FIXED_CLOCK p plain_request" and iat: "clm_iat (up_claims p) = FIXED_CLOCK"
    and key: "derive_replay_key X (thumbprint X (up_public_jwk p)) (req_method plain_request) (req_target plain_request)
       (clm_jti (up_claims p)) = Inr key"
    by blast
  obtain store where store: "replay_store_new 8 = Inr store"
    by (simp add: replay_store_new_def)
  obtain w store1 where first: "?verify p plain_request store = (Inr w, store1)"
    and second: "fst (?verify p plain_request store1) = Inl ReplayDetected"
    using accepted_then_replay [OF store checks checks order_refl key] iat
    by (auto simp: in_i64_def FIXED_CLOCK_def policy_default_def)
  have "expect_rejection X v (plain_request\<lparr>req_method := ''POST''\<rparr>) MethodMismatch = Inr (Observed_Rejected MethodMismatch)"
    by (rule expect_rejection_observed [OF v(2) refused_for_other(1) [OF checks]]) (simp add: plain_request_def)
  then show "evaluate_method_mismatch X km = Inr (Observed_Rejected MethodMismatch)"
    using v(1) by (simp add: evaluate_method_mismatch_def evaluator_targets evaluator_inputs)
  have "expect_rejection X v (plain_request\<lparr>req_target := EffectiveRequestTarget ''https://api.example.test/other''\<rparr>)
      TargetMismatch = Inr (Observed_Rejected TargetMismatch)"
    by (rule expect_rejection_observed [OF v(2) refused_for_other(2) [OF checks]]) (simp add: plain_request_def resource_def)
  then show "evaluate_target_mismatch X km = Inr (Observed_Rejected TargetMismatch)"
    using v(1) by (simp add: evaluate_target_mismatch_def evaluator_targets evaluator_inputs)
  show "evaluate_query_variation_ignored X km = Inr Observed_Verified"
    using v store first
    by (simp add: evaluate_query_variation_ignored_def expect_verification_def verify_once_def evaluator_inputs)
  show "evaluate_replay X km = Inr (Observed_Rejected ReplayDetected)"
    using v store first second by (simp add: evaluate_replay_def evaluator_targets evaluator_inputs)
qed

lemma evaluate_candidates_contract:
  assumes "b64_law X" "sha256_law X" "\<forall>n. works X (material n)"
    and "sha256 X (as_bytes ''synthetic-token-a'') \<noteq> sha256 X (as_bytes ''synthetic-token-b'')"
  shows "evaluate_candidates X material n cs = Inr (map (\<lambda>c.
    \<lparr>el_id = cand_id c, el_mutation = cand_mutation c, el_observed = contract_outcome (cand_mutation c),
     el_novel_dimension = (cand_mutation c = Mutate_QueryVariationIgnored)\<rparr>) cs)"
proof (induction cs arbitrary: n)
  case (Cons c cs)
  have km: "works X (material n)" using assms(3) by blast
  show ?case
    using Cons plain_outcomes [OF assms(1,2) km] evaluate_nonce_mismatch_rejected [OF assms(1,2) km]
      evaluate_access_token_mismatch_rejected [OF assms(1,2) km assms(4)]
    by (cases "cand_mutation c") (simp_all add: evaluate_candidate_def previously_covered_def)
qed simp

section \<open>Sample key material\<close>

definition conf_claims :: "DpopRequest \<Rightarrow> json" where
  "conf_claims r = built_claims (sample_externs []) r (ProofId (real_b64_encode (replicate 16 0))) FIXED_CLOCK"

definition conf_key_text :: str where
  "conf_key_text = jwk_json_text (real_b64_encode (replicate 32 1)) (real_b64_encode (replicate 32 2))"

definition conf_docs :: "(json \<times> bytes) list" where
  "conf_docs =
     [(header_build (sample_externs []) sample_jwk, [1]),
      (to_value (jwk_serialize (sample_externs []) sample_jwk), [2]),
      (jwk_serialize (sample_externs []) sample_jwk, as_bytes conf_key_text)] @
     zip (map conf_claims evaluator_requests) [[3], [4], [5]]"

abbreviation conf_X :: externs where
  "conf_X \<equiv> sample_externs conf_docs"

definition conf_material :: key_material where
  "conf_material = \<lparr>km_key_pair = Some (4 # replicate 32 1 @ replicate 32 2), km_sign = (\<lambda>_. Inr (replicate 64 7)),
     km_random = Some (replicate 16 0)\<rparr>"

lemma conf_docs_distinct: "distinct (map snd conf_docs)"
  by (simp add: conf_docs_def evaluator_requests_def conf_key_text_def jwk_json_text_def as_bytes_def)

lemma conf_lookup:
  "map_of conf_docs (header_build (sample_externs []) sample_jwk) = Some [1]"
  "map_of conf_docs (to_value (jwk_serialize (sample_externs []) sample_jwk)) = Some [2]"
  "map_of conf_docs (jwk_serialize (sample_externs []) sample_jwk) = Some (as_bytes conf_key_text)"
  "r \<in> set evaluator_requests \<Longrightarrow> \<exists>b. map_of conf_docs (conf_claims r) = Some [b]"
proof -
  have obj: "to_value (jwk_serialize (sample_externs []) sample_jwk) =
      JObj [(''crv'', JStr ''P-256''), (''kty'', JStr ''EC''), (''x'', JStr (b64_encode (sample_externs []) (jwk_x sample_jwk))),
        (''y'', JStr (b64_encode (sample_externs []) (jwk_y sample_jwk)))]"
    by (simp add: jwk_serialize_def)
  note docs = conf_docs_def header_build_def obj evaluator_requests_def conf_claims_def built_claims_def claims_build_def
    optional_member_def plain_request_def with_access_token_def with_nonce_def
  show "map_of conf_docs (header_build (sample_externs []) sample_jwk) = Some [1]"
    by (simp add: conf_docs_def)
  show "map_of conf_docs (to_value (jwk_serialize (sample_externs []) sample_jwk)) = Some [2]"
    by (simp add: docs)
  show "map_of conf_docs (jwk_serialize (sample_externs []) sample_jwk) = Some (as_bytes conf_key_text)"
    by (simp add: docs jwk_serialize_def)
  assume "r \<in> set evaluator_requests"
  then have "r = plain_request \<or> r = with_access_token (as_bytes ''synthetic-token-a'') plain_request \<or>
      r = with_nonce (DpopNonce ''synthetic-nonce-a'') plain_request"
    by (simp add: evaluator_requests_def)
  then show "\<exists>b. map_of conf_docs (conf_claims r) = Some [b]"
    by (elim disjE) (simp_all add: docs, simp_all add: jwk_serialize_def)
qed

lemma conf_signer: "signer_generate conf_X (km_key_pair conf_material) = Inr sample_jwk"
proof -
  have "js_parse conf_X (as_bytes conf_key_text) = Some (jwk_serialize (sample_externs []) sample_jwk)"
    using sample_json_roundtrips [OF conf_docs_distinct conf_lookup(3)] conf_lookup(3)
    by (simp add: json_roundtrips_def sample_externs_sel)
  moreover have "jwk_deserialize conf_X (jwk_serialize conf_X sample_jwk) = Inr sample_jwk"
    using jwk_from_wire_serialize [OF sample_b64_law sample_jwk_wf(1)] by (simp add: jwk_deserialize_def)
  ultimately have "jwk_from_json conf_X conf_key_text = Inr sample_jwk"
    unfolding sample_docs_eq(3) [of conf_docs] by (simp add: jwk_from_json_deserialize)
  then show ?thesis
    by (simp add: signer_generate_def conf_material_def sample_externs_sel conf_key_text_def)
qed

lemma conf_works: "works conf_X conf_material"
proof -
  have "documents_readable conf_X sample_jwk (built_claims conf_X r (ProofId (b64_encode conf_X (replicate 16 0))) FIXED_CLOCK)"
    if r: "r \<in> set evaluator_requests" for r
  proof -
    obtain b where b: "map_of conf_docs (conf_claims r) = Some [b]"
      using conf_lookup(4) [OF r] by blast
    have "built_claims conf_X r (ProofId (b64_encode conf_X (replicate 16 0))) FIXED_CLOCK = conf_claims r"
      unfolding conf_claims_def sample_docs_eq [of conf_docs] sample_externs_sel ..
    moreover have "js_print conf_X (header_build (sample_externs []) sample_jwk) = [1]" "js_print conf_X (conf_claims r) = [b]"
      using conf_lookup(1) b by (simp_all add: sample_externs_sel)
    ultimately show ?thesis
      using sample_json_roundtrips [OF conf_docs_distinct conf_lookup(1)]
        sample_json_roundtrips [OF conf_docs_distinct conf_lookup(2)] sample_json_roundtrips [OF conf_docs_distinct b]
      unfolding documents_readable_def sample_docs_eq [of conf_docs]
      by (simp add: proof_bounds sample_externs_sel real_b64_encode_def)
  qed
  moreover have "verify_es256_signature conf_X sample_jwk m (replicate 64 7) = Inr ()" for m
    using sample_jwk_wf(1) [of conf_docs]
    by (simp add: verify_es256_signature_Inr_iff wf_jwk_def ES256_SIGNATURE_BYTES_def sample_externs_sel)
  ultimately show ?thesis
    unfolding works_def using conf_signer
    by (auto simp: conf_material_def GENERATED_PROOF_ID_BYTES_def list_all_iff is_ok_iff)
qed

lemma conf_tokens_differ:
  "sha256 conf_X (as_bytes ''synthetic-token-a'') \<noteq> sha256 conf_X (as_bytes ''synthetic-token-b'')"
  unfolding sample_externs_sel by code_simp

section \<open>Properties\<close>

text \<open>The batches the tool accepts are exactly the texts whose lines are candidate records, from 1
  to 16 of them, with valid identifiers and with no identifier and no mutation twice.\<close>

lemma parse_canonical_accepts_iff:
  "parse_canonical input = Inr batch \<longleftrightarrow>
     str_lines input = map canonical_record (batch_candidates batch) \<and>
     1 \<le> length (batch_candidates batch) \<and> length (batch_candidates batch) \<le> 16 \<and>
     list_all (\<lambda>c. valid_identifier (cand_id c)) (batch_candidates batch) \<and>
     distinct (map cand_id (batch_candidates batch)) \<and> distinct (map cand_mutation (batch_candidates batch))"
proof -
  have "parse_canonical input = Inr batch \<longleftrightarrow>
      parse_records (str_lines input) = Inr (batch_candidates batch) \<and> validate_batch batch = Inr ()"
    by (cases batch) (auto simp: parse_canonical_def bindE_Inr_iff)
  then show ?thesis
    unfolding parse_records_Inr_iff validate_batch_Inr_iff by blast
qed

text \<open>C36. The evaluator is a sound oracle of the protocol: with working key material, every candidate of
  an accepted batch gets the outcome the protocol prescribes for its mutation, under its own
  identifier and in the order of the batch; in particular no evaluation ends in an error.\<close>

theorem evaluator_meets_contract:
  assumes "b64_law X" "sha256_law X" "\<forall>n. works X (material n)"
    and "sha256 X (as_bytes ''synthetic-token-a'') \<noteq> sha256 X (as_bytes ''synthetic-token-b'')"
    and "parse_canonical input = Inr batch"
  shows "evaluate X material batch = Inr (map (\<lambda>c.
    \<lparr>el_id = cand_id c, el_mutation = cand_mutation c, el_observed = contract_outcome (cand_mutation c),
     el_novel_dimension = (cand_mutation c = Mutate_QueryVariationIgnored)\<rparr>) (batch_candidates batch))"
proof -
  have "validate_batch batch = Inr ()"
    using assms(5) by (auto simp: parse_canonical_def bindE_Inr_iff)
  then show ?thesis
    using evaluate_candidates_contract [OF assms(1-4)] by (simp add: evaluate_def)
qed

theorem evaluator_meets_contract_witness:
  "\<exists>batch es. parse_canonical (''a'' @ [tab] @ ''method_mismatch'' @ [newline] @ ''b'' @ [tab] @ ''replay_same_proof'') = Inr batch \<and>
     evaluate conf_X (\<lambda>_. conf_material) batch = Inr es \<and>
     map el_observed es = [Observed_Rejected MethodMismatch, Observed_Rejected ReplayDetected]"
proof -
  let ?batch = "\<lparr>batch_candidates = [\<lparr>cand_id = ''a'', cand_mutation = Mutate_MethodMismatch\<rparr>,
    \<lparr>cand_id = ''b'', cand_mutation = Mutate_ReplaySameProof\<rparr>]\<rparr>"
  have "parse_canonical (''a'' @ [tab] @ ''method_mismatch'' @ [newline] @ ''b'' @ [tab] @ ''replay_same_proof'') = Inr ?batch"
    by code_simp
  from this evaluator_meets_contract [OF sample_b64_law sample_sha256_law _ conf_tokens_differ this, of "\<lambda>_. conf_material"]
  show ?thesis
    using conf_works by (intro exI [of _ ?batch]) simp
qed

end
