(* ===== verification/Secure_Fs.thy ===== *)
theory Secure_Fs
  imports Rust_Io
begin

unbundle bit_operations_syntax

text \<open>
  Descriptor-relative file system access of the verifier host (\<open>keylix-verifier/src/secure_fs.rs\<close>).

  The calls of the operating system and of the \<open>openat\<close>, \<open>fs2\<close> and \<open>xattr\<close> crates are one record of
  fallible operations on a world state, \<open>fs_ops\<close>; every function of the source is a definition
  over it. A path is the list of its components, a name is its bytes.
\<close>

section \<open>The operations of the system\<close>

type_synonym u32 = "32 word"
type_synonym path = "Component list"

record Stat =
  st_mode :: u32
  st_uid :: u32
  st_gid :: u32
  st_size :: int

definition S_IFMT :: u32 where "S_IFMT = 0xF000"
definition S_IFREG :: u32 where "S_IFREG = 0x8000"
definition S_IFLNK :: u32 where "S_IFLNK = 0xA000"
definition S_IFSOCK :: u32 where "S_IFSOCK = 0xC000"

definition is_file :: "Stat \<Rightarrow> bool" where
  "is_file st \<longleftrightarrow> st_mode st AND S_IFMT = S_IFREG"

definition is_symlink :: "Stat \<Rightarrow> bool" where
  "is_symlink st \<longleftrightarrow> st_mode st AND S_IFMT = S_IFLNK"

definition is_socket :: "Stat \<Rightarrow> bool" where
  "is_socket st \<longleftrightarrow> st_mode st AND S_IFMT = S_IFSOCK"

text \<open>Permission masks: \<open>0o077\<close> and \<open>0o022\<close>.\<close>

definition private_mode :: "Stat \<Rightarrow> bool" where
  "private_mode st \<longleftrightarrow> st_mode st AND 0x3F = 0"

definition not_shared_writable :: "Stat \<Rightarrow> bool" where
  "not_shared_writable st \<longleftrightarrow> st_mode st AND 0x12 = 0"

type_synonym ('w, 'a) sysop = "('w, ErrorKind, 'a) io"

record ('h, 'f, 'w) fs_ops =
  op_open_root :: "('w, 'h) sysop"
  op_try_clone :: "'h \<Rightarrow> ('w, 'h) sysop"
  op_sub_dir :: "'h \<Rightarrow> str \<Rightarrow> ('w, 'h) sysop"
  op_self_metadata :: "'h \<Rightarrow> ('w, Stat) sysop"
  op_list_dir :: "'h \<Rightarrow> ('w, (ErrorKind + str) list) sysop"
  op_metadata :: "'h \<Rightarrow> str \<Rightarrow> ('w, Stat) sysop"
  op_open_file :: "'h \<Rightarrow> str \<Rightarrow> ('w, 'f) sysop"
  op_new_file :: "'h \<Rightarrow> str \<Rightarrow> u32 \<Rightarrow> ('w, 'f) sysop"
  op_remove_file :: "'h \<Rightarrow> str \<Rightarrow> ('w, unit) sysop"
  op_hardlink :: "'h \<Rightarrow> str \<Rightarrow> str \<Rightarrow> ('w, unit) sysop"
  op_file_metadata :: "'f \<Rightarrow> ('w, Stat) sysop"
  op_file_read :: "'f \<Rightarrow> nat \<Rightarrow> ('w, bytes) sysop"
  op_file_write :: "'f \<Rightarrow> bytes \<Rightarrow> ('w, unit) sysop"
  op_file_sync :: "'f \<Rightarrow> ('w, unit) sysop"
  op_file_lock :: "'f \<Rightarrow> ('w, unit) sysop"
  op_get_xattr :: "'f \<Rightarrow> str \<Rightarrow> ('w, bytes option) sysop"
  op_random :: "nat \<Rightarrow> ('w, bytes) sysop"
  op_read_path :: "str \<Rightarrow> ('w, bytes) sysop"

section \<open>Paths\<close>

definition invalid_path :: ErrorKind where
  "invalid_path = InvalidInput"

definition validate_single_component :: "str \<Rightarrow> ErrorKind + unit" where
  "validate_single_component name =
     (case path_components name of [Normal _] \<Rightarrow> Inr () | _ \<Rightarrow> Inl invalid_path)"

fun normal_components :: "Component list \<Rightarrow> str list \<Rightarrow> ErrorKind + str list" where
  "normal_components [] components = Inr components"
| "normal_components (c # cs) components =
     (case c of
        RootDir \<Rightarrow> normal_components cs components
      | Normal v \<Rightarrow> normal_components cs (components @ [v])
      | CurDir \<Rightarrow> Inl invalid_path
      | ParentDir \<Rightarrow> Inl invalid_path)"

definition normalized_absolute_components :: "path \<Rightarrow> ErrorKind + str list" where
  "normalized_absolute_components p =
     (case p of RootDir # _ \<Rightarrow> normal_components p [] | _ \<Rightarrow> Inl invalid_path)"

text \<open>\<open>Path::parent\<close> and \<open>Path::file_name\<close>.\<close>

definition path_parent :: "path \<Rightarrow> path option" where
  "path_parent p = (if p = [] \<or> last p = RootDir then None else Some (butlast p))"

definition path_file_name :: "path \<Rightarrow> str option" where
  "path_file_name p =
     (if p = [] then None else case last p of Normal v \<Rightarrow> Some v | _ \<Rightarrow> None)"

section \<open>Directory chains\<close>

definition open_absolute_directory :: "('h, 'f, 'w) fs_ops \<Rightarrow> path \<Rightarrow> ('w, 'h list \<times> 'h) sysop" where
  "open_absolute_directory sys p =
     bindM (lift (normalized_absolute_components p)) (\<lambda>components.
     bindM (op_open_root sys) (\<lambda>root.
     bindM (op_try_clone sys root) (\<lambda>first.
       foldM (\<lambda>(ancestors, current) component.
         bindM (op_sub_dir sys current component) (\<lambda>next.
         bindM (op_try_clone sys next) (\<lambda>copy.
           ret (ancestors @ [copy], next)))) ([first], root) components)))"

definition validate_directory_chain :: "('h, 'f, 'w) fs_ops \<Rightarrow> 'h list \<Rightarrow> u32 \<Rightarrow> ('w, unit) sysop" where
  "validate_directory_chain sys dirs trusted_uid =
     foldM (\<lambda>_ dir.
       bindM (op_self_metadata sys dir) (\<lambda>st.
         if st_uid st \<noteq> 0 \<and> st_uid st \<noteq> trusted_uid then raise PermissionDenied
         else if \<not> not_shared_writable st then raise PermissionDenied
         else ret ())) () dirs"

definition validate_service_leaf :: "('h, 'f, 'w) fs_ops \<Rightarrow> 'h \<Rightarrow> u32 \<Rightarrow> ('w, unit) sysop" where
  "validate_service_leaf sys dir owner_uid =
     bindM (op_self_metadata sys dir) (\<lambda>st.
       if st_uid st \<noteq> owner_uid \<or> \<not> private_mode st then raise PermissionDenied else ret ())"

text \<open>Mode \<open>0o710\<close> with the set-group-id bit \<open>0o2000\<close> and no other special bit.\<close>

definition validate_socket_leaf_metadata :: "u32 \<Rightarrow> u32 \<Rightarrow> u32 \<Rightarrow> u32 \<Rightarrow> u32 \<Rightarrow> ErrorKind + unit" where
  "validate_socket_leaf_metadata owner_uid trusted_gid file_owner_uid transport_group_gid mode =
     (let ordinary = mode AND 0x1FF; special = mode AND 0xE00 in
      if file_owner_uid \<noteq> owner_uid \<or> transport_group_gid \<noteq> trusted_gid \<or> ordinary \<noteq> 0x1C8 \<or> special \<noteq> 0x400
      then Inl PermissionDenied else Inr ())"

definition validate_socket_leaf :: "('h, 'f, 'w) fs_ops \<Rightarrow> 'h \<Rightarrow> u32 \<Rightarrow> u32 \<Rightarrow> ('w, unit) sysop" where
  "validate_socket_leaf sys dir owner_uid trusted_gid =
     bindM (op_self_metadata sys dir) (\<lambda>st.
       lift (validate_socket_leaf_metadata owner_uid trusted_gid (st_uid st) (st_gid st) (st_mode st)))"

definition reject_posix_acl :: "('h, 'f, 'w) fs_ops \<Rightarrow> 'h \<Rightarrow> ('w, unit) sysop" where
  "reject_posix_acl sys dir =
     bindM (op_open_file sys dir ''.'') (\<lambda>directory.
       foldM (\<lambda>_ name.
         bindM (op_get_xattr sys directory name) (\<lambda>v.
           if v \<noteq> None then raise PermissionDenied else ret ())) ()
         [''system.posix_acl_access'', ''system.posix_acl_default''])"

definition hex_name :: "bytes \<Rightarrow> str" where
  "hex_name bs = concat (map (\<lambda>b. [digit_char (unat (drop_bit 4 b)), digit_char (unat (b AND 0x0F))]) bs)"

definition OWNER_PROBE_BYTES :: nat where
  "OWNER_PROBE_BYTES = 16"

definition random_probe_name :: "('h, 'f, 'w) fs_ops \<Rightarrow> ('w, str) sysop" where
  "random_probe_name sys =
     bindM (map_errM (\<lambda>_. OtherKind) (op_random sys OWNER_PROBE_BYTES)) (\<lambda>random.
       ret (''.keylix-owner-probe-'' @ hex_name random))"

definition probe_directory_owner_uid :: "('h, 'f, 'w) fs_ops \<Rightarrow> 'h \<Rightarrow> ('w, u32) sysop" where
  "probe_directory_owner_uid sys dir =
     bindM (random_probe_name sys) (\<lambda>name.
     bindM (op_new_file sys dir name 0x180) (\<lambda>file.
     bindM (op_file_metadata sys file) (\<lambda>st.
     bindM (op_remove_file sys dir name) (\<lambda>_.
       ret (st_uid st)))))"

section \<open>Secure directories\<close>

record 'h SecureDir =
  sd_dir :: 'h
  sd_owner_uid :: u32

definition open_service_owned ::
  "('h, 'f, 'w) fs_ops \<Rightarrow> path \<Rightarrow> u32 option \<Rightarrow> ('w, 'h SecureDir) sysop" where
  "open_service_owned sys p expected_uid =
     bindM (open_absolute_directory sys p) (\<lambda>(dirs, final_dir).
     bindM (case expected_uid of Some uid \<Rightarrow> ret uid | None \<Rightarrow> probe_directory_owner_uid sys final_dir) (\<lambda>owner_uid.
     bindM (validate_directory_chain sys dirs owner_uid) (\<lambda>_.
     bindM (validate_service_leaf sys final_dir owner_uid) (\<lambda>_.
       ret \<lparr>sd_dir = final_dir, sd_owner_uid = owner_uid\<rparr>))))"

definition open_socket_parent ::
  "('h, 'f, 'w) fs_ops \<Rightarrow> path \<Rightarrow> u32 option \<Rightarrow> ('w, 'h SecureDir) sysop" where
  "open_socket_parent sys p trusted_gid =
     bindM (open_absolute_directory sys p) (\<lambda>(dirs, final_dir).
     bindM (probe_directory_owner_uid sys final_dir) (\<lambda>owner_uid.
     bindM (validate_directory_chain sys dirs owner_uid) (\<lambda>_.
     bindM (case trusted_gid of
              Some gid \<Rightarrow>
                bindM (validate_socket_leaf sys final_dir owner_uid gid) (\<lambda>_. reject_posix_acl sys final_dir)
            | None \<Rightarrow> validate_service_leaf sys final_dir owner_uid) (\<lambda>_.
       ret \<lparr>sd_dir = final_dir, sd_owner_uid = owner_uid\<rparr>))))"

definition sd_list_names :: "('h, 'f, 'w) fs_ops \<Rightarrow> 'h SecureDir \<Rightarrow> ('w, str list) sysop" where
  "sd_list_names sys d =
     bindM (op_list_dir sys (sd_dir d)) (\<lambda>entries.
       foldM (\<lambda>names entry.
         bindM (lift entry) (\<lambda>name.
         bindM (lift (validate_single_component name)) (\<lambda>_.
           ret (names @ [name])))) [] entries)"

definition sd_metadata :: "('h, 'f, 'w) fs_ops \<Rightarrow> 'h SecureDir \<Rightarrow> str \<Rightarrow> ('w, Stat) sysop" where
  "sd_metadata sys d name =
     bindM (lift (validate_single_component name)) (\<lambda>_. op_metadata sys (sd_dir d) name)"

definition sd_open_file :: "('h, 'f, 'w) fs_ops \<Rightarrow> 'h SecureDir \<Rightarrow> str \<Rightarrow> ('w, 'f) sysop" where
  "sd_open_file sys d name =
     bindM (lift (validate_single_component name)) (\<lambda>_. op_open_file sys (sd_dir d) name)"

definition sd_new_file :: "('h, 'f, 'w) fs_ops \<Rightarrow> 'h SecureDir \<Rightarrow> str \<Rightarrow> u32 \<Rightarrow> ('w, 'f) sysop" where
  "sd_new_file sys d name mode =
     bindM (lift (validate_single_component name)) (\<lambda>_. op_new_file sys (sd_dir d) name mode)"

definition sd_remove_file :: "('h, 'f, 'w) fs_ops \<Rightarrow> 'h SecureDir \<Rightarrow> str \<Rightarrow> ('w, unit) sysop" where
  "sd_remove_file sys d name =
     bindM (lift (validate_single_component name)) (\<lambda>_. op_remove_file sys (sd_dir d) name)"

definition sd_hard_link :: "('h, 'f, 'w) fs_ops \<Rightarrow> 'h SecureDir \<Rightarrow> str \<Rightarrow> str \<Rightarrow> ('w, unit) sysop" where
  "sd_hard_link sys d existing new =
     bindM (lift (validate_single_component existing)) (\<lambda>_.
     bindM (lift (validate_single_component new)) (\<lambda>_.
       op_hardlink sys (sd_dir d) existing new))"

definition sd_sync_all :: "('h, 'f, 'w) fs_ops \<Rightarrow> 'h SecureDir \<Rightarrow> ('w, unit) sysop" where
  "sd_sync_all sys d =
     bindM (op_open_file sys (sd_dir d) ''.'') (\<lambda>directory. op_file_sync sys directory)"

text \<open>Opening an existing lock file, or creating it.\<close>

definition create_or_open :: "('h, 'f, 'w) fs_ops \<Rightarrow> 'h SecureDir \<Rightarrow> str \<Rightarrow> ('w, 'f) sysop" where
  "create_or_open sys d name =
     bindM (attempt (op_new_file sys (sd_dir d) name 0x180)) (\<lambda>r.
       case r of
         Inr file \<Rightarrow> ret file
       | Inl e \<Rightarrow> if e = AlreadyExists then op_open_file sys (sd_dir d) name else raise e)"

definition acquire_exclusive_lock :: "('h, 'f, 'w) fs_ops \<Rightarrow> 'h SecureDir \<Rightarrow> str \<Rightarrow> ('w, 'f) sysop" where
  "acquire_exclusive_lock sys d name =
     bindM (lift (validate_single_component name)) (\<lambda>_.
     bindM (create_or_open sys d name) (\<lambda>file.
     bindM (op_file_metadata sys file) (\<lambda>st.
       if \<not> is_file st \<or> st_uid st \<noteq> sd_owner_uid d \<or> \<not> private_mode st \<or> st_size st \<noteq> 0
       then raise PermissionDenied
       else bindM (op_file_lock sys file) (\<lambda>_. ret file))))"

section \<open>Trusted files\<close>

definition validate_trusted_file_metadata :: "Stat \<Rightarrow> u32 \<Rightarrow> nat \<Rightarrow> ErrorKind + unit" where
  "validate_trusted_file_metadata st trusted_uid max_bytes =
     (if \<not> is_file st \<or> is_symlink st \<or> is_socket st \<or>
         (st_uid st \<noteq> 0 \<and> st_uid st \<noteq> trusted_uid) \<or> \<not> private_mode st \<or>
         st_size st = 0 \<or> st_size st > int max_bytes
      then Inl PermissionDenied else Inr ())"

definition read_trusted_file ::
  "('h, 'f, 'w) fs_ops \<Rightarrow> path \<Rightarrow> u32 \<Rightarrow> nat \<Rightarrow> ('w, bytes) sysop" where
  "read_trusted_file sys p trusted_uid max_bytes =
     bindM (lift (ok_or invalid_path (path_parent p))) (\<lambda>parent.
     bindM (lift (ok_or invalid_path (path_file_name p))) (\<lambda>name.
     bindM (lift (validate_single_component name)) (\<lambda>_.
     bindM (open_absolute_directory sys parent) (\<lambda>(dirs, final_dir).
     bindM (validate_directory_chain sys dirs trusted_uid) (\<lambda>_.
     bindM (op_open_file sys final_dir name) (\<lambda>file.
     bindM (op_file_metadata sys file) (\<lambda>st.
     bindM (lift (validate_trusted_file_metadata st trusted_uid max_bytes)) (\<lambda>_.
     bindM (op_file_read sys file (max_bytes + 1)) (\<lambda>bytes.
       if bytes = [] \<or> length bytes > max_bytes then raise InvalidData
       else ret bytes)))))))))"

section \<open>Process status\<close>

fun parse_all :: "('a \<Rightarrow> 'b option) \<Rightarrow> 'a list \<Rightarrow> 'b list option" where
  "parse_all f [] = Some []"
| "parse_all f (x # xs) =
     (case f x of None \<Rightarrow> None | Some y \<Rightarrow> map_option (\<lambda>ys. y # ys) (parse_all f xs))"

definition parse_u32 :: "str \<Rightarrow> u32 option" where
  "parse_u32 s = map_option (\<lambda>n. word_of_nat n) (parse_unsigned 10 (2 ^ 32 - 1) s)"

text \<open>The loop over the status lines, with the two values found so far.\<close>

fun status_gids :: "str list \<Rightarrow> u32 option \<Rightarrow> u32 list option \<Rightarrow> ErrorKind + (u32 option \<times> u32 list option)" where
  "status_gids [] filesystem_gid supplementary = Inr (filesystem_gid, supplementary)"
| "status_gids (line # rest) filesystem_gid supplementary =
     (case strip_prefix line ''Gid:'' of
        Some v \<Rightarrow>
          bindE (ok_or InvalidData (parse_all parse_u32 (split_whitespace v))) (\<lambda>gids.
            if length gids \<noteq> 4 then Inl InvalidData
            else status_gids rest (Some (gids ! 3)) supplementary)
      | None \<Rightarrow>
          (case strip_prefix line ''Groups:'' of
             Some v \<Rightarrow>
               bindE (ok_or InvalidData (parse_all parse_u32 (split_whitespace v))) (\<lambda>groups.
                 status_gids rest filesystem_gid (Some groups))
           | None \<Rightarrow> status_gids rest filesystem_gid supplementary))"

definition process_status_contains_gid :: "str \<Rightarrow> u32 \<Rightarrow> ErrorKind + bool" where
  "process_status_contains_gid status trusted_gid =
     bindE (status_gids (str_lines status) None None) (\<lambda>(filesystem_gid, supplementary).
     bindE (ok_or InvalidData filesystem_gid) (\<lambda>filesystem_gid.
     bindE (ok_or InvalidData supplementary) (\<lambda>supplementary.
       Inr (filesystem_gid = trusted_gid \<or> trusted_gid \<in> set supplementary))))"

fun find_map :: "('a \<Rightarrow> 'b option) \<Rightarrow> 'a list \<Rightarrow> 'b option" where
  "find_map f [] = None"
| "find_map f (x # xs) = (case f x of Some y \<Rightarrow> Some y | None \<Rightarrow> find_map f xs)"

definition process_status_umask :: "str \<Rightarrow> ErrorKind + u32" where
  "process_status_umask status =
     bindE (ok_or InvalidData (find_map (\<lambda>line. strip_prefix line ''Umask:'') (str_lines status))) (\<lambda>v.
     bindE (ok_or InvalidData (parse_unsigned 8 (2 ^ 32 - 1) (str_trim v))) (\<lambda>n.
       Inr (word_of_nat n)))"

text \<open>The checks on the text of \<open>/proc/self/status\<close>; \<open>0o117\<close> is \<open>0x4F\<close>.\<close>

definition validate_status :: "bytes \<Rightarrow> u32 \<Rightarrow> ErrorKind + unit" where
  "validate_status status trusted_gid =
     (if length status > 64 * 1024 then Inl InvalidData
      else if \<not> is_utf8 status then Inl InvalidData
      else
        bindE (process_status_contains_gid (from_bytes status) trusted_gid) (\<lambda>member.
        if \<not> member then Inl PermissionDenied
        else
        bindE (process_status_umask (from_bytes status)) (\<lambda>umask.
          if umask \<noteq> 0x4F then Inl PermissionDenied else Inr ())))"

definition validate_group_transport_process :: "('h, 'f, 'w) fs_ops \<Rightarrow> u32 \<Rightarrow> ('w, unit) sysop" where
  "validate_group_transport_process sys trusted_gid =
     bindM (op_read_path sys ''/proc/self/status'') (\<lambda>status. lift (validate_status status trusted_gid))"

section \<open>Single components\<close>

lemma single_component:
  assumes "CHR ''/'' \<notin> set n" "n \<noteq> []" "n \<noteq> ''.''" "n \<noteq> ''..''"
  shows "validate_single_component n = Inr ()"
  using assms str_split_no_sep [OF assms(1)]
  by (cases n) (auto simp: validate_single_component_def path_components_def path_is_absolute_def starts_with_def Let_def)

end
