(* ===== verification/Replay_File.thy ===== *)
theory Replay_File
  imports Secure_Fs Dpop_Adapter
begin

text \<open>
  The persistent replay store (\<open>keylix-verifier/src/replay.rs\<close>): one file per accepted replay key
  in a private directory, created under a pending name and published by a hard link.

  Every operation is written over the system operations of \<^theory_text>\<open>Secure_Fs\<close>, each of which may
  fail at any time. The clock reading and the state of the operation lock are arguments; the
  lock is taken before the clock is read.
\<close>

section \<open>Names\<close>

definition PENDING_PREFIX :: str where
  "PENDING_PREFIX = ''.pending-''"

definition PENDING_RANDOM_BYTES :: nat where
  "PENDING_RANDOM_BYTES = 16"

definition INSTANCE_LOCK_NAME :: str where
  "INSTANCE_LOCK_NAME = ''.replay-store.lock''"

definition is_lower_hex :: "char \<Rightarrow> bool" where
  "is_lower_hex c \<longleftrightarrow> is_ascii_digit (byte_of c) \<or> (0x61 \<le> byte_of c \<and> byte_of c \<le> 0x66)"

definition name_for :: "ReplayKey \<Rightarrow> str" where
  "name_for key = hex_name (replay_key_bytes key)"

definition is_pending_name :: "str \<Rightarrow> bool" where
  "is_pending_name name =
     (case strip_prefix name PENDING_PREFIX of
        None \<Rightarrow> False
      | Some suffix \<Rightarrow> length suffix = PENDING_RANDOM_BYTES * 2 \<and> list_all is_lower_hex suffix)"

definition is_record_name :: "str \<Rightarrow> bool" where
  "is_record_name name \<longleftrightarrow> length name = 64 \<and> list_all is_lower_hex name"

section \<open>The store\<close>

record ('h, 'f) FileReplayStore =
  fr_directory :: "'h SecureDir"
  fr_capacity :: nat
  fr_instance_lock :: 'f
  fr_poisoned :: bool

type_synonym ('w, 'a) portop = "('w, DpopPortError, 'a) io"

text \<open>\<open>map_err(|_| DpopPortError)\<close> on a system operation.\<close>

definition port :: "('w, 'a) sysop \<Rightarrow> ('w, 'a) portop" where
  "port m = map_errM (\<lambda>_. DpopPortError) m"

definition validate_instance_lock :: "('h, 'f, 'w) fs_ops \<Rightarrow> 'h SecureDir \<Rightarrow> ('w, unit) portop" where
  "validate_instance_lock sys d =
     bindM (port (sd_metadata sys d INSTANCE_LOCK_NAME)) (\<lambda>st.
       if \<not> is_file st \<or> st_uid st \<noteq> sd_owner_uid d \<or> \<not> private_mode st \<or> st_size st \<noteq> 0
       then raise DpopPortError else ret ())"

definition acquire_instance_lock :: "('h, 'f, 'w) fs_ops \<Rightarrow> 'h SecureDir \<Rightarrow> ('w, 'f) portop" where
  "acquire_instance_lock sys d =
     bindM (attempt (sd_new_file sys d INSTANCE_LOCK_NAME 0x180)) (\<lambda>r.
     bindM (case r of
              Inr file \<Rightarrow> ret file
            | Inl e \<Rightarrow>
                if e = AlreadyExists
                then bindM (validate_instance_lock sys d) (\<lambda>_. port (sd_open_file sys d INSTANCE_LOCK_NAME))
                else raise DpopPortError) (\<lambda>file.
     bindM (port (op_file_metadata sys file)) (\<lambda>st.
       if \<not> is_file st \<or> st_uid st \<noteq> sd_owner_uid d \<or> \<not> private_mode st \<or> st_size st \<noteq> 0
       then raise DpopPortError
       else bindM (port (op_file_lock sys file)) (\<lambda>_. ret file))))"

definition pending_name :: "('h, 'f, 'w) fs_ops \<Rightarrow> ('w, str) portop" where
  "pending_name sys =
     bindM (port (op_random sys PENDING_RANDOM_BYTES)) (\<lambda>random. ret (PENDING_PREFIX @ hex_name random))"

definition cleanup_pending :: "('h, 'f, 'w) fs_ops \<Rightarrow> 'h SecureDir \<Rightarrow> str \<Rightarrow> ('w, unit) portop" where
  "cleanup_pending sys d name =
     bindM (port (sd_metadata sys d name)) (\<lambda>st.
       if \<not> is_file st \<or> st_uid st \<noteq> sd_owner_uid d \<or> \<not> private_mode st \<or> st_size st < 0 \<or> st_size st > 32
       then raise DpopPortError
       else port (sd_remove_file sys d name))"

definition cleanup_startup_pending :: "('h, 'f, 'w) fs_ops \<Rightarrow> 'h SecureDir \<Rightarrow> ('w, unit) portop" where
  "cleanup_startup_pending sys d =
     bindM (port (sd_list_names sys d)) (\<lambda>names.
     bindM (foldM (\<lambda>removed_any name.
              if \<not> is_utf8 (as_bytes name) then raise DpopPortError
              else if is_pending_name name then bindM (cleanup_pending sys d name) (\<lambda>_. ret True)
              else ret removed_any) False names) (\<lambda>removed_any.
       if removed_any then port (sd_sync_all sys d) else ret ()))"

text \<open>The constructor, after and with the opening of the directory.\<close>

definition file_replay_store_open ::
  "('h, 'f, 'w) fs_ops \<Rightarrow> 'h SecureDir \<Rightarrow> nat \<Rightarrow> ('w, ('h, 'f) FileReplayStore) portop" where
  "file_replay_store_open sys directory capacity =
     bindM (acquire_instance_lock sys directory) (\<lambda>lock.
     bindM (cleanup_startup_pending sys directory) (\<lambda>_.
       ret \<lparr>fr_directory = directory, fr_capacity = capacity, fr_instance_lock = lock, fr_poisoned = False\<rparr>))"

definition file_replay_store_new ::
  "('h, 'f, 'w) fs_ops \<Rightarrow> path \<Rightarrow> u32 \<Rightarrow> nat \<Rightarrow> ('w, ('h, 'f) FileReplayStore) portop" where
  "file_replay_store_new sys p trusted_uid capacity =
     (if capacity = 0 then raise DpopPortError
      else
        bindM (port (open_service_owned sys p (Some trusted_uid))) (\<lambda>directory.
          file_replay_store_open sys directory capacity))"

section \<open>Records\<close>

definition parse_expiry :: "str \<Rightarrow> DpopPortError + i64" where
  "parse_expiry v =
     (let trimmed = (case strip_suffix_char v newline of Some t \<Rightarrow> t | None \<Rightarrow> v) in
      if trimmed = [] \<or> \<not> list_all (\<lambda>c. is_ascii_digit (byte_of c)) trimmed then Inl DpopPortError
      else if digits_value 10 trimmed > 2 ^ 63 - 1 then Inl DpopPortError
      else Inr (int (digits_value 10 trimmed)))"

definition read_expiry :: "('h, 'f, 'w) fs_ops \<Rightarrow> 'h SecureDir \<Rightarrow> str \<Rightarrow> ('w, i64) portop" where
  "read_expiry sys d name =
     bindM (port (sd_metadata sys d name)) (\<lambda>st.
     if \<not> is_file st \<or> st_uid st \<noteq> sd_owner_uid d \<or> \<not> private_mode st \<or> st_size st \<le> 0 \<or> st_size st > 32
     then raise DpopPortError
     else
     bindM (port (sd_open_file sys d name)) (\<lambda>file.
     bindM (port (op_file_metadata sys file)) (\<lambda>st.
     if \<not> is_file st \<or> st_uid st \<noteq> sd_owner_uid d \<or> \<not> private_mode st \<or> st_size st = 0 \<or> st_size st > 32
     then raise DpopPortError
     else
     bindM (port (op_file_read sys file 33)) (\<lambda>bytes.
     if \<not> is_utf8 bytes then raise DpopPortError
     else lift (parse_expiry (from_bytes bytes))))))"

definition cleanup_and_count :: "('h, 'f, 'w) fs_ops \<Rightarrow> 'h SecureDir \<Rightarrow> i64 \<Rightarrow> ('w, nat) portop" where
  "cleanup_and_count sys d now =
     bindM (port (sd_list_names sys d)) (\<lambda>names.
       foldM (\<lambda>active name.
         if \<not> is_utf8 (as_bytes name) then raise DpopPortError
         else if is_pending_name name then ret active
         else if name = INSTANCE_LOCK_NAME then bindM (validate_instance_lock sys d) (\<lambda>_. ret active)
         else if \<not> is_record_name name then raise DpopPortError
         else
           bindM (read_expiry sys d name) (\<lambda>expiry.
             if expiry < now then bindM (port (sd_remove_file sys d name)) (\<lambda>_. ret active)
             else ret (active + 1))) 0 names)"

text \<open>The publication of a record: write it under the pending name, link it, drop the pending
  name.\<close>

definition publish_record ::
  "('h, 'f, 'w) fs_ops \<Rightarrow> 'h SecureDir \<Rightarrow> 'f \<Rightarrow> str \<Rightarrow> str \<Rightarrow> i64 \<Rightarrow> ('w, unit) portop" where
  "publish_record sys d file pending name expires =
     bindM (port (op_file_write sys file (as_bytes (fmt_i64 expires @ [newline])))) (\<lambda>_.
     bindM (port (op_file_sync sys file)) (\<lambda>_.
     bindM (port (sd_hard_link sys d pending name)) (\<lambda>_.
     bindM (port (sd_sync_all sys d)) (\<lambda>_.
     bindM (port (sd_remove_file sys d pending)) (\<lambda>_.
       port (sd_sync_all sys d))))))"

text \<open>The second half of one attempt, after the old record is out of the way; \<open>None\<close> is
  \<open>continue\<close>.\<close>

definition create_record ::
  "('h, 'f, 'w) fs_ops \<Rightarrow> ('h, 'f) FileReplayStore \<Rightarrow> bool \<Rightarrow> nat \<Rightarrow> str \<Rightarrow> i64
   \<Rightarrow> ('w, ReplayStatus option) portop" where
  "create_record sys store first active name expires =
     (let d = fr_directory store in
      if active \<ge> fr_capacity store then raise DpopPortError
      else
      bindM (pending_name sys) (\<lambda>pending.
      bindM (attempt (sd_new_file sys d pending 0x180)) (\<lambda>r.
      case r of
        Inl e \<Rightarrow> if e = AlreadyExists \<and> first then ret None else raise DpopPortError
      | Inr file \<Rightarrow>
          bindM (attempt (publish_record sys d file pending name expires)) (\<lambda>initialize.
          if is_ok initialize then ret (Some Fresh)
          else
          bindM (attempt (sd_metadata sys d name)) (\<lambda>final.
          bindM (attempt (sd_remove_file sys d pending)) (\<lambda>_.
          bindM (attempt (sd_sync_all sys d)) (\<lambda>_.
            if is_ok final \<and> first then ret None else raise DpopPortError)))))))"

definition replay_attempt ::
  "('h, 'f, 'w) fs_ops \<Rightarrow> ('h, 'f) FileReplayStore \<Rightarrow> bool \<Rightarrow> i64 \<Rightarrow> str \<Rightarrow> i64
   \<Rightarrow> ('w, ReplayStatus option) portop" where
  "replay_attempt sys store first now name expires =
     (let d = fr_directory store in
      bindM (cleanup_and_count sys d now) (\<lambda>active.
      bindM (attempt (read_expiry sys d name)) (\<lambda>r.
      case r of
        Inr expiry \<Rightarrow>
          if expiry \<ge> now then ret (Some Replay)
          else bindM (port (sd_remove_file sys d name)) (\<lambda>_. create_record sys store first active name expires)
      | Inl _ \<Rightarrow>
          bindM (attempt (sd_metadata sys d name)) (\<lambda>m.
          if m = Inl NotFound then create_record sys store first active name expires
          else raise DpopPortError))))"

definition file_check_and_record ::
  "('h, 'f, 'w) fs_ops \<Rightarrow> ('h, 'f) FileReplayStore \<Rightarrow> DpopPortError + i64 \<Rightarrow> 'w replay_op" where
  "file_check_and_record sys store clock w key expires =
     (if fr_poisoned store then raise DpopPortError
      else
      bindM (lift clock) (\<lambda>now.
      if expires < now then raise DpopPortError
      else
      bindM (replay_attempt sys store True now (name_for key) expires) (\<lambda>r.
      case r of
        Some status \<Rightarrow> ret status
      | None \<Rightarrow>
          bindM (replay_attempt sys store False now (name_for key) expires) (\<lambda>r.
          case r of Some status \<Rightarrow> ret status | None \<Rightarrow> raise DpopPortError)))) w"

section \<open>Names and numbers\<close>

lemma byte_nibbles: "unat (drop_bit 4 b) < 16" "unat (b AND 0x0F) < 16" for b :: u8
proof -
  have "unat (drop_bit 4 b) = unat b div 16"
    by (simp add: drop_bit_eq_div unat_div)
  then show "unat (drop_bit 4 b) < 16"
    using unsigned_less [of b, where 'a = nat] by simp
  have "b AND 0x0F \<le> 0x0F" by (rule word_and_le1)
  then show "unat (b AND 0x0F) < 16" by (simp add: word_le_nat_alt)
qed

lemma byte_from_nibbles:
  assumes "unat (drop_bit 4 a) = unat (drop_bit 4 b)" "unat (a AND 0x0F) = unat (b AND 0x0F)"
  shows "a = (b :: u8)"
proof -
  have eq: "drop_bit 4 a = drop_bit 4 b" "take_bit 4 a = take_bit 4 b"
    using assms by (simp_all add: word_unat_eq_iff take_bit_eq_mask mask_eq_exp_minus_1)
  have "a = push_bit 4 (drop_bit 4 a) + take_bit 4 a" "b = push_bit 4 (drop_bit 4 b) + take_bit 4 b"
    by (simp_all add: bits_ident)
  then show ?thesis using eq by metis
qed

lemma digit_char_inj: "d < 16 \<Longrightarrow> e < 16 \<Longrightarrow> digit_char d = digit_char e \<longleftrightarrow> d = e"
  by (metis to_digit_digit_char option.inject order_refl)

lemma hex_name_inj: "hex_name a = hex_name b \<longleftrightarrow> a = b"
proof
  assume "hex_name a = hex_name b"
  then show "a = b"
  proof (induction a arbitrary: b)
    case Nil
    then show ?case by (cases b) (simp_all add: hex_name_def)
  next
    case (Cons x a)
    then obtain y b' where b: "b = y # b'" by (cases b) (simp_all add: hex_name_def)
    with Cons.prems have "x = y" "hex_name a = hex_name b'"
      using byte_nibbles [of x] byte_nibbles [of y]
      by (auto simp: hex_name_def digit_char_inj intro: byte_from_nibbles)
    then show ?case using Cons.IH b by simp
  qed
qed simp

lemma digit_char_lower_hex: "d < 16 \<Longrightarrow> is_lower_hex (digit_char d)"
proof -
  assume "d < 16"
  then have "d \<in> set [0..<16]" by simp
  moreover have "list_all (\<lambda>d. is_lower_hex (digit_char d)) [0..<16]" by code_simp
  ultimately show ?thesis by (simp add: list_all_iff)
qed

lemma hex_name_lower_hex: "list_all is_lower_hex (hex_name bs)"
  using byte_nibbles digit_char_lower_hex by (auto simp: hex_name_def list_all_iff)

lemma name_for_inj: "name_for k = name_for k' \<longleftrightarrow> k = k'"
  by (cases k; cases k') (simp add: name_for_def hex_name_inj)

lemma dot_not_hex: "\<not> is_lower_hex (CHR ''.'')"
  by code_simp

lemma name_for_hex: "list_all is_lower_hex (name_for k)"
  by (simp add: name_for_def hex_name_lower_hex)

text \<open>The names of records, of pending files and of the lock never meet.\<close>

lemma pending_not_hex: "\<not> list_all is_lower_hex (PENDING_PREFIX @ s)"
  by (simp add: PENDING_PREFIX_def dot_not_hex)

lemma is_pending_name_iff:
  "is_pending_name n \<longleftrightarrow> (\<exists>s. n = PENDING_PREFIX @ s \<and> length s = 32 \<and> list_all is_lower_hex s)"
proof (cases "take (length PENDING_PREFIX) n = PENDING_PREFIX")
  case True
  then have "n = PENDING_PREFIX @ drop (length PENDING_PREFIX) n"
    by (metis append_take_drop_id)
  then show ?thesis
    using True unfolding is_pending_name_def strip_prefix_def starts_with_def PENDING_RANDOM_BYTES_def
    by (auto simp del: append_take_drop_id)
qed (auto simp: is_pending_name_def strip_prefix_def starts_with_def)

lemma is_pending_not_hex: "is_pending_name n \<Longrightarrow> \<not> list_all is_lower_hex n"
  using pending_not_hex by (auto simp: is_pending_name_iff)

lemma special_not_record:
  "is_pending_name n \<Longrightarrow> \<not> is_record_name n" "\<not> is_record_name INSTANCE_LOCK_NAME"
  by (auto simp: is_pending_name_iff is_record_name_def PENDING_PREFIX_def INSTANCE_LOCK_NAME_def)

text \<open>The expiry a record file states: what \<open>read_expiry\<close> reads, and also a negative number or one
  out of range, which \<open>read_expiry\<close> refuses.\<close>

definition recorded_expiry :: "bytes \<Rightarrow> i64 option" where
  "recorded_expiry content =
     (let v = from_bytes content;
          trimmed = (case strip_suffix_char v newline of Some t \<Rightarrow> t | None \<Rightarrow> v);
          digits = (\<lambda>s. s \<noteq> [] \<and> list_all (\<lambda>c. is_ascii_digit (byte_of c)) s) in
      if digits trimmed then Some (int (digits_value 10 trimmed))
      else if trimmed \<noteq> [] \<and> hd trimmed = CHR ''-'' \<and> digits (tl trimmed)
      then Some (- int (digits_value 10 (tl trimmed)))
      else None)"

lemma parse_expiry_recorded: "parse_expiry (from_bytes content) = Inr e \<Longrightarrow> recorded_expiry content = Some e"
  by (auto simp: parse_expiry_def recorded_expiry_def Let_def split: if_splits)

lemma digit_10_ascii: "is_digit_of 10 c \<Longrightarrow> is_ascii_digit (byte_of c)"
  by (auto simp: is_digit_of_def to_digit_def is_ascii_digit_def Let_def byte_arith split: if_splits)

lemma nat_to_string_digits: "list_all (\<lambda>c. is_ascii_digit (byte_of c)) (nat_to_string n)"
  using fmt_radix_digits [of 10 _ n] digit_10_ascii by (auto simp: list_all_iff)

lemma recorded_expiry_fmt: "recorded_expiry (as_bytes (fmt_i64 e @ [newline])) = Some e"
proof -
  have minus: "\<not> is_ascii_digit (byte_of (CHR ''-''))" by code_simp
  have trim: "strip_suffix_char (s @ [newline]) newline = Some s" for s
    by (simp add: strip_suffix_char_def)
  show ?thesis
    using nat_to_string_digits digits_value_fmt [of 10] minus
    unfolding recorded_expiry_def from_bytes_as_bytes trim Let_def by (simp add: fmt_i64_def)
qed

lemma wp_portI:
  assumes "wp m P w" "\<And>e w'. P (Inl e) w' \<Longrightarrow> Q (Inl DpopPortError) w'" "\<And>x w'. P (Inr x) w' \<Longrightarrow> Q (Inr x) w'"
  shows "wp (port m) Q w"
  unfolding port_def using assms by (rule wp_map_errI)

lemma wp_bind_portI:
  assumes "wp m P w" "\<And>e w'. P (Inl e) w' \<Longrightarrow> Q (Inl DpopPortError) w'" "\<And>x w'. P (Inr x) w' \<Longrightarrow> wp (f x) Q w'"
  shows "wp (bindM (port m) f) Q w"
  unfolding port_def wp_bindM wp_map_errM
  by (rule wp_mono [OF assms(1)]) (use assms(2,3) in \<open>auto simp: map_err_def split: sum.splits\<close>)

section \<open>Directories that behave as POSIX says\<close>

record dfile =
  df_mode :: u32
  df_uid :: u32
  df_gid :: u32
  df_content :: bytes

definition stat_of :: "dfile \<Rightarrow> Stat" where
  "stat_of x = \<lparr>st_mode = df_mode x, st_uid = df_uid x, st_gid = df_gid x, st_size = int (length (df_content x))\<rparr>"

text \<open>
  \<open>file_at w n\<close> is the file that the directory has under the name \<open>n\<close>, \<open>opened w f\<close> the name
  by which the open file \<open>f\<close> was opened, \<open>created w f\<close> its name when it has no other. Any operation may fail; a failed \<open>unlink\<close> or \<open>link\<close>
  may or may not have taken effect, a failed \<open>write\<close> may have written something. Nobody else works
  in the directory: it is private and guarded by the instance lock.
\<close>

locale posix_directory =
  fixes sys :: "('h, 'f, 'w) fs_ops"
    and dir :: 'h
    and file_at :: "'w \<Rightarrow> str \<Rightarrow> dfile option"
    and opened :: "'w \<Rightarrow> 'f \<Rightarrow> str option"
    and created :: "'w \<Rightarrow> 'f \<Rightarrow> str option"
  assumes list_law: "wp (op_list_dir sys dir) (\<lambda>r w'. file_at w' = file_at w \<and>
      (\<forall>es. r = Inr es \<longrightarrow> (\<forall>n. file_at w n \<noteq> None \<longrightarrow> Inr n \<in> set es \<or> (\<exists>e. Inl e \<in> set es)))) w"
    and metadata_law: "wp (op_metadata sys dir n) (\<lambda>r w'. file_at w' = file_at w \<and>
      (\<forall>st. r = Inr st \<longrightarrow> (\<exists>x. file_at w n = Some x \<and> st = stat_of x)) \<and>
      (r = Inl NotFound \<longrightarrow> file_at w n = None)) w"
    and open_law: "wp (op_open_file sys dir n) (\<lambda>r w'. file_at w' = file_at w \<and>
      (\<forall>f. r = Inr f \<and> n \<noteq> ''.'' \<longrightarrow> opened w' f = Some n \<and> file_at w n \<noteq> None)) w"
    and file_metadata_law: "wp (op_file_metadata sys f) (\<lambda>r w'. file_at w' = file_at w \<and> opened w' = opened w \<and>
      (\<forall>st n x. r = Inr st \<and> opened w f = Some n \<and> file_at w n = Some x \<longrightarrow> st = stat_of x)) w"
    and read_law: "wp (op_file_read sys f k) (\<lambda>r w'. file_at w' = file_at w \<and>
      (\<forall>bs n x. r = Inr bs \<and> opened w f = Some n \<and> file_at w n = Some x \<longrightarrow> bs = take k (df_content x))) w"
    and new_law: "wp (op_new_file sys dir n m) (\<lambda>r w'. case r of
        Inl _ \<Rightarrow> file_at w' = file_at w
      | Inr f \<Rightarrow> file_at w n = None \<and> created w' f = Some n \<and>
          (\<exists>x. df_content x = [] \<and> file_at w' = (file_at w)(n \<mapsto> x))) w"
    and write_law: "created w f = Some n \<Longrightarrow> file_at w n = Some x \<Longrightarrow>
      wp (op_file_write sys f bs) (\<lambda>r w'. \<exists>x'. file_at w' = (file_at w)(n \<mapsto> x') \<and>
        (r = Inr () \<longrightarrow> df_content x' = df_content x @ bs)) w"
    and sync_law: "wp (op_file_sync sys f) (\<lambda>r w'. file_at w' = file_at w) w"
    and lock_law: "wp (op_file_lock sys f) (\<lambda>r w'. file_at w' = file_at w) w"
    and link_law: "wp (op_hardlink sys dir a b) (\<lambda>r w'.
      (r = Inr () \<longrightarrow> file_at w a \<noteq> None \<and> file_at w b = None \<and> file_at w' = (file_at w)(b := file_at w a)) \<and>
      (file_at w' = file_at w \<or> file_at w b = None \<and> file_at w' = (file_at w)(b := file_at w a))) w"
    and remove_law: "wp (op_remove_file sys dir n) (\<lambda>r w'.
      (r = Inr () \<longrightarrow> file_at w' = (file_at w)(n := None)) \<and>
      (file_at w' = file_at w \<or> file_at w' = (file_at w)(n := None))) w"
    and random_law: "wp (op_random sys k) (\<lambda>r w'. file_at w' = file_at w) w"
begin

definition expiry_at :: "'w \<Rightarrow> str \<Rightarrow> i64 option" where
  "expiry_at w n = Option.bind (file_at w n) (\<lambda>x. recorded_expiry (df_content x))"

text \<open>What a step may do to records: live ones stay; record files stay as they are, except that
  \<open>name\<close> may appear.\<close>

definition keeps_live :: "i64 \<Rightarrow> 'w \<Rightarrow> 'w \<Rightarrow> bool" where
  "keeps_live now w w' \<longleftrightarrow>
     (\<forall>n e. list_all is_lower_hex n \<longrightarrow> expiry_at w n = Some e \<longrightarrow> now \<le> e \<longrightarrow> expiry_at w' n = Some e)"

definition keeps_records :: "str \<Rightarrow> 'w \<Rightarrow> 'w \<Rightarrow> bool" where
  "keeps_records name w w' \<longleftrightarrow>
     (\<forall>n. list_all is_lower_hex n \<longrightarrow> file_at w' n = file_at w n \<or> n = name \<and> file_at w n = None)"

lemma keeps_live_refl: "file_at w' = file_at w \<Longrightarrow> keeps_live now w w'"
  by (simp add: keeps_live_def expiry_at_def)

lemma keeps_live_trans: "keeps_live now w w' \<Longrightarrow> keeps_live now w' w'' \<Longrightarrow> keeps_live now w w''"
  by (simp add: keeps_live_def)

lemma keeps_records_live: "keeps_records name w w' \<Longrightarrow> keeps_live now w w'"
  unfolding keeps_records_def keeps_live_def expiry_at_def by (metis bind.bind_lzero option.distinct(1))

lemma keeps_records_refl: "file_at w' = file_at w \<Longrightarrow> keeps_records name w w'"
  by (simp add: keeps_records_def)

lemma keeps_records_same: "keeps_records name w u \<Longrightarrow> file_at u' = file_at u \<Longrightarrow> keeps_records name w u'"
  by (simp add: keeps_records_def)

lemma keeps_records_trans:
  "keeps_records name w w' \<Longrightarrow> keeps_records name w' w'' \<Longrightarrow> keeps_records name w w''"
  unfolding keeps_records_def by metis

text \<open>Operations of the secure directory.\<close>

lemma wp_sd_metadata:
  assumes "sd_dir d = dir"
  shows "wp (sd_metadata sys d n) (\<lambda>r w'. file_at w' = file_at w \<and>
    (\<forall>st. r = Inr st \<longrightarrow> (\<exists>x. file_at w n = Some x \<and> st = stat_of x)) \<and>
    (r = Inl NotFound \<longrightarrow> file_at w n = None)) w"
  using metadata_law [where w = w and n = n]
  by (auto simp: sd_metadata_def wp_simps assms validate_single_component_def invalid_path_def
      split: sum.splits list.splits Component.splits)

lemma wp_guarded:
  assumes "wp m Q w" "\<And>e. Q (Inl InvalidInput) w"
  shows "wp (bindM (lift (validate_single_component n)) (\<lambda>_. m)) Q w"
  using assms by (auto simp: wp_simps validate_single_component_def invalid_path_def split: list.splits Component.splits)

lemma wp_sd_open_file:
  assumes "sd_dir d = dir"
  shows "wp (sd_open_file sys d n) (\<lambda>r w'. file_at w' = file_at w \<and>
    (\<forall>f. r = Inr f \<and> n \<noteq> ''.'' \<longrightarrow> opened w' f = Some n \<and> file_at w n \<noteq> None)) w"
  unfolding sd_open_file_def assms by (rule wp_guarded [OF open_law]) simp

lemma wp_sd_new_file:
  assumes "sd_dir d = dir"
  shows "wp (sd_new_file sys d n m) (\<lambda>r w'. case r of
        Inl _ \<Rightarrow> file_at w' = file_at w
      | Inr f \<Rightarrow> file_at w n = None \<and> created w' f = Some n \<and>
          (\<exists>x. df_content x = [] \<and> file_at w' = (file_at w)(n \<mapsto> x))) w"
  unfolding sd_new_file_def assms by (rule wp_guarded [OF new_law]) simp

lemma wp_sd_remove_file:
  assumes "sd_dir d = dir"
  shows "wp (sd_remove_file sys d n) (\<lambda>r w'. (r = Inr () \<longrightarrow> file_at w' = (file_at w)(n := None)) \<and>
      (file_at w' = file_at w \<or> file_at w' = (file_at w)(n := None))) w"
  unfolding sd_remove_file_def assms by (rule wp_guarded [OF remove_law]) simp

lemma wp_sd_hard_link:
  assumes "sd_dir d = dir"
  shows "wp (sd_hard_link sys d a b) (\<lambda>r w'.
      (r = Inr () \<longrightarrow> file_at w a \<noteq> None \<and> file_at w b = None \<and> file_at w' = (file_at w)(b := file_at w a)) \<and>
      (file_at w' = file_at w \<or> file_at w b = None \<and> file_at w' = (file_at w)(b := file_at w a))) w"
  unfolding sd_hard_link_def assms
  by (rule wp_guarded, rule wp_guarded [OF link_law]) simp_all

lemma wp_sd_sync_all:
  assumes "sd_dir d = dir"
  shows "wp (sd_sync_all sys d) (\<lambda>r w'. file_at w' = file_at w) w"
  unfolding sd_sync_all_def assms wp_bindM
  by (rule wp_mono [OF open_law]) (auto split: sum.splits intro: wp_mono [OF sync_law])

text \<open>A listing without errors is complete.\<close>

lemma wp_sd_list_names:
  assumes "sd_dir d = dir"
  shows "wp (sd_list_names sys d) (\<lambda>r w'. file_at w' = file_at w \<and>
    (\<forall>ns. r = Inr ns \<longrightarrow> (\<forall>n. file_at w n \<noteq> None \<longrightarrow> n \<in> set ns))) w"
proof -
  have loop: "wp (foldM (\<lambda>names entry.
      bindM (lift entry) (\<lambda>name. bindM (lift (validate_single_component name)) (\<lambda>_. ret (names @ [name])))) [] es)
      (\<lambda>r w'. case r of Inl e \<Rightarrow> w' = u | Inr ns \<Rightarrow> w' = u \<and> map Inr ns = es) u" for es :: "(ErrorKind + str) list" and u
    by (rule wp_foldM [where I = "\<lambda>ns seen w'. w' = u \<and> map Inr ns = seen" and E = "\<lambda>e w'. w' = u"])
      (auto simp: wp_simps split: sum.splits)
  show ?thesis
    unfolding sd_list_names_def assms
  proof (rule wp_bindI [OF list_law])
    fix es :: "(ErrorKind + str) list" and w'
    assume "file_at w' = file_at w \<and> (\<forall>es'. Inr es = (Inr es' :: ErrorKind + (ErrorKind + str) list) \<longrightarrow>
      (\<forall>n. file_at w n \<noteq> None \<longrightarrow> Inr n \<in> set es' \<or> (\<exists>e. Inl e \<in> set es')))"
    then show "wp (foldM (\<lambda>names entry.
        bindM (lift entry) (\<lambda>name. bindM (lift (validate_single_component name)) (\<lambda>_. ret (names @ [name])))) [] es)
        (\<lambda>r w'. file_at w' = file_at w \<and> (\<forall>ns. r = Inr ns \<longrightarrow> (\<forall>n. file_at w n \<noteq> None \<longrightarrow> n \<in> set ns))) w'"
      by (force intro!: wp_mono [OF loop] split: sum.splits)
  qed simp
qed

text \<open>Reading a record changes nothing, and what it reads is recorded.\<close>

lemma wp_read_expiry:
  assumes d: "sd_dir d = dir" and n: "n \<noteq> ''.''"
  shows "wp (read_expiry sys d n) (\<lambda>r w'. file_at w' = file_at w \<and> (\<forall>e. r = Inr e \<longrightarrow> expiry_at w n = Some e)) w"
proof -
  have content: "wp (op_file_read sys f 33) (\<lambda>r w'. file_at w' = file_at w \<and>
      (\<forall>bs. r = Inr bs \<longrightarrow> bs = take 33 (df_content x))) u"
    if "file_at u = file_at w" "opened u f = Some n" "file_at w n = Some x" for u f x
    by (rule wp_mono [OF read_law]) (use that in auto)
  have stat: "wp (op_file_metadata sys f) (\<lambda>r w'. file_at w' = file_at w \<and> opened w' f = Some n \<and>
      (\<forall>st. r = Inr st \<longrightarrow> st = stat_of x)) u"
    if "file_at u = file_at w" "opened u f = Some n" "file_at w n = Some x" for u f x
    by (rule wp_mono [OF file_metadata_law]) (use that in auto)
  have opens: "wp (sd_open_file sys d n) (\<lambda>r w'. file_at w' = file_at w \<and> (\<forall>f. r = Inr f \<longrightarrow> opened w' f = Some n)) u"
    if "file_at u = file_at w" for u
    by (rule wp_mono [OF wp_sd_open_file [OF d]]) (use that n in auto)
  let ?Q = "\<lambda>r w'. file_at w' = file_at w \<and> (\<forall>e. r = Inr e \<longrightarrow> expiry_at w n = Some e)"
  have last: "wp (if \<not> is_utf8 bs then raise DpopPortError else lift (parse_expiry (from_bytes bs))) ?Q u"
    if "file_at u = file_at w" "file_at w n = Some x" "int (length (df_content x)) \<le> 32" "bs = take 33 (df_content x)" for u bs x
    using that by (auto simp: wp_simps expiry_at_def parse_expiry_recorded)
  show ?thesis
    unfolding read_expiry_def
  proof (rule wp_bind_portI [OF wp_sd_metadata [OF d]], goal_cases)
    case (2 st u)
    then obtain x where x: "file_at w n = Some x" "file_at u = file_at w" "st = stat_of x" by auto
    show ?case
      unfolding wp_if wp_raise
      using x
      by (auto simp: stat_of_def wp_raise intro!: wp_bind_portI [OF opens] wp_bind_portI [OF stat [OF _ _ x(1)]]
          wp_bind_portI [OF content [OF _ _ x(1)]] last [OF _ x(1)])
  qed simp
qed

lemma wp_validate_instance_lock:
  assumes "sd_dir d = dir"
  shows "wp (validate_instance_lock sys d) (\<lambda>r w'. file_at w' = file_at w) w"
  unfolding validate_instance_lock_def
  by (rule wp_bind_portI [OF wp_sd_metadata [OF assms]]) (auto simp: wp_simps)

text \<open>Cleaning up removes expired records only, and the count covers every live record.\<close>

definition live_names :: "i64 \<Rightarrow> 'w \<Rightarrow> str set" where
  "live_names now w = {n. is_record_name n \<and> (\<exists>e. expiry_at w n = Some e \<and> now \<le> e)}"

definition cleaned :: "i64 \<Rightarrow> 'w \<Rightarrow> 'w \<Rightarrow> bool" where
  "cleaned now w w' \<longleftrightarrow> keeps_live now w w' \<and> (\<forall>n. file_at w' n = file_at w n \<or> file_at w' n = None)"

lemma cleaned_refl: "file_at w' = file_at w \<Longrightarrow> cleaned now w w'"
  by (simp add: cleaned_def keeps_live_refl)

lemma cleaned_trans: "cleaned now w w' \<Longrightarrow> cleaned now w' w'' \<Longrightarrow> cleaned now w w''"
  unfolding cleaned_def by (metis keeps_live_trans)

lemma cleaned_remove:
  assumes "file_at w' = file_at w \<or> file_at w' = (file_at w)(n := None)" "expiry_at w n = Some e" "e < now"
  shows "cleaned now w w'"
  using assms unfolding cleaned_def keeps_live_def expiry_at_def by (auto split: if_splits)

lemma record_name_not_dot: "is_record_name n \<Longrightarrow> n \<noteq> ''.''"
  by (auto simp: is_record_name_def)

lemma wp_cleanup_and_count:
  assumes d: "sd_dir d = dir"
  shows "wp (cleanup_and_count sys d now) (\<lambda>r w'. cleaned now w w' \<and>
    (\<forall>k. r = Inr k \<longrightarrow> finite (live_names now w) \<and> card (live_names now w) \<le> k)) w"
  unfolding cleanup_and_count_def
proof (rule wp_bind_portI [OF wp_sd_list_names [OF d]], goal_cases)
  case (1 e u)
  then show ?case by (simp add: cleaned_refl)
next
  case (2 names u)
  let ?I = "\<lambda>k seen u. cleaned now w u \<and> card (live_names now w \<inter> set seen) \<le> k"
  have step: "wp (if \<not> is_utf8 (as_bytes n) then raise DpopPortError
       else if is_pending_name n then ret k
       else if n = INSTANCE_LOCK_NAME then bindM (validate_instance_lock sys d) (\<lambda>_. ret k)
       else if \<not> is_record_name n then raise DpopPortError
       else bindM (read_expiry sys d n) (\<lambda>expiry.
         if expiry < now then bindM (port (sd_remove_file sys d n)) (\<lambda>_. ret k) else ret (k + 1)))
      (\<lambda>r u'. case r of Inl e \<Rightarrow> cleaned now w u' | Inr k' \<Rightarrow> ?I k' (seen @ [n]) u') u"
    if I: "?I k seen u" for k n seen u
  proof -
    have skip: "card (live_names now w \<inter> set (seen @ [n])) \<le> k" if "n \<notin> live_names now w"
      using that I by simp
    have count: "card (live_names now w \<inter> set (seen @ [n])) \<le> k + 1"
    proof -
      have "live_names now w \<inter> set (seen @ [n]) \<subseteq> insert n (live_names now w \<inter> set seen)" by auto
      then have "card (live_names now w \<inter> set (seen @ [n])) \<le> card (insert n (live_names now w \<inter> set seen))"
        by (intro card_mono) simp_all
      also have "\<dots> \<le> Suc (card (live_names now w \<inter> set seen))" by (rule card_insert_le_m1) simp_all
      finally show ?thesis using I by simp
    qed
    have expired: "n \<notin> live_names now w" if "expiry_at u n = Some e" "e < now" for e
      using that I unfolding live_names_def cleaned_def keeps_live_def expiry_at_def is_record_name_def
      by force
    have removed: "wp (bindM (port (sd_remove_file sys d n)) (\<lambda>_. ret k))
        (\<lambda>r u'. case r of Inl e \<Rightarrow> cleaned now w u' | Inr k' \<Rightarrow> ?I k' (seen @ [n]) u') u'"
      if "file_at u' = file_at u" "expiry_at u n = Some e" "e < now" for u' e
      using that I skip expired cleaned_trans [of now w u] cleaned_remove [of _ u n e now]
      by (intro wp_bind_portI [OF wp_sd_remove_file [OF d]]) (auto simp: wp_simps)
    have live: "wp (bindM (read_expiry sys d n) (\<lambda>expiry.
        if expiry < now then bindM (port (sd_remove_file sys d n)) (\<lambda>_. ret k) else ret (k + 1)))
        (\<lambda>r u'. case r of Inl e \<Rightarrow> cleaned now w u' | Inr k' \<Rightarrow> ?I k' (seen @ [n]) u') u" if "is_record_name n"
      using I count removed cleaned_trans [of now w u] cleaned_refl [of _ u]
      by (intro wp_bindI [OF wp_read_expiry [OF d record_name_not_dot [OF that]]]) (auto simp: wp_simps)
    have lock: "wp (bindM (validate_instance_lock sys d) (\<lambda>_. ret k))
        (\<lambda>r u'. case r of Inl e \<Rightarrow> cleaned now w u' | Inr k' \<Rightarrow> ?I k' (seen @ [n]) u') u" if "\<not> is_record_name n"
      using I skip that cleaned_trans [of now w u] cleaned_refl [of _ u]
      by (intro wp_bindI [OF wp_validate_instance_lock [OF d]]) (auto simp: wp_simps live_names_def)
    show ?thesis
      using I skip live lock special_not_record by (auto simp: wp_simps live_names_def)
  qed
  have "finite (live_names now w) \<and> live_names now w \<inter> set names = live_names now w"
  proof -
    have "live_names now w \<subseteq> set names"
      using 2 by (auto simp: live_names_def expiry_at_def bind_eq_Some_conv)
    then show ?thesis by (auto intro: finite_subset)
  qed
  moreover have "?I 0 [] u"
    using 2 by (simp add: cleaned_refl)
  ultimately show ?case
    by (intro wp_mono [OF wp_foldM [where I = ?I and E = "\<lambda>e u. cleaned now w u"]])
      (use step in \<open>auto split: sum.splits\<close>)
qed

text \<open>Publishing keeps every record file; when it succeeds, the new record is there.\<close>

lemma keeps_records_upd:
  "keeps_records name w u \<Longrightarrow> \<not> list_all is_lower_hex n \<Longrightarrow> file_at u' = (file_at u)(n := y) \<Longrightarrow>
   keeps_records name w u'"
  by (auto simp: keeps_records_def)

lemma keeps_records_new:
  "keeps_records name w u \<Longrightarrow> file_at u name = None \<Longrightarrow> file_at u' = (file_at u)(name := y) \<Longrightarrow>
   keeps_records name w u'"
  unfolding keeps_records_def by (metis fun_upd_other)

lemma wp_publish_record:
  assumes d: "sd_dir d = dir"
    and "created w f = Some pending" "file_at w pending = Some x" "df_content x = []"
    and pending: "\<not> list_all is_lower_hex pending" and "list_all is_lower_hex name"
  shows "wp (publish_record sys d f pending name expires) (\<lambda>r w'. keeps_records name w w' \<and>
    (r = Inr () \<longrightarrow> expiry_at w' name = Some expires)) w"
proof -
  have ne: "name \<noteq> pending" using assms(5,6) by auto
  let ?Q = "\<lambda>r w'. keeps_records name w w' \<and> (r = Inr () \<longrightarrow> expiry_at w' name = Some expires)"
  let ?done = "\<lambda>u. keeps_records name w u \<and> expiry_at u name = Some expires"
  have same: "?done u'" if "?done u" "file_at u' = file_at u" for u u'
    using that by (simp add: keeps_records_def expiry_at_def)
  have drop: "?done u'" if "?done u" "file_at u' = file_at u \<or> file_at u' = (file_at u)(pending := None)" for u u'
    using that(2)
  proof
    assume u: "file_at u' = (file_at u)(pending := None)"
    then show ?thesis
      using that(1) keeps_records_upd [OF _ pending u] ne by (simp add: expiry_at_def)
  qed (rule same [OF that(1)])
  have 6: "wp (port (sd_sync_all sys d)) ?Q u" if "?done u" for u
    using that same by (intro wp_portI [OF wp_sd_sync_all [OF d]]) blast+
  have 5: "wp (bindM (port (sd_remove_file sys d pending)) (\<lambda>_. port (sd_sync_all sys d))) ?Q u" if "?done u" for u
    using drop [OF that] by (intro wp_bind_portI [OF wp_sd_remove_file [OF d]] 6) blast+
  have 4: "wp (bindM (port (sd_sync_all sys d)) (\<lambda>_. bindM (port (sd_remove_file sys d pending))
      (\<lambda>_. port (sd_sync_all sys d)))) ?Q u" if "?done u" for u
    using same [OF that] by (intro wp_bind_portI [OF wp_sd_sync_all [OF d]] 5) blast+
  have linked: "keeps_records name w u'" if "keeps_records name w u" "file_at u' = file_at u \<or>
      file_at u name = None \<and> file_at u' = (file_at u)(name := file_at u pending)" for u u'
    using that keeps_records_new [of name w u u'] keeps_records_same [of name w u u'] by blast
  have 3: "wp (bindM (port (sd_hard_link sys d pending name)) (\<lambda>_. bindM (port (sd_sync_all sys d))
      (\<lambda>_. bindM (port (sd_remove_file sys d pending)) (\<lambda>_. port (sd_sync_all sys d))))) ?Q u"
    if u: "keeps_records name w u" "file_at u pending = Some y" "recorded_expiry (df_content y) = Some expires" for u y
    using linked [OF u(1)] u(2,3)
    by (intro wp_bind_portI [OF wp_sd_hard_link [OF d]] 4) (auto simp: expiry_at_def)
  have written: "wp (bindM (port (op_file_sync sys f)) (\<lambda>_. bindM (port (sd_hard_link sys d pending name))
      (\<lambda>_. bindM (port (sd_sync_all sys d)) (\<lambda>_. bindM (port (sd_remove_file sys d pending))
      (\<lambda>_. port (sd_sync_all sys d)))))) ?Q u"
    if u: "keeps_records name w u" "file_at u pending = Some y" "recorded_expiry (df_content y) = Some expires" for u y
    using u by (intro wp_bind_portI [OF sync_law] 3) (auto simp: keeps_records_def)
  show ?thesis
    unfolding publish_record_def
  proof (rule wp_bind_portI [OF write_law [OF assms(2,3)]], goal_cases)
    case (1 e u)
    then show ?case
      using keeps_records_upd [OF keeps_records_refl [OF refl] pending] by auto
  next
    case (2 _ u)
    then obtain y where y: "file_at u = (file_at w)(pending \<mapsto> y)"
      "df_content y = as_bytes (fmt_i64 expires @ [newline])"
      using assms(4) by auto
    have "keeps_records name w u"
      using keeps_records_upd [OF keeps_records_refl [OF refl] pending y(1)] .
    then show ?case
      by (rule written [of _ y]) (simp_all only: y recorded_expiry_fmt fun_upd_same)
  qed
qed

lemma wp_pending_name:
  "wp (pending_name sys) (\<lambda>r w'. file_at w' = file_at w \<and> (\<forall>n. r = Inr n \<longrightarrow> (\<exists>s. n = PENDING_PREFIX @ s))) w"
  unfolding pending_name_def by (rule wp_bind_portI [OF random_law]) (auto simp: wp_ret)

lemma wp_create_record:
  assumes d: "sd_dir (fr_directory store) = dir" and name: "list_all is_lower_hex name"
  shows "wp (create_record sys store first active name expires) (\<lambda>r w'. keeps_records name w w' \<and>
    (file_at w' = file_at w \<or> active < fr_capacity store) \<and> r \<noteq> Inr (Some Replay) \<and>
    (r = Inr (Some Fresh) \<longrightarrow> expiry_at w' name = Some expires \<and> active < fr_capacity store)) w"
proof -
  let ?d = "fr_directory store"
  let ?Q = "\<lambda>r w'. keeps_records name w w' \<and>
    (file_at w' = file_at w \<or> active < fr_capacity store) \<and> r \<noteq> Inr (Some Replay) \<and>
    (r = Inr (Some Fresh) \<longrightarrow> expiry_at w' name = Some expires \<and> active < fr_capacity store)"
  let ?undo = "\<lambda>pending. bindM (attempt (sd_metadata sys ?d name)) (\<lambda>final.
      bindM (attempt (sd_remove_file sys ?d pending)) (\<lambda>_.
      bindM (attempt (sd_sync_all sys ?d)) (\<lambda>_.
        if is_ok final \<and> first then ret None else raise DpopPortError)))"
  let ?publish = "\<lambda>pending f. bindM (attempt (publish_record sys ?d f pending name expires)) (\<lambda>initialize.
      if is_ok initialize then ret (Some Fresh) else ?undo pending)"
  have undo: "wp (?undo pending) ?Q u" if "keeps_records name w u" "\<not> list_all is_lower_hex pending" "active < fr_capacity store"
    for u pending
  proof -
    have "keeps_records name w u'" if "file_at u' = file_at u \<or> file_at u' = (file_at u)(pending := None)" for u'
      using that \<open>keeps_records name w u\<close> \<open>\<not> list_all is_lower_hex pending\<close> keeps_records_upd keeps_records_refl
        keeps_records_trans by blast
    then show ?thesis
      using that(3)
      by (intro wp_bind_attemptI [OF wp_sd_metadata [OF d]] wp_bind_attemptI [OF wp_sd_remove_file [OF d]]
          wp_bind_attemptI [OF wp_sd_sync_all [OF d]]) (auto simp: wp_simps)
  qed
  have published: "wp (?publish pending f) ?Q u"
    if u: "active < fr_capacity store" "created u f = Some pending" "file_at w pending = None"
      "file_at u = (file_at w)(pending \<mapsto> x)" "df_content x = []" "\<not> list_all is_lower_hex pending" for u f pending x
  proof -
    have x: "file_at u pending = Some x" and kept: "keeps_records name w u"
      using u keeps_records_upd [OF keeps_records_refl [OF refl] u(6,4)] by simp_all
    show ?thesis
    proof (rule wp_bind_attemptI [OF wp_publish_record [OF d u(2) x u(5,6) name]], goal_cases)
      case (1 r u')
      then have "keeps_records name w u'" using kept keeps_records_trans by blast
      then show ?case
        using 1 u(1,6) undo by (cases r) (auto simp: wp_ret)
    qed
  qed
  show ?thesis
  proof (cases "active < fr_capacity store")
    case True
    have "wp (bindM (attempt (sd_new_file sys ?d (PENDING_PREFIX @ s) 0x180)) (\<lambda>r. case r of
        Inl e \<Rightarrow> if e = AlreadyExists \<and> first then ret None else raise DpopPortError
      | Inr file \<Rightarrow> ?publish (PENDING_PREFIX @ s) file)) ?Q u" if u: "file_at u = file_at w" for u s
    proof (rule wp_bind_attemptI [OF wp_sd_new_file [OF d]], goal_cases)
      case (1 r u')
      then show ?case
        using u published [OF True _ _ _ _ pending_not_hex [of s]]
        by (cases r) (auto simp: wp_ret wp_raise keeps_records_refl simp del: append_Cons)
    qed
    then have "wp (bindM (pending_name sys) (\<lambda>pending. bindM (attempt (sd_new_file sys ?d pending 0x180)) (\<lambda>r. case r of
        Inl e \<Rightarrow> if e = AlreadyExists \<and> first then ret None else raise DpopPortError
      | Inr file \<Rightarrow> ?publish pending file))) ?Q w"
      by (intro wp_bindI [OF wp_pending_name]) (auto simp: keeps_records_refl simp del: append_Cons)
    then show ?thesis
      using True by (simp only: create_record_def Let_def not_le [symmetric] if_False)
  qed (simp add: create_record_def wp_raise keeps_records_refl)
qed

text \<open>One attempt: live records stay, at most the new one is added, and only below the capacity.\<close>

definition adds_within :: "nat \<Rightarrow> i64 \<Rightarrow> str \<Rightarrow> 'w \<Rightarrow> 'w \<Rightarrow> bool" where
  "adds_within cap now name w w' \<longleftrightarrow> keeps_live now w w' \<and>
     (live_names now w' \<subseteq> live_names now w \<or>
      live_names now w' \<subseteq> insert name (live_names now w) \<and> finite (live_names now w) \<and> card (live_names now w) < cap)"

lemma cleaned_adds:
  assumes "cleaned now w w'"
  shows "adds_within cap now name w w'"
proof -
  have "expiry_at w' n = Some e \<Longrightarrow> expiry_at w n = Some e" for n e
    using assms unfolding cleaned_def expiry_at_def by (metis bind.bind_lzero option.distinct(1))
  then have "live_names now w' \<subseteq> live_names now w" unfolding live_names_def by blast
  then show ?thesis using assms by (simp add: adds_within_def cleaned_def)
qed

lemma keeps_records_adds:
  assumes "cleaned now w u" "keeps_records name u w'" "finite (live_names now w)" "card (live_names now w) \<le> active"
    "file_at w' = file_at u \<or> active < cap"
  shows "adds_within cap now name w w'"
  using assms(5)
proof
  assume "file_at w' = file_at u"
  then have "cleaned now w w'" using assms(1) cleaned_refl cleaned_trans by blast
  then show ?thesis by (rule cleaned_adds)
next
  assume "active < cap"
  moreover have "n \<in> live_names now w" if "n \<in> live_names now w'" "n \<noteq> name" for n
  proof -
    have "list_all is_lower_hex n" using that(1) by (simp add: live_names_def is_record_name_def)
    then have "file_at w' n = file_at u n" "file_at u n = file_at w n \<or> file_at u n = None"
      using assms(1,2) that(2) by (auto simp: keeps_records_def cleaned_def)
    then show ?thesis using that(1) by (auto simp: live_names_def expiry_at_def)
  qed
  moreover have "keeps_live now w w'"
    using assms(1) keeps_live_trans keeps_records_live [OF assms(2)] unfolding cleaned_def by blast
  ultimately show ?thesis using assms(3,4) unfolding adds_within_def by auto
qed

text \<open>The answer \<open>Fresh\<close> means that the key had no live record and has one now, \<open>Replay\<close> that it had
  one.\<close>

definition answers :: "i64 \<Rightarrow> str \<Rightarrow> i64 \<Rightarrow> ReplayStatus \<Rightarrow> 'w \<Rightarrow> 'w \<Rightarrow> bool" where
  "answers now name expires status w w' \<longleftrightarrow> (case status of
     Fresh \<Rightarrow> expiry_at w' name = Some expires \<and> (\<forall>e. expiry_at w name = Some e \<longrightarrow> e < now)
   | Replay \<Rightarrow> (\<exists>e. expiry_at w name = Some e \<and> now \<le> e))"

lemma wp_replay_attempt:
  assumes d: "sd_dir (fr_directory store) = dir" and name: "list_all is_lower_hex name"
  shows "wp (replay_attempt sys store first now name expires) (\<lambda>r w'.
    adds_within (fr_capacity store) now name w w' \<and>
    (\<forall>status. r = Inr (Some status) \<longrightarrow> answers now name expires status w w')) w"
proof -
  let ?d = "fr_directory store"
  let ?Q = "\<lambda>r w'. adds_within (fr_capacity store) now name w w' \<and>
    (\<forall>status. r = Inr (Some status) \<longrightarrow> answers now name expires status w w')"
  have dot: "name \<noteq> ''.''" using name dot_not_hex by auto
  have create: "wp (create_record sys store first active name expires) ?Q u"
    if cl: "cleaned now w u" and old: "\<forall>e. expiry_at w name = Some e \<longrightarrow> e < now"
      and count: "finite (live_names now w)" "card (live_names now w) \<le> active" for u active
  proof (rule wp_mono [OF wp_create_record [OF d name]], goal_cases)
    case (1 r u')
    have "answers now name expires status w u'" if "r = Inr (Some status)" for status
      using 1 old that by (cases status) (auto simp: answers_def)
    moreover have "adds_within (fr_capacity store) now name w u'"
      using 1 by (intro keeps_records_adds [OF cl _ count]) blast+
    ultimately show ?case by blast
  qed
  show ?thesis
    unfolding replay_attempt_def Let_def
  proof (rule wp_bindI [OF wp_cleanup_and_count [OF d]], goal_cases)
    case (1 e u)
    then show ?case by (simp add: cleaned_adds)
  next
    case count: (2 active u0)
    have old: "\<forall>e. expiry_at w name = Some e \<longrightarrow> e < now" if "\<And>e. expiry_at u0 name = Some e \<Longrightarrow> e < now"
      using that count name unfolding cleaned_def keeps_live_def by (meson not_less)
    have recorded: "expiry_at w name = Some e" if "expiry_at u0 name = Some e" for e
      using that count unfolding cleaned_def expiry_at_def by (metis bind.bind_lzero option.distinct(1))
    have same: "cleaned now w u" if "file_at u = file_at u0" for u
      using count that cleaned_trans cleaned_refl by blast
    show ?case
    proof (rule wp_bind_attemptI [OF wp_read_expiry [OF d dot]], goal_cases)
      case read: (1 r u)
      have cl: "cleaned now w u" using read same by blast
      show ?case
      proof (cases r)
        case (Inl e)
        have "wp (bindM (attempt (sd_metadata sys ?d name)) (\<lambda>m.
            if m = Inl NotFound then create_record sys store first active name expires else raise DpopPortError)) ?Q u"
        proof (rule wp_bind_attemptI [OF wp_sd_metadata [OF d]], goal_cases)
          case (1 m u')
          have cl': "cleaned now w u'" using 1 read by (intro same) simp
          have "expiry_at u0 name = None" if "m = Inl NotFound"
            using 1 read that by (simp add: expiry_at_def)
          then show ?case
            using create [OF cl' old] count cl' by (auto simp: wp_raise cleaned_adds)
        qed
        then show ?thesis using Inl by simp
      next
        case (Inr e)
        have e: "expiry_at u0 name = Some e" "expiry_at u name = Some e"
          using read Inr by (simp_all add: expiry_at_def)
        show ?thesis
        proof (cases "now \<le> e")
          case True
          then show ?thesis
            using Inr e recorded cl by (auto simp: wp_ret cleaned_adds answers_def)
        next
          case False
          have gone: "cleaned now w u'" if "file_at u' = file_at u \<or> file_at u' = (file_at u)(name := None)" for u'
            using cleaned_trans [OF cl] cleaned_remove [OF that e(2)] False by auto
          have "wp (bindM (port (sd_remove_file sys ?d name)) (\<lambda>_. create_record sys store first active name expires)) ?Q u"
          proof (rule wp_bind_portI [OF wp_sd_remove_file [OF d]], goal_cases)
            case (1 _ u')
            then show ?case using gone cleaned_adds by blast
          next
            case (2 _ u')
            then show ?case
              using create [OF gone old] count e(1) False by auto
          qed
          then show ?thesis using Inr False by simp
        qed
      qed
    qed
  qed
qed

lemma adds_within_trans:
  assumes "adds_within cap now name w u" "adds_within cap now name u w'"
  shows "adds_within cap now name w w'"
proof -
  have live: "keeps_live now w w'" using assms keeps_live_trans unfolding adds_within_def by blast
  have sub: "live_names now w \<subseteq> live_names now u"
    using assms(1) unfolding adds_within_def keeps_live_def live_names_def is_record_name_def by auto
  show ?thesis
  proof (cases "live_names now u \<subseteq> live_names now w")
    case True
    with sub have "live_names now u = live_names now w" by blast
    then show ?thesis using assms(2) live by (simp add: adds_within_def)
  next
    case False
    then have "live_names now u \<subseteq> insert name (live_names now w)" "finite (live_names now w)"
      "card (live_names now w) < cap"
      using assms(1) by (auto simp: adds_within_def)
    moreover have "live_names now w' \<subseteq> insert name (live_names now u)"
      using assms(2) by (auto simp: adds_within_def)
    ultimately show ?thesis using live unfolding adds_within_def by blast
  qed
qed

text \<open>The whole operation: two attempts at most.\<close>

lemma wp_file_check_and_record:
  assumes d: "sd_dir (fr_directory store) = dir"
  shows "wp (\<lambda>w. file_check_and_record sys store (Inr now) w key expires) (\<lambda>r w'.
    adds_within (fr_capacity store) now (name_for key) w w' \<and>
    (\<forall>status. r = Inr status \<longrightarrow> now \<le> expires \<and> answers now (name_for key) expires status w w' \<or>
       status = Replay)) w"
proof -
  let ?n = "name_for key"
  let ?Q = "\<lambda>r w'. adds_within (fr_capacity store) now ?n w w' \<and>
    (\<forall>status. r = Inr status \<longrightarrow> now \<le> expires \<and> answers now ?n expires status w w' \<or> status = Replay)"
  have refl: "adds_within (fr_capacity store) now ?n w w" by (simp add: cleaned_adds cleaned_refl)
  note attempt1 = wp_replay_attempt [OF d name_for_hex]
  have second: "wp (bindM (replay_attempt sys store False now ?n expires)
      (\<lambda>r. case r of Some status \<Rightarrow> ret status | None \<Rightarrow> raise DpopPortError)) ?Q u"
    if u: "adds_within (fr_capacity store) now ?n w u" "now \<le> expires" for u
  proof -
    have kept: "\<forall>e. expiry_at w ?n = Some e \<and> \<not> e < now \<longrightarrow> expiry_at u ?n = Some e"
      using u(1) name_for_hex [of key] by (simp add: adds_within_def keeps_live_def)
    have "answers now ?n expires Fresh w u'" if "answers now ?n expires Fresh u u'" for u'
      using that kept unfolding answers_def ReplayStatus.case by blast
    then have "answers now ?n expires status w u' \<or> status = Replay" if "answers now ?n expires status u u'" for status u'
      using that by (cases status) simp_all
    then have "?Q (Inr status) u'" if "adds_within (fr_capacity store) now ?n u u'" "answers now ?n expires status u u'" for status u'
      using that u(2) adds_within_trans [OF u(1)] by blast
    then show ?thesis
      using adds_within_trans [OF u(1)]
      by (intro wp_bindI [OF attempt1]) (auto simp: wp_ret wp_raise split: option.split)
  qed
  have "wp (bindM (replay_attempt sys store True now ?n expires) (\<lambda>r. case r of
        Some status \<Rightarrow> ret status
      | None \<Rightarrow> bindM (replay_attempt sys store False now ?n expires)
          (\<lambda>r. case r of Some status \<Rightarrow> ret status | None \<Rightarrow> raise DpopPortError))) ?Q w" if "now \<le> expires"
    using that second by (intro wp_bindI [OF attempt1]) (auto simp: wp_simps split: option.splits)
  then show ?thesis
    using refl by (auto simp: file_check_and_record_def [abs_def] wp_simps)
qed

text \<open>Starting the store over a directory leaves every record as it is.\<close>

definition same_records :: "'w \<Rightarrow> 'w \<Rightarrow> bool" where
  "same_records w w' \<longleftrightarrow> (\<forall>n. list_all is_lower_hex n \<longrightarrow> file_at w' n = file_at w n)"

lemma same_records_trans: "same_records w u \<Longrightarrow> same_records u w' \<Longrightarrow> same_records w w'"
  by (simp add: same_records_def)

lemma same_records_same: "file_at w' = file_at w \<Longrightarrow> same_records w w'"
  by (simp add: same_records_def)

lemma same_records_upd:
  "\<not> list_all is_lower_hex n \<Longrightarrow> file_at w' = file_at w \<or> file_at w' = (file_at w)(n := y) \<Longrightarrow> same_records w w'"
  by (auto simp: same_records_def)

lemma lock_name_not_hex: "\<not> list_all is_lower_hex INSTANCE_LOCK_NAME"
  by (simp add: INSTANCE_LOCK_NAME_def dot_not_hex)

lemma wp_acquire_instance_lock:
  assumes d: "sd_dir d = dir"
  shows "wp (acquire_instance_lock sys d) (\<lambda>_. same_records w) w"
proof -
  let ?Q = "\<lambda>_. same_records w"
  have meta: "wp (op_file_metadata sys f) ?Q u" and lock: "wp (op_file_lock sys f) ?Q u" if "same_records w u" for f u
    using wp_mono [OF file_metadata_law] wp_mono [OF lock_law] same_records_trans [OF that] same_records_same by metis+
  have open_it: "wp (bindM (validate_instance_lock sys d) (\<lambda>_. port (sd_open_file sys d INSTANCE_LOCK_NAME))) ?Q u"
    if "same_records w u" for u
    using same_records_trans [OF that] same_records_same
    by (intro wp_bindI [OF wp_validate_instance_lock [OF d]] wp_portI [OF wp_sd_open_file [OF d]]) metis+
  have new: "same_records w u" if "case r of Inl _ \<Rightarrow> file_at u = file_at w
      | Inr f \<Rightarrow> file_at w INSTANCE_LOCK_NAME = None \<and> created u f = Some INSTANCE_LOCK_NAME \<and>
          (\<exists>x. df_content x = [] \<and> file_at u = (file_at w)(INSTANCE_LOCK_NAME \<mapsto> x))" for u and r :: "ErrorKind + 'f"
    using that same_records_upd [OF lock_name_not_hex] by (cases r) auto
  show ?thesis
    unfolding acquire_instance_lock_def
    by (rule wp_bind_attemptI [OF wp_sd_new_file [OF d]], drule new, rule wp_bindI [where P = ?Q])
      (auto simp: wp_ret wp_raise wp_if intro!: open_it wp_bind_portI [OF meta] wp_bind_portI [OF lock] split: sum.split)
qed

lemma wp_cleanup_startup_pending:
  assumes d: "sd_dir d = dir"
  shows "wp (cleanup_startup_pending sys d) (\<lambda>_. same_records w) w"
proof -
  let ?Q = "\<lambda>_. same_records w"
  have clean: "wp (cleanup_pending sys d name) ?Q u" if "same_records w u" "is_pending_name name" for name u
    unfolding cleanup_pending_def
  proof (rule wp_bind_portI [OF wp_sd_metadata [OF d]], goal_cases)
    case (2 st u')
    then have u': "same_records w u'" using same_records_trans [OF that(1)] same_records_same by blast
    show ?case
      using u' same_records_trans [OF u' same_records_upd [OF is_pending_not_hex [OF that(2)]]]
      by (auto simp: wp_simps intro!: wp_portI [OF wp_sd_remove_file [OF d]])
  qed (use same_records_trans [OF that(1)] same_records_same in blast)
  have sync: "wp (port (sd_sync_all sys d)) ?Q u" if "same_records w u" for u
    using same_records_trans [OF that] same_records_same by (intro wp_portI [OF wp_sd_sync_all [OF d]]) blast+
  have loop: "wp (foldM (\<lambda>removed_any name.
      if \<not> is_utf8 (as_bytes name) then raise DpopPortError
      else if is_pending_name name then bindM (cleanup_pending sys d name) (\<lambda>_. ret True)
      else ret removed_any) False names) ?Q u" if "same_records w u" for names u
    by (rule wp_mono [OF wp_foldM [where I = "\<lambda>_ _. same_records w" and E = "\<lambda>_. same_records w"]])
      (use that in \<open>auto simp: wp_ret wp_raise split: sum.splits intro!: wp_bindI [OF clean]\<close>)
  show ?thesis
    unfolding cleanup_startup_pending_def
    by (rule wp_bind_portI [OF wp_sd_list_names [OF d]])
      (auto simp: wp_ret same_records_same intro!: wp_bindI [OF loop] sync)
qed

lemma wp_file_replay_store_open:
  assumes d: "sd_dir d = dir"
  shows "wp (file_replay_store_open sys d cap) (\<lambda>r w'. same_records w w' \<and>
    (\<forall>store. r = Inr store \<longrightarrow> fr_directory store = d \<and> fr_capacity store = cap)) w"
  unfolding file_replay_store_open_def
  by (rule wp_bindI [OF wp_acquire_instance_lock [OF d]], simp,
      rule wp_bindI [OF wp_cleanup_startup_pending [OF d]])
    (auto simp: wp_ret intro: same_records_trans)

text \<open>The persistent store keeps the replay contract, over every behaviour of the directory.\<close>

lemma file_replay_store:
  assumes d: "sd_dir (fr_directory store) = dir"
  shows "replay_store (\<lambda>t. file_check_and_record sys store (Inr t)) (\<lambda>_. True) (\<lambda>w k. expiry_at w (name_for k))"
proof (unfold_locales, goal_cases)
  case (2 w t k e w')
  then show ?case using wpD [OF wp_file_check_and_record [OF d] 2(2)] by (simp add: answers_def)
next
  case (3 w t k e w' e')
  then show ?case using wpD [OF wp_file_check_and_record [OF d] 3(2)] by (simp add: answers_def)
next
  case (4 w t k e r w' k' e')
  then show ?case
    using wpD [OF wp_file_check_and_record [OF d] 4(2)] name_for_hex [of k'] by (simp add: adds_within_def keeps_live_def)
qed simp

lemma file_server:
  assumes "sd_dir (fr_directory store) = dir"
  shows "verifying_server (\<lambda>t. file_check_and_record sys store (Inr t)) (\<lambda>_. True) (\<lambda>w k. expiry_at w (name_for k))"
  using file_replay_store [OF assms] by (simp add: verifying_server_def)

text \<open>The number of live records never passes the capacity.\<close>

lemma live_names_antimono: "now \<le> now' \<Longrightarrow> live_names now' w \<subseteq> live_names now w"
  by (auto simp: live_names_def)

lemma adds_within_capacity:
  assumes "adds_within cap now name w w'" "finite (live_names now w)" "card (live_names now w) \<le> cap"
  shows "finite (live_names now w') \<and> card (live_names now w') \<le> cap"
proof (cases "live_names now w' \<subseteq> live_names now w")
  case True
  then show ?thesis using assms(2,3) by (meson card_mono finite_subset order_trans)
next
  case False
  then have sub: "live_names now w' \<subseteq> insert name (live_names now w)" and "card (live_names now w) < cap"
    using assms(1) by (auto simp: adds_within_def)
  then have "card (live_names now w') \<le> Suc (card (live_names now w))"
    using card_mono [OF _ sub] card_insert_le_m1 [of "Suc (card (live_names now w))" "live_names now w" name] assms(2)
    by (simp add: card_insert_if split: if_splits)
  then show ?thesis
    using \<open>card (live_names now w) < cap\<close> assms(2) finite_subset [OF sub] by simp
qed

lemma live_names_alt: "live_names now w =
  {n. is_record_name n \<and> (\<exists>x e. file_at w n = Some x \<and> recorded_expiry (df_content x) = Some e \<and> now \<le> e)}"
  by (auto simp: live_names_def expiry_at_def bind_eq_Some_conv)

end

section \<open>The store across restarts\<close>

text \<open>The host presents proofs while the store is open; a restart opens it again over the same
  directory, and a failed start leaves the host without a store. The second component of the
  state is the open store.\<close>

datatype store_event =
    Presented verify_call
  | Restarted i64

fun event_time :: "store_event \<Rightarrow> i64" where
  "event_time (Presented c) = vc_time c"
| "event_time (Restarted t) = t"

fun durable_step ::
  "externs \<Rightarrow> VerificationPolicy \<Rightarrow> ('h, 'f, 'w) fs_ops \<Rightarrow> 'h SecureDir \<Rightarrow> nat
   \<Rightarrow> 'w \<times> ('h, 'f) FileReplayStore option \<Rightarrow> store_event
   \<Rightarrow> (DpopError + VerifiedDpopProof) option \<times> ('w \<times> ('h, 'f) FileReplayStore option)" where
  "durable_step X policy sys d cap (w, st) (Presented c) =
     (case st of
        None \<Rightarrow> (None, (w, None))
      | Some store \<Rightarrow>
          (case dpop_verify X policy (vc_clock c) (file_check_and_record sys store (Inr (vc_time c)))
                  (vc_proof c) (vc_request c) w of
             (r, w') \<Rightarrow> (Some r, (w', Some store))))"
| "durable_step X policy sys d cap (w, st) (Restarted t) =
     (case file_replay_store_open sys d cap w of
        (Inl _, w') \<Rightarrow> (None, (w', None))
      | (Inr store, w') \<Rightarrow> (None, (w', Some store)))"

fun event_accepts ::
  "externs \<Rightarrow> VerificationPolicy \<Rightarrow> store_event \<Rightarrow> (DpopError + VerifiedDpopProof) option
   \<Rightarrow> (ReplayKey \<times> i64) option" where
  "event_accepts X policy (Presented c) (Some r) = accepted_call X policy c r"
| "event_accepts X policy _ _ = None"

definition store_over :: "'h SecureDir \<Rightarrow> nat \<Rightarrow> 'w \<times> ('h, 'f) FileReplayStore option \<Rightarrow> bool" where
  "store_over d cap s \<longleftrightarrow> (\<forall>store. snd s = Some store \<longrightarrow> fr_directory store = d \<and> fr_capacity store = cap)"

locale durable_store = posix_directory +
  fixes d :: "'a SecureDir" and cap :: nat and X :: externs and policy :: VerificationPolicy
  assumes over_dir: "sd_dir d = dir"
begin

lemma durable_cases:
  assumes "store_over d cap s" "durable_step X policy sys d cap s ev = (r, s')"
  obtains (verify) c store q where "ev = Presented c" "snd s = Some store" "sd_dir (fr_directory store) = dir"
      "dpop_verify X policy (vc_clock c) (file_check_and_record sys store (Inr (vc_time c))) (vc_proof c) (vc_request c)
        (fst s) = (q, fst s')" "r = Some q" "snd s' = snd s"
  | (other) "same_records (fst s) (fst s')" "event_accepts X policy ev r = None" "store_over d cap s'"
proof (cases s)
  case [simp]: (Pair w st)
  show ?thesis
  proof (cases ev)
    case ev: (Presented c)
    show ?thesis
    proof (cases st)
      case None
      then have "s' = s \<and> r = None" using assms(2) ev by simp
      then show ?thesis using assms(1) ev by (intro other) (simp_all add: same_records_def)
    next
      case (Some store)
      have dir: "sd_dir (fr_directory store) = dir"
        using assms(1) over_dir Some by (simp add: store_over_def)
      obtain q w' where q: "dpop_verify X policy (vc_clock c) (file_check_and_record sys store (Inr (vc_time c)))
          (vc_proof c) (vc_request c) w = (q, w')" by fastforce
      then have "r = Some q \<and> s' = (w', Some store)" using assms(2) ev Some by simp
      then show ?thesis using ev Some dir q by (intro verify) simp_all
    qed
  next
    case ev: (Restarted t)
    obtain q w' where q: "file_replay_store_open sys d cap w = (q, w')" by fastforce
    have kept: "same_records w w'" "\<forall>store. q = Inr store \<longrightarrow> fr_directory store = d \<and> fr_capacity store = cap"
      using wpD [OF wp_file_replay_store_open [OF over_dir] q] by blast+
    have "s' = (w', case q of Inl _ \<Rightarrow> None | Inr store \<Rightarrow> Some store)"
      using assms(2) q ev by (cases q) simp_all
    moreover from kept(2) this have "store_over d cap s'"
      unfolding store_over_def by (cases q) simp_all
    ultimately show ?thesis using kept(1) ev by (intro other) simp_all
  qed
qed

lemma same_records_expiry: "same_records w w' \<Longrightarrow> expiry_at w' (name_for k) = expiry_at w (name_for k)"
  using name_for_hex [of k] by (simp add: same_records_def expiry_at_def)

end

sublocale durable_store \<subseteq> durable: one_shot "durable_step X policy sys d cap" "store_over d cap"
  "\<lambda>s k. expiry_at (fst s) (name_for k)" event_time "event_accepts X policy"
proof (unfold_locales, goal_cases)
  case (1 s ev r s')
  from 1 show ?case by (cases rule: durable_cases) (use 1(1) in \<open>simp_all add: store_over_def\<close>)
next
  case (2 s ev r s' k e)
  from 2(1,2) show ?case
  proof (cases rule: durable_cases)
    case (verify c store q)
    then have "file_check_and_record sys store (Inr (vc_time c)) (fst s) k e = (Inr Fresh, fst s')"
      using verifying_server.verify_accepted [OF file_server [OF verify(3)] TrueI verify(4)] 2(3) by simp
    from replay_store.check_fresh [OF file_replay_store [OF verify(3)] TrueI this] show ?thesis
      using verify(1) by simp
  qed (use 2(3) in simp)
next
  case (3 s ev r s' k e e')
  from 3(1,2) show ?case
  proof (cases rule: durable_cases)
    case (verify c store q)
    then have "file_check_and_record sys store (Inr (vc_time c)) (fst s) k e = (Inr Fresh, fst s')"
      using verifying_server.verify_accepted [OF file_server [OF verify(3)] TrueI verify(4)] 3(3) by simp
    from replay_store.check_fresh_new [OF file_replay_store [OF verify(3)] TrueI this, of e'] show ?thesis
      using verify(1) 3(4) by simp
  qed (use 3(3) in simp)
next
  case (4 s ev r s' k e)
  from 4(1,2) show ?case
  proof (cases rule: durable_cases)
    case (verify c store q)
    then show ?thesis
      using verifying_server.verify_keeps [OF file_server [OF verify(3)] TrueI verify(4) 4(3)] 4(4) by simp
  next
    case other
    then show ?thesis using 4(3) same_records_expiry by simp
  qed
qed

context durable_store
begin

lemma presented_once:
  assumes run: "run_ops (durable_step X policy sys d cap) (w, None) events = (rs, s')" "sorted (map event_time events)"
    and ij: "i < length events" "j < length events" "events ! i = Presented ci" "events ! j = Presented cj"
    and acc: "rs ! i = Some (Inr vi)" "rs ! j = Some (Inr vj)" "vc_proof ci = vc_proof cj"
  shows "i = j"
proof -
  have key: "accepted_call X policy c (Inr v) = proof_replay_record X policy (vc_proof c) \<and>
      proof_replay_record X policy (vc_proof c) \<noteq> None"
    if m: "m < length events" "events ! m = Presented c" "rs ! m = Some (Inr v)" for m c v
  proof (rule run_ops_nth [OF run(1) m(1)], goal_cases)
    case (1 s1 s2)
    then obtain w1 w2 store where "dpop_verify X policy (vc_clock c) (file_check_and_record sys store (Inr (vc_time c)))
        (vc_proof c) (vc_request c) w1 = (Inr v, w2)"
      using m by (cases s1) (auto split: option.splits prod.splits)
    then show ?case by (intro accepted_call_record) (simp_all add: result_simps)
  qed
  obtain k e where "event_accepts X policy (events ! i) (rs ! i) = Some (k, e)"
    "event_accepts X policy (events ! j) (rs ! j) = Some (k, e)"
    using key [OF ij(1,3) acc(1)] key [OF ij(2,4) acc(2)] ij(3,4) acc by auto
  then show ?thesis
    using durable.accepted_once [OF _ run ij(1,2)] by (simp add: store_over_def)
qed

end

end
