(* ===== verification/Replay_Progress.thy ===== *)
theory Replay_Progress
  imports Replay_File
begin

text \<open>
  What the persistent replay store answers when the directory works: an interface for a directory
  whose operations succeed whenever they can, and the exact answer of \<open>check_and_record\<close> over it.
\<close>

section \<open>Names that can be used\<close>

lemma slash_not_hex: "\<not> is_lower_hex (CHR ''/'')"
  by code_simp

lemma hex_char_ascii: "is_lower_hex c \<Longrightarrow> byte_of c < 0x80"
  by (auto simp: is_lower_hex_def is_ascii_digit_def word_le_nat_alt word_less_nat_alt)

lemma utf8_ascii: "list_all (\<lambda>b. b < 0x80) bs \<Longrightarrow> is_utf8 bs"
  by (induction bs) auto

lemma hex_utf8: "list_all is_lower_hex n \<Longrightarrow> is_utf8 (as_bytes n)"
  using hex_char_ascii by (intro utf8_ascii) (auto simp: list_all_iff as_bytes_def)

lemma hex_component: "list_all is_lower_hex n \<Longrightarrow> n \<noteq> [] \<Longrightarrow> validate_single_component n = Inr ()"
  using slash_not_hex dot_not_hex by (intro single_component) (auto simp: list_all_iff)

lemma record_name_component: "is_record_name n \<Longrightarrow> validate_single_component n = Inr ()"
  by (rule hex_component) (auto simp: is_record_name_def)

lemma pending_component: "validate_single_component (PENDING_PREFIX @ hex_name bs) = Inr ()"
  using slash_not_hex hex_name_lower_hex [of bs]
  by (intro single_component) (auto simp: list_all_iff PENDING_PREFIX_def)

lemma lock_component: "validate_single_component INSTANCE_LOCK_NAME = Inr ()"
  by (rule single_component) (simp_all add: INSTANCE_LOCK_NAME_def)

lemma lock_utf8: "is_utf8 (as_bytes INSTANCE_LOCK_NAME)"
  unfolding INSTANCE_LOCK_NAME_def by code_simp

lemma lock_not_pending: "\<not> is_pending_name INSTANCE_LOCK_NAME"
  by (auto simp: is_pending_name_iff PENDING_PREFIX_def INSTANCE_LOCK_NAME_def)

lemma hex_name_length: "length (hex_name bs) = 2 * length bs"
  by (induction bs) (simp_all add: hex_name_def)

lemma name_for_record: "length (replay_key_bytes k) = 32 \<Longrightarrow> is_record_name (name_for k)"
  by (simp add: is_record_name_def name_for_def hex_name_length hex_name_lower_hex)

section \<open>A directory that works\<close>

definition lock_ok :: "u32 \<Rightarrow> dfile \<Rightarrow> bool" where
  "lock_ok uid x \<longleftrightarrow> is_file (stat_of x) \<and> df_uid x = uid \<and> private_mode (stat_of x) \<and> df_content x = []"

definition record_ok :: "u32 \<Rightarrow> dfile \<Rightarrow> i64 \<Rightarrow> bool" where
  "record_ok uid x e \<longleftrightarrow> is_file (stat_of x) \<and> df_uid x = uid \<and> private_mode (stat_of x) \<and>
     df_content x \<noteq> [] \<and> length (df_content x) \<le> 32 \<and> is_utf8 (df_content x) \<and>
     parse_expiry (from_bytes (df_content x)) = Inr e"

text \<open>A directory without leftovers: the lock file and readable records.\<close>

definition tidy :: "u32 \<Rightarrow> (str \<Rightarrow> dfile option) \<Rightarrow> bool" where
  "tidy uid files \<longleftrightarrow> (\<forall>n x. files n = Some x \<longrightarrow>
     n = INSTANCE_LOCK_NAME \<and> lock_ok uid x \<or> is_record_name n \<and> (\<exists>e. record_ok uid x e))"

text \<open>Every call succeeds, and files are created for the user \<open>uid\<close> of the process with the mode asked
  for, which writing leaves as it is.\<close>

locale reliable_directory = posix_directory +
  fixes healthy :: "'c \<Rightarrow> bool" and uid :: u32
  assumes list_ok: "healthy w \<Longrightarrow> wp (op_list_dir sys dir) (\<lambda>r w'. healthy w' \<and>
      (\<exists>ns. r = Inr (map Inr ns) \<and> distinct ns \<and> (\<forall>n \<in> set ns. file_at w n \<noteq> None))) w"
    and metadata_ok: "healthy w \<Longrightarrow> wp (op_metadata sys dir n) (\<lambda>r w'. healthy w' \<and>
      (case file_at w n of None \<Rightarrow> r = Inl NotFound | Some x \<Rightarrow> r = Inr (stat_of x))) w"
    and open_ok: "healthy w \<Longrightarrow> n = ''.'' \<or> file_at w n \<noteq> None \<Longrightarrow>
      wp (op_open_file sys dir n) (\<lambda>r w'. healthy w' \<and> is_ok r) w"
    and file_metadata_ok: "healthy w \<Longrightarrow> opened w f = Some n \<Longrightarrow> file_at w n \<noteq> None \<Longrightarrow>
      wp (op_file_metadata sys f) (\<lambda>r w'. healthy w' \<and> is_ok r) w"
    and read_ok: "healthy w \<Longrightarrow> opened w f = Some n \<Longrightarrow> file_at w n \<noteq> None \<Longrightarrow>
      wp (op_file_read sys f k) (\<lambda>r w'. healthy w' \<and> is_ok r) w"
    and new_ok: "healthy w \<Longrightarrow> file_at w n = None \<Longrightarrow> wp (op_new_file sys dir n m) (\<lambda>r w'. healthy w' \<and> is_ok r \<and>
      (\<forall>x. file_at w' n = Some x \<longrightarrow> df_uid x = uid \<and> (m = 0x180 \<longrightarrow> df_mode x = S_IFREG OR m))) w"
    and write_ok: "healthy w \<Longrightarrow> created w f = Some n \<Longrightarrow> file_at w n = Some x \<Longrightarrow>
      wp (op_file_write sys f bs) (\<lambda>r w'. healthy w' \<and> is_ok r \<and>
        (\<forall>x'. file_at w' n = Some x' \<longrightarrow> df_uid x' = df_uid x \<and> df_mode x' = df_mode x)) w"
    and sync_ok: "healthy w \<Longrightarrow> wp (op_file_sync sys f) (\<lambda>r w'. healthy w' \<and> is_ok r) w"
    and link_ok: "healthy w \<Longrightarrow> file_at w a \<noteq> None \<Longrightarrow> file_at w b = None \<Longrightarrow>
      wp (op_hardlink sys dir a b) (\<lambda>r w'. healthy w' \<and> is_ok r) w"
    and remove_ok: "healthy w \<Longrightarrow> file_at w n \<noteq> None \<Longrightarrow>
      wp (op_remove_file sys dir n) (\<lambda>r w'. healthy w' \<and> is_ok r) w"
    and random_ok: "healthy w \<Longrightarrow> wp (op_random sys k) (\<lambda>r w'. healthy w' \<and> is_ok r) w"
begin

text \<open>Operations of the secure directory, with both laws.\<close>

lemma ok_metadata:
  assumes "sd_dir d = dir" "healthy w" "validate_single_component n = Inr ()"
  shows "wp (sd_metadata sys d n) (\<lambda>r w'. healthy w' \<and> file_at w' = file_at w \<and>
    (case file_at w n of None \<Rightarrow> r = Inl NotFound | Some x \<Rightarrow> r = Inr (stat_of x))) w"
  unfolding sd_metadata_def assms(1,3) wp_bindM wp_lift sum.case
  by (rule wp_both [OF metadata_ok [OF assms(2)] metadata_law]) simp

lemma ok_open:
  assumes "sd_dir d = dir" "healthy w" "validate_single_component n = Inr ()" "file_at w n \<noteq> None" "n \<noteq> ''.''"
  shows "wp (sd_open_file sys d n) (\<lambda>r w'. healthy w' \<and> file_at w' = file_at w \<and> (\<exists>f. r = Inr f \<and> opened w' f = Some n)) w"
  unfolding sd_open_file_def assms(1,3) wp_bindM wp_lift sum.case
  by (rule wp_both [OF open_ok [OF assms(2)] open_law]) (use assms(4,5) in \<open>auto simp: result_simps\<close>)

lemma ok_remove:
  assumes "sd_dir d = dir" "healthy w" "validate_single_component n = Inr ()" "file_at w n \<noteq> None"
  shows "wp (sd_remove_file sys d n) (\<lambda>r w'. healthy w' \<and> r = Inr () \<and> file_at w' = (file_at w)(n := None)) w"
  unfolding sd_remove_file_def assms(1,3) wp_bindM wp_lift sum.case
  by (rule wp_both [OF remove_ok [OF assms(2,4)] remove_law]) (auto simp: result_simps)

lemma ok_sync:
  assumes "sd_dir d = dir" "healthy w"
  shows "wp (sd_sync_all sys d) (\<lambda>r w'. healthy w' \<and> r = Inr () \<and> file_at w' = file_at w) w"
  unfolding sd_sync_all_def assms(1) wp_bindM
proof (rule wp_both [OF open_ok [OF assms(2) disjI1 [OF refl]] open_law], goal_cases)
  case (1 r u)
  then obtain f where f: "r = Inr f" by (auto simp: result_simps)
  show ?case
    unfolding f sum.case using 1
    by (intro wp_both [OF sync_ok sync_law]) (auto simp: result_simps)
qed

lemma ok_names:
  assumes "sd_dir d = dir" "healthy w" "\<And>n. file_at w n \<noteq> None \<Longrightarrow> validate_single_component n = Inr ()"
  shows "wp (sd_list_names sys d) (\<lambda>r w'. healthy w' \<and> file_at w' = file_at w \<and>
    (\<exists>ns. r = Inr ns \<and> distinct ns \<and> set ns = {n. file_at w n \<noteq> None})) w"
proof -
  have loop: "wp (foldM (\<lambda>names entry. bindM (lift entry) (\<lambda>name.
      bindM (lift (validate_single_component name)) (\<lambda>_. ret (names @ [name])))) acc (map Inr ns))
      (\<lambda>r w'. w' = u \<and> r = Inr (acc @ ns)) u" if "\<forall>n \<in> set ns. validate_single_component n = Inr ()" for acc ns u
    using that
  proof (induction ns arbitrary: acc)
    case (Cons n ns)
    then show ?case using Cons.IH [of "acc @ [n]"] by (simp add: wp_simps)
  qed (simp add: wp_simps)
  show ?thesis
    unfolding sd_list_names_def assms(1) wp_bindM
  proof (rule wp_both [OF list_ok [OF assms(2)] list_law], goal_cases)
    case (1 r u)
    then obtain ns where ns: "r = Inr (map Inr ns)" "distinct ns" "\<forall>n \<in> set ns. file_at w n \<noteq> None" "healthy u"
      "file_at u = file_at w" by blast
    have "n \<in> set ns" if "file_at w n \<noteq> None" for n using 1(2) ns(1) that by auto
    then have "set ns = {n. file_at w n \<noteq> None}" using ns(3) by blast
    then show ?case
      using ns assms(3) by (auto intro!: wp_mono [OF loop])
  qed
qed

text \<open>Reading records.\<close>

lemma ok_read_expiry:
  assumes d: "sd_dir d = dir" and w: "healthy w" "file_at w n = Some x" and x: "record_ok (sd_owner_uid d) x e"
    and n: "is_record_name n"
  shows "wp (read_expiry sys d n) (\<lambda>r w'. healthy w' \<and> file_at w' = file_at w \<and> r = Inr e) w"
proof -
  let ?Q = "\<lambda>r w'. healthy w' \<and> file_at w' = file_at w \<and> r = Inr e"
  note comp = record_name_component [OF n] record_name_not_dot [OF n]
  have read: "wp (op_file_read sys f 33) (\<lambda>r w'. healthy w' \<and> file_at w' = file_at w \<and> r = Inr (df_content x)) u"
    if "healthy u" "file_at u = file_at w" "opened u f = Some n" for u f
    by (rule wp_both [OF read_ok [OF that(1,3)] read_law]) (use that w x in \<open>auto simp: result_simps record_ok_def\<close>)
  have stat: "wp (op_file_metadata sys f) (\<lambda>r w'. healthy w' \<and> file_at w' = file_at w \<and> opened w' f = Some n \<and>
      r = Inr (stat_of x)) u" if "healthy u" "file_at u = file_at w" "opened u f = Some n" for u f
    by (rule wp_both [OF file_metadata_ok [OF that(1,3)] file_metadata_law]) (use that w in \<open>auto simp: result_simps\<close>)
  have "wp (read_expiry sys d n) ?Q w"
    unfolding read_expiry_def
    using x w
    by (intro wp_bind_portI [OF ok_metadata [OF d w(1) comp(1)]])
      (auto simp: record_ok_def stat_of_def wp_lift intro!: wp_bind_portI [OF ok_open [OF d _ comp(1)]] comp(2)
        wp_bind_portI [OF stat] wp_bind_portI [OF read])
  then show ?thesis .
qed

lemma missing_read_expiry:
  assumes d: "sd_dir d = dir" and w: "healthy w" "file_at w n = None" and n: "validate_single_component n = Inr ()"
  shows "wp (read_expiry sys d n) (\<lambda>r w'. healthy w' \<and> file_at w' = file_at w \<and> (\<exists>e. r = Inl e)) w"
  unfolding read_expiry_def using w
  by (intro wp_bind_portI [OF ok_metadata [OF d w(1) n]]) auto

text \<open>The directory after the removal of expired records.\<close>

definition swept :: "i64 \<Rightarrow> str set \<Rightarrow> 'c \<Rightarrow> 'c \<Rightarrow> bool" where
  "swept now ns w u \<longleftrightarrow> (\<forall>n. file_at u n =
     (if n \<in> ns \<and> is_record_name n \<and> n \<notin> live_names now w then None else file_at w n))"

lemma record_expiry: "file_at w n = Some x \<Longrightarrow> record_ok owner x e \<Longrightarrow> expiry_at w n = Some e"
  by (simp add: expiry_at_def record_ok_def parse_expiry_recorded)

lemma record_live:
  "file_at w n = Some x \<Longrightarrow> record_ok owner x e \<Longrightarrow> is_record_name n \<Longrightarrow> n \<in> live_names now w \<longleftrightarrow> now \<le> e"
  by (auto simp: live_names_def record_expiry)

lemma lock_not_live: "INSTANCE_LOCK_NAME \<notin> live_names now w"
  using special_not_record(2) by (simp add: live_names_def)

lemma ok_cleanup_and_count:
  assumes d: "sd_dir d = dir" and w: "healthy w" "tidy (sd_owner_uid d) (file_at w)"
  shows "wp (cleanup_and_count sys d now) (\<lambda>r u. healthy u \<and> swept now UNIV w u \<and>
    r = Inr (card (live_names now w))) w"
proof -
  let ?step = "\<lambda>active name.
     if \<not> is_utf8 (as_bytes name) then raise DpopPortError
     else if is_pending_name name then ret active
     else if name = INSTANCE_LOCK_NAME then bindM (validate_instance_lock sys d) (\<lambda>_. ret active)
     else if \<not> is_record_name name then raise DpopPortError
     else bindM (read_expiry sys d name) (\<lambda>expiry.
       if expiry < now then bindM (port (sd_remove_file sys d name)) (\<lambda>_. ret active) else ret (active + 1))"
  let ?I = "\<lambda>k seen u. healthy u \<and> swept now (set seen) w u \<and> k = card (live_names now w \<inter> set seen)"
  have step: "wp (?step k n) (\<lambda>r u'. case r of Inl e \<Rightarrow> False | Inr k' \<Rightarrow> ?I k' (seen @ [n]) u') u"
    if n: "n \<notin> set seen" "file_at w n \<noteq> None" and I: "?I k seen u" for k n seen u
  proof -
    obtain x where x: "file_at w n = Some x" "file_at u n = Some x"
      using n I by (auto simp: swept_def)
    consider (lock) "n = INSTANCE_LOCK_NAME" "lock_ok (sd_owner_uid d) x"
      | (rec) e where "is_record_name n" "record_ok (sd_owner_uid d) x e"
      using w(2) x(1) unfolding tidy_def by blast
    then show ?thesis
    proof cases
      case lock
      have valid: "wp (validate_instance_lock sys d) (\<lambda>r u'. healthy u' \<and> file_at u' = file_at u \<and> r = Inr ()) u"
        unfolding validate_instance_lock_def
        using lock x I by (intro wp_bind_portI [OF ok_metadata [OF d _ lock_component]])
          (auto simp: wp_ret lock_ok_def stat_of_def)
      have "?I k (seen @ [n]) u'" if "healthy u'" "file_at u' = file_at u" for u'
        using I that lock lock_not_live special_not_record(2) by (auto simp: swept_def)
      then have "wp (bindM (validate_instance_lock sys d) (\<lambda>_. ret k))
          (\<lambda>r u'. case r of Inl e \<Rightarrow> False | Inr k' \<Rightarrow> ?I k' (seen @ [n]) u') u"
        by (intro wp_bindI [OF valid]) (simp, unfold wp_ret sum.case, blast)
      then show ?thesis using lock(1) lock_not_pending lock_utf8 by simp
    next
      case (rec e)
      have plain: "\<not> is_pending_name n" "n \<noteq> INSTANCE_LOCK_NAME" "is_utf8 (as_bytes n)"
        using rec(1) special_not_record hex_utf8 by (auto simp: is_record_name_def)
      have live: "n \<in> live_names now w \<longleftrightarrow> now \<le> e"
        using record_live [OF x(1) rec(2,1)] .
      have "wp (if e < now then bindM (port (sd_remove_file sys d n)) (\<lambda>_. ret k) else ret (k + 1))
          (\<lambda>r u'. case r of Inl e \<Rightarrow> False | Inr k' \<Rightarrow> ?I k' (seen @ [n]) u') u'"
        if u': "healthy u'" "file_at u' = file_at u" for u'
      proof (cases "e < now")
        case True
        have "?I k (seen @ [n]) u''" if "healthy u''" "file_at u'' = (file_at u')(n := None)" for u''
          using I that u' live True rec(1) by (auto simp: swept_def)
        then show ?thesis
          using True u' x record_name_component [OF rec(1)]
          by (auto simp: wp_ret intro!: wp_bind_portI [OF ok_remove [OF d u'(1)]])
      next
        case False
        then have "?I (k + 1) (seen @ [n]) u'"
          using I u' live n(1) by (auto simp: swept_def)
        then show ?thesis using False by (simp add: wp_ret)
      qed
      then show ?thesis
        using plain rec(1) I by (auto intro!: wp_bindI [OF ok_read_expiry [OF d _ x(2) rec(2,1)]])
    qed
  qed
  have comp: "validate_single_component n = Inr ()" if "file_at w n \<noteq> None" for n
    using that w(2) lock_component record_name_component unfolding tidy_def by blast
  show ?thesis
    unfolding cleanup_and_count_def
  proof (rule wp_bind_portI [OF ok_names [OF d w(1) comp]], goal_cases)
    case (3 names u)
    have "live_names now w \<inter> set names = live_names now w"
      using 3 by (auto simp: live_names_def expiry_at_def bind_eq_Some_conv)
    moreover have "swept now UNIV w u'" if "swept now (set names) w u'" for u'
      using that 3 by (auto simp: swept_def)
    moreover have "wp (foldM ?step 0 names) (\<lambda>r u'. case r of Inl e \<Rightarrow> False | Inr k \<Rightarrow> ?I k names u') u"
    proof (rule wp_foldM, goal_cases)
      case 1
      then show ?case using 3 by (simp add: swept_def)
    next
      case (2 k seen n rest v)
      then show ?case using 3 by (intro step) auto
    qed
    ultimately show ?case
      by (elim wp_mono) (auto split: sum.splits)
  qed auto
qed

text \<open>A record as the store creates it, and as it writes it.\<close>

definition unwritten :: "dfile \<Rightarrow> bool" where
  "unwritten x \<longleftrightarrow> df_uid x = uid \<and> df_mode x = S_IFREG OR 0x180 \<and> df_content x = []"

definition written :: "dfile \<Rightarrow> i64 \<Rightarrow> bool" where
  "written x e \<longleftrightarrow> df_uid x = uid \<and> df_mode x = S_IFREG OR 0x180 \<and> df_content x = as_bytes (fmt_i64 e @ [newline])"

lemma ok_publish_record:
  assumes d: "sd_dir d = dir" and w: "healthy w" "created w f = Some pending" "file_at w pending = Some x"
    and x: "unwritten x"
    and names: "validate_single_component pending = Inr ()" "validate_single_component name = Inr ()"
    and free: "file_at w name = None"
  shows "wp (publish_record sys d f pending name expires) (\<lambda>r w'. healthy w' \<and> r = Inr () \<and>
    (\<exists>x'. written x' expires \<and> file_at w' = (file_at w)(pending := None, name \<mapsto> x'))) w"
proof -
  let ?Q = "\<lambda>r w'. healthy w' \<and> r = Inr () \<and>
    (\<exists>x'. written x' expires \<and> file_at w' = (file_at w)(pending := None, name \<mapsto> x'))"
  have ne: "name \<noteq> pending" using w(3) free by auto
  have last: "wp (bindM (port (sd_sync_all sys d)) (\<lambda>_. bindM (port (sd_remove_file sys d pending))
      (\<lambda>_. port (sd_sync_all sys d)))) ?Q u"
    if "healthy u" "written y expires" "file_at u = (file_at w)(pending \<mapsto> y, name \<mapsto> y)" for u y
  proof -
    have "file_at v = (file_at w)(pending := None, name \<mapsto> y)" if "file_at v = (file_at u)(pending := None)" for v
      using that \<open>file_at u = _\<close> ne by (simp add: fun_upd_twist)
    then show ?thesis
      using that ne
      by (intro wp_bind_portI [OF ok_sync [OF d]] wp_bind_portI [OF ok_remove [OF d _ names(1)]] wp_portI [OF ok_sync [OF d]])
        auto
  qed
  have link: "wp (sd_hard_link sys d pending name) (\<lambda>r u'. healthy u' \<and> r = Inr () \<and>
      file_at u' = (file_at u)(name := file_at u pending)) u"
    if "healthy u" "file_at u pending \<noteq> None" "file_at u name = None" for u
    unfolding sd_hard_link_def d names wp_bindM wp_lift sum.case
    by (rule wp_both [OF link_ok [OF that] link_law]) (auto simp: result_simps)
  have sync: "wp (op_file_sync sys f) (\<lambda>r u'. healthy u' \<and> r = Inr () \<and> file_at u' = file_at u) u" if "healthy u" for u
    by (rule wp_both [OF sync_ok [OF that] sync_law]) (auto simp: result_simps)
  have content: "wp (op_file_write sys f (as_bytes (fmt_i64 expires @ [newline]))) (\<lambda>r u. healthy u \<and> r = Inr () \<and>
      (\<exists>y. written y expires \<and> file_at u = (file_at w)(pending \<mapsto> y))) w"
    by (rule wp_both [OF write_ok [OF w] write_law [OF w(2,3)]]) (use x in \<open>auto simp: result_simps written_def unwritten_def\<close>)
  show ?thesis
    unfolding publish_record_def
  proof (rule wp_bind_portI [OF content], goal_cases)
    case (2 _ u)
    then obtain y where y: "written y expires" "file_at u = (file_at w)(pending \<mapsto> y)" and u: "healthy u" by blast
    show ?case
    proof (rule wp_bind_portI [OF sync [OF u]], goal_cases)
      case (2 _ v)
      then have v: "healthy v" "file_at v = (file_at w)(pending \<mapsto> y)" using y(2) by auto
      moreover have "file_at v pending \<noteq> None" "file_at v name = None" using v(2) ne free by auto
      ultimately show ?case
        using y(1) by (intro wp_bind_portI [OF link]) (auto intro: last)
    qed simp
  qed simp
qed

lemma ok_create_record:
  assumes d: "sd_dir (fr_directory store) = dir" and w: "healthy w" "file_at w name = None"
    and clean: "\<And>s. file_at w (PENDING_PREFIX @ s) = None" and name: "is_record_name name"
    and room: "active < fr_capacity store"
  shows "wp (create_record sys store first active name expires) (\<lambda>r w'. healthy w' \<and> r = Inr (Some Fresh) \<and>
    (\<exists>x. written x expires \<and> file_at w' = (file_at w)(name \<mapsto> x))) w"
proof -
  let ?d = "fr_directory store"
  have raw: "wp (op_random sys k) (\<lambda>r u. healthy u \<and> file_at u = file_at w \<and> is_ok r) w" for k
    by (rule wp_both [OF random_ok [OF w(1)] random_law]) simp
  have random: "wp (pending_name sys) (\<lambda>r u. healthy u \<and> file_at u = file_at w \<and> (\<exists>bs. r = Inr (PENDING_PREFIX @ hex_name bs))) w"
    unfolding pending_name_def
    by (rule wp_bind_portI [OF raw]) (auto simp: wp_ret result_simps)
  have new: "wp (sd_new_file sys ?d (PENDING_PREFIX @ hex_name bs) 0x180) (\<lambda>r u'. healthy u' \<and>
      (\<exists>f x. r = Inr f \<and> created u' f = Some (PENDING_PREFIX @ hex_name bs) \<and> unwritten x \<and>
        file_at u' = (file_at w)(PENDING_PREFIX @ hex_name bs \<mapsto> x))) u" if u: "healthy u" "file_at u = file_at w" for bs u
  proof -
    have free: "file_at u (PENDING_PREFIX @ hex_name bs) = None" using clean u(2) by simp
    show ?thesis
      unfolding sd_new_file_def d pending_component wp_bindM wp_lift sum.case
      by (intro wp_both [OF new_ok [OF u(1) free] new_law]) (use u(2) in \<open>auto simp: result_simps unwritten_def split: sum.splits\<close>)
  qed
  have ne: "name \<noteq> PENDING_PREFIX @ hex_name bs" for bs
    using name pending_not_hex [of "hex_name bs"] by (auto simp: is_record_name_def)
  have published: "wp (publish_record sys ?d f (PENDING_PREFIX @ hex_name bs) name expires) (\<lambda>r w'. healthy w' \<and> r = Inr () \<and>
      (\<exists>x'. written x' expires \<and> file_at w' = (file_at w)(name \<mapsto> x'))) u"
    if "healthy u" "created u f = Some (PENDING_PREFIX @ hex_name bs)" "unwritten x"
      "file_at u = (file_at w)(PENDING_PREFIX @ hex_name bs \<mapsto> x)" for u f bs x
  proof -
    have "(file_at u)(PENDING_PREFIX @ hex_name bs := None) = file_at w"
      using that(4) clean [of "hex_name bs"] by (auto simp: fun_eq_iff)
    moreover have "file_at u name = None" "file_at u (PENDING_PREFIX @ hex_name bs) = Some x"
      using that(4) w(2) ne [of bs] by simp_all
    ultimately show ?thesis
      using ok_publish_record [OF d that(1,2) _ that(3) pending_component record_name_component [OF name], of expires] by simp
  qed
  show ?thesis
    using room unfolding create_record_def Let_def
    by (auto simp del: append_Cons simp: wp_ret intro!: wp_bindI [OF random] wp_bind_attemptI [OF new]
        wp_bind_attemptI [OF published]) (assumption, rule refl, blast)
qed

text \<open>One attempt decides.\<close>

definition sweep :: "i64 \<Rightarrow> 'c \<Rightarrow> str \<Rightarrow> dfile option" where
  "sweep now w n = (if is_record_name n \<and> n \<notin> live_names now w then None else file_at w n)"

lemma swept_UNIV: "swept now UNIV w u \<longleftrightarrow> file_at u = sweep now w"
  by (auto simp: swept_def sweep_def fun_eq_iff)

definition decision :: "nat \<Rightarrow> i64 \<Rightarrow> 'c \<Rightarrow> str \<Rightarrow> DpopPortError + ReplayStatus" where
  "decision cap now w name =
     (if name \<in> live_names now w then Inr Replay
      else if card (live_names now w) < cap then Inr Fresh else Inl DpopPortError)"

definition decided :: "i64 \<Rightarrow> 'c \<Rightarrow> str \<Rightarrow> i64 \<Rightarrow> DpopPortError + ReplayStatus \<Rightarrow> 'c \<Rightarrow> bool" where
  "decided now w name expires r w' \<longleftrightarrow> healthy w' \<and>
     (if r = Inr Fresh then \<exists>x. written x expires \<and> file_at w' = (sweep now w)(name \<mapsto> x)
      else file_at w' = sweep now w)"

lemma ok_replay_attempt:
  assumes d: "sd_dir (fr_directory store) = dir" and w: "healthy w" "tidy (sd_owner_uid (fr_directory store)) (file_at w)"
    and name: "is_record_name name"
  shows "wp (replay_attempt sys store first now name expires) (\<lambda>r w'.
    r = map_ok Some (decision (fr_capacity store) now w name) \<and>
    decided now w name expires (decision (fr_capacity store) now w name) w') w"
proof -
  let ?d = "fr_directory store"
  let ?r = "decision (fr_capacity store) now w name"
  let ?Q = "\<lambda>r w'. r = map_ok Some ?r \<and> decided now w name expires ?r w'"
  show ?thesis
    unfolding replay_attempt_def Let_def
  proof (rule wp_bindI [OF ok_cleanup_and_count [OF d w]], goal_cases)
    case (2 active u)
    then have u: "healthy u" "file_at u = sweep now w" "active = card (live_names now w)" by (auto simp: swept_UNIV)
    show ?case
    proof (cases "name \<in> live_names now w")
      case True
      then obtain x where x: "file_at w name = Some x" by (auto simp: live_names_def expiry_at_def bind_eq_Some_conv)
      have "name \<noteq> INSTANCE_LOCK_NAME" using name special_not_record(2) by auto
      then obtain e where e: "record_ok (sd_owner_uid ?d) x e" using w(2) x unfolding tidy_def by blast
      have "file_at u name = Some x" using u(2) x True by (simp add: sweep_def)
      moreover have "now \<le> e" using record_live [OF x e name] True by blast
      ultimately show ?thesis
        using True u(1,2) by (auto simp: wp_ret decision_def decided_def
            intro!: wp_bind_attemptI [OF ok_read_expiry [OF d _ _ e name]])
    next
      case False
      then have gone: "file_at u name = None" using u(2) name by (simp add: sweep_def)
      have clean: "file_at u (PENDING_PREFIX @ s) = None" for s
      proof -
        have "\<not> is_record_name (PENDING_PREFIX @ s)" "PENDING_PREFIX @ s \<noteq> INSTANCE_LOCK_NAME"
          using pending_not_hex [of s] by (auto simp: is_record_name_def PENDING_PREFIX_def INSTANCE_LOCK_NAME_def)
        then have "file_at w (PENDING_PREFIX @ s) = None"
          using w(2) unfolding tidy_def by (meson not_Some_eq)
        then show ?thesis using u(2) by (simp add: sweep_def)
      qed
      have create: "wp (create_record sys store first active name expires) ?Q u'"
        if u': "healthy u'" "file_at u' = file_at u" for u'
      proof (cases "active < fr_capacity store")
        case True
        then show ?thesis
          using ok_create_record [OF d u'(1) _ _ name True, of first expires] gone clean u' u False
          by (auto simp: decision_def decided_def elim!: wp_mono)
      next
        case full: False
        then show ?thesis
          using u' u False by (auto simp: create_record_def wp_raise decision_def decided_def)
      qed
      note comp = record_name_component [OF name]
      show ?thesis
        using u(1) gone create
        by (auto intro!: wp_bind_attemptI [OF missing_read_expiry [OF d u(1) gone comp]]
            wp_bind_attemptI [OF ok_metadata [OF d _ comp]])
    qed
  qed simp
qed

lemma ok_file_check_and_record:
  assumes d: "sd_dir (fr_directory store) = dir" and w: "healthy w" "tidy (sd_owner_uid (fr_directory store)) (file_at w)"
    and key: "length (replay_key_bytes key) = 32" and time: "now \<le> expires" and "\<not> fr_poisoned store"
  shows "\<exists>w'. file_check_and_record sys store (Inr now) w key expires =
      (decision (fr_capacity store) now w (name_for key), w') \<and>
    decided now w (name_for key) expires (decision (fr_capacity store) now w (name_for key)) w'"
proof -
  let ?r = "decision (fr_capacity store) now w (name_for key)"
  have "wp (\<lambda>w. file_check_and_record sys store (Inr now) w key expires) (\<lambda>r w'. r = ?r \<and>
      decided now w (name_for key) expires ?r w') w"
    using ok_replay_attempt [OF d w name_for_record [OF key], of True now expires] assms(5,6)
    by (cases ?r) (auto simp: file_check_and_record_def [abs_def] wp_simps elim!: wp_mono)
  then show ?thesis by (simp add: wp_def split: prod.splits)
qed

end

end
