(* ===== verification/Disk_Model.thy ===== *)
theory Disk_Model
  imports Replay_Progress
begin

text \<open>
  A directory on a disk that may fail: directory entries name inodes, open files refer to an
  inode, and a schedule of faults says which operation fails, before or after it took effect. It
  shows that the laws of \<open>posix_directory\<close> hold of a concrete system, and it is the system on which
  the witnesses of the persistent store run.
\<close>

datatype fault =
    Works
  | Fails_before
  | Fails_after

datatype open_file =
    Dir_self
  | File_handle str nat

record disk =
  dk_names :: "(str \<times> nat) list"
  dk_inodes :: "(nat \<times> dfile) list"
  dk_uid :: u32
  dk_random :: nat
  dk_faults :: "fault list"

definition disk_file_at :: "disk \<Rightarrow> str \<Rightarrow> dfile option" where
  "disk_file_at w n = Option.bind (map_of (dk_names w) n) (map_of (dk_inodes w))"

definition disk_opened :: "disk \<Rightarrow> open_file \<Rightarrow> str option" where
  "disk_opened w f = (case f of
     Dir_self \<Rightarrow> None
   | File_handle n i \<Rightarrow> if map_of (dk_names w) n = Some i then Some n else None)"

definition disk_created :: "disk \<Rightarrow> open_file \<Rightarrow> str option" where
  "disk_created w f = (case f of
     Dir_self \<Rightarrow> None
   | File_handle n i \<Rightarrow>
       if map_of (dk_names w) n = Some i \<and> list_all (\<lambda>(m, j). j = i \<longrightarrow> m = n) (dk_names w) then Some n else None)"

definition fresh_inode :: "disk \<Rightarrow> nat" where
  "fresh_inode w = Suc (foldr max (map snd (dk_names w) @ map fst (dk_inodes w)) 0)"

text \<open>An operation with result \<open>r\<close> and effect \<open>w'\<close> meets the next fault; \<open>broken\<close> is the state after a
  failure that came too late.\<close>

definition faulty :: "disk \<Rightarrow> disk \<Rightarrow> (ErrorKind + 'a) \<times> disk \<Rightarrow> (ErrorKind + 'a) \<times> disk" where
  "faulty w broken res =
     (case dk_faults w of
        [] \<Rightarrow> res
      | f # fs \<Rightarrow>
          (case f of
             Works \<Rightarrow> (fst res, (snd res)\<lparr>dk_faults := fs\<rparr>)
           | Fails_before \<Rightarrow> (Inl OtherKind, w\<lparr>dk_faults := fs\<rparr>)
           | Fails_after \<Rightarrow> (Inl OtherKind, broken\<lparr>dk_faults := fs\<rparr>)))"

definition disk_list_dir :: "unit \<Rightarrow> (disk, (ErrorKind + str) list) sysop" where
  "disk_list_dir _ w = faulty w w (Inr (map (\<lambda>(n, _). Inr n) (dk_names w)), w)"

definition disk_metadata :: "unit \<Rightarrow> str \<Rightarrow> (disk, Stat) sysop" where
  "disk_metadata _ n w = faulty w w
     (case disk_file_at w n of None \<Rightarrow> Inl NotFound | Some x \<Rightarrow> Inr (stat_of x), w)"

definition disk_open_file :: "unit \<Rightarrow> str \<Rightarrow> (disk, open_file) sysop" where
  "disk_open_file _ n w = faulty w w
     (if n = ''.'' then Inr Dir_self
      else case (map_of (dk_names w) n, disk_file_at w n) of
        (Some i, Some x) \<Rightarrow> Inr (File_handle n i)
      | _ \<Rightarrow> Inl NotFound, w)"

definition disk_new_file :: "unit \<Rightarrow> str \<Rightarrow> u32 \<Rightarrow> (disk, open_file) sysop" where
  "disk_new_file _ n mode w = faulty w w
     (if map_of (dk_names w) n \<noteq> None then (Inl AlreadyExists, w)
      else
        (let i = fresh_inode w in
         (Inr (File_handle n i),
          w\<lparr>dk_names := (n, i) # dk_names w,
            dk_inodes := (i, \<lparr>df_mode = S_IFREG OR mode, df_uid = dk_uid w, df_gid = 0, df_content = []\<rparr>) # dk_inodes w\<rparr>)))"

definition without_name :: "str \<Rightarrow> disk \<Rightarrow> disk" where
  "without_name n w = w\<lparr>dk_names := filter (\<lambda>(m, _). m \<noteq> n) (dk_names w)\<rparr>"

definition disk_remove_file :: "unit \<Rightarrow> str \<Rightarrow> (disk, unit) sysop" where
  "disk_remove_file _ n w = faulty w (without_name n w)
     (if map_of (dk_names w) n = None then (Inl NotFound, w) else (Inr (), without_name n w))"

definition linked_state :: "str \<Rightarrow> str \<Rightarrow> disk \<Rightarrow> disk option" where
  "linked_state a b w =
     (case map_of (dk_names w) a of
        None \<Rightarrow> None
      | Some i \<Rightarrow>
          if disk_file_at w a \<noteq> None \<and> map_of (dk_names w) b = None
          then Some (w\<lparr>dk_names := (b, i) # dk_names w\<rparr>) else None)"

definition disk_hardlink :: "unit \<Rightarrow> str \<Rightarrow> str \<Rightarrow> (disk, unit) sysop" where
  "disk_hardlink _ a b w =
     (case linked_state a b w of
        None \<Rightarrow> faulty w w (Inl (if map_of (dk_names w) b = None then NotFound else AlreadyExists), w)
      | Some w' \<Rightarrow> faulty w w' (Inr (), w'))"

definition disk_file_metadata :: "open_file \<Rightarrow> (disk, Stat) sysop" where
  "disk_file_metadata f w = faulty w w
     (case f of
        Dir_self \<Rightarrow> Inl OtherKind
      | File_handle _ i \<Rightarrow>
          (case map_of (dk_inodes w) i of None \<Rightarrow> Inl OtherKind | Some x \<Rightarrow> Inr (stat_of x)), w)"

definition disk_file_read :: "open_file \<Rightarrow> nat \<Rightarrow> (disk, bytes) sysop" where
  "disk_file_read f k w = faulty w w
     (case f of
        Dir_self \<Rightarrow> Inl OtherKind
      | File_handle _ i \<Rightarrow>
          (case map_of (dk_inodes w) i of None \<Rightarrow> Inl OtherKind | Some x \<Rightarrow> Inr (take k (df_content x))), w)"

definition appended :: "nat \<Rightarrow> bytes \<Rightarrow> disk \<Rightarrow> disk" where
  "appended i bs w =
     (case map_of (dk_inodes w) i of
        None \<Rightarrow> w
      | Some x \<Rightarrow> w\<lparr>dk_inodes := (i, x\<lparr>df_content := df_content x @ bs\<rparr>) # dk_inodes w\<rparr>)"

text \<open>A write that fails late has written a part.\<close>

definition disk_file_write :: "open_file \<Rightarrow> bytes \<Rightarrow> (disk, unit) sysop" where
  "disk_file_write f bs w =
     (case f of
        Dir_self \<Rightarrow> faulty w w (Inl OtherKind, w)
      | File_handle _ i \<Rightarrow>
          faulty w (appended i (take (length bs div 2) bs) w) (Inr (), appended i bs w))"

definition disk_file_ok :: "open_file \<Rightarrow> (disk, unit) sysop" where
  "disk_file_ok f w = faulty w w (Inr (), w)"

definition disk_random :: "nat \<Rightarrow> (disk, bytes) sysop" where
  "disk_random k w = faulty w w
     (Inr (map (\<lambda>i. word_of_nat (dk_random w + i)) [0..<k]), w\<lparr>dk_random := dk_random w + k\<rparr>)"

text \<open>The directory itself is private and owned by the service; it is the root as well.\<close>

definition disk_ops :: "(unit, open_file, disk) fs_ops" where
  "disk_ops = \<lparr>
     op_open_root = (\<lambda>w. faulty w w (Inr (), w)),
     op_try_clone = (\<lambda>_ w. faulty w w (Inr (), w)),
     op_sub_dir = (\<lambda>_ _ w. faulty w w (Inr (), w)),
     op_self_metadata = (\<lambda>_ w. faulty w w (Inr \<lparr>st_mode = 0x41C0, st_uid = dk_uid w, st_gid = 0, st_size = 4096\<rparr>, w)),
     op_list_dir = disk_list_dir,
     op_metadata = disk_metadata,
     op_open_file = disk_open_file,
     op_new_file = disk_new_file,
     op_remove_file = disk_remove_file,
     op_hardlink = disk_hardlink,
     op_file_metadata = disk_file_metadata,
     op_file_read = disk_file_read,
     op_file_write = disk_file_write,
     op_file_sync = disk_file_ok,
     op_file_lock = disk_file_ok,
     op_get_xattr = (\<lambda>_ _ w. faulty w w (Inr None, w)),
     op_random = disk_random,
     op_read_path = (\<lambda>_ w. faulty w w (Inl NotFound, w))\<rparr>"

section \<open>The disk keeps the laws\<close>

lemma disk_same [simp]:
  "disk_file_at (w\<lparr>dk_faults := fs\<rparr>) = disk_file_at w" "disk_opened (w\<lparr>dk_faults := fs\<rparr>) = disk_opened w"
  "disk_created (w\<lparr>dk_faults := fs\<rparr>) = disk_created w" "disk_file_at (w\<lparr>dk_random := k\<rparr>) = disk_file_at w"
  by (auto simp: disk_file_at_def disk_opened_def disk_created_def fun_eq_iff split: open_file.splits)

text \<open>What holds of the result, of a failure before and of a failure after the effect holds of the
  operation.\<close>

lemma wp_faulty:
  assumes "Q (fst res) (snd res)" "\<And>fs. Q (fst res) ((snd res)\<lparr>dk_faults := fs\<rparr>)"
    "\<And>fs. Q (Inl OtherKind) (w\<lparr>dk_faults := fs\<rparr>)" "\<And>fs. Q (Inl OtherKind) (broken\<lparr>dk_faults := fs\<rparr>)"
  shows "case faulty w broken res of (r, w') \<Rightarrow> Q r w'"
  using assms by (cases res) (auto simp: faulty_def split: list.splits fault.splits)

lemma foldr_max_ge: "x \<in> set xs \<Longrightarrow> x \<le> foldr max xs (0 :: nat)"
  by (induction xs) auto

lemma fresh_inode_unused:
  "(n, fresh_inode w) \<notin> set (dk_names w)" "map_of (dk_inodes w) (fresh_inode w) = None"
proof -
  have le: "i \<le> foldr max (map snd (dk_names w) @ map fst (dk_inodes w)) 0"
    if "i \<in> snd ` set (dk_names w) \<union> fst ` set (dk_inodes w)" for i
    using that by (intro foldr_max_ge) auto
  show "(n, fresh_inode w) \<notin> set (dk_names w)" "map_of (dk_inodes w) (fresh_inode w) = None"
    using le [of "fresh_inode w"] unfolding map_of_eq_None_iff by (force simp: fresh_inode_def)+
qed

lemma map_of_filter_name: "map_of (filter (\<lambda>(m, _). m \<noteq> n) xs) = (map_of xs)(n := None)"
  by (induction xs) (auto simp: fun_eq_iff)

lemma without_name_file_at: "disk_file_at (without_name n w) = (disk_file_at w)(n := None)"
  by (auto simp: disk_file_at_def without_name_def map_of_filter_name fun_eq_iff)

lemma appended_file_at:
  assumes "disk_created w (File_handle n i) = Some n" "disk_file_at w n = Some x"
  shows "disk_file_at (appended i bs w) = (disk_file_at w)(n \<mapsto> x\<lparr>df_content := df_content x @ bs\<rparr>)"
proof -
  have n: "map_of (dk_names w) n = Some i" "\<And>m j. (m, j) \<in> set (dk_names w) \<Longrightarrow> j = i \<Longrightarrow> m = n"
    using assms(1) by (auto simp: disk_created_def list_all_iff split: if_splits)
  then have x: "map_of (dk_inodes w) i = Some x"
    using assms(2) by (simp add: disk_file_at_def)
  have "map_of (dk_names w) m \<noteq> Some i" if "m \<noteq> n" for m
    using n(2) that map_of_SomeD by metis
  then show ?thesis
    using n(1) x by (auto simp: disk_file_at_def appended_def fun_eq_iff split: Option.bind_splits)
qed

lemmas disk_defs = disk_ops_def wp_def disk_list_dir_def disk_metadata_def disk_open_file_def disk_new_file_def
  disk_remove_file_def disk_hardlink_def disk_file_metadata_def disk_file_read_def disk_file_write_def
  disk_file_ok_def disk_random_def

lemma new_file_at:
  assumes "map_of (dk_names w) n = None"
  shows "disk_file_at (w\<lparr>dk_names := (n, fresh_inode w) # dk_names w, dk_inodes := (fresh_inode w, x) # dk_inodes w\<rparr>) =
    (disk_file_at w)(n \<mapsto> x)"
proof -
  have "map_of (dk_names w) m \<noteq> Some (fresh_inode w)" for m
    using fresh_inode_unused(1) map_of_SomeD by metis
  then show ?thesis
    by (auto simp: disk_file_at_def fun_eq_iff split: Option.bind_splits)
qed

lemma linked_file_at:
  assumes "linked_state a b w = Some w'"
  shows "disk_file_at w' = (disk_file_at w)(b := disk_file_at w a)" "disk_file_at w a \<noteq> None" "disk_file_at w b = None"
  using assms by (auto simp: linked_state_def disk_file_at_def fun_eq_iff split: option.splits if_splits)

interpretation disk: posix_directory disk_ops "()" disk_file_at disk_opened disk_created
proof (unfold_locales, goal_cases)
  case (1 w)
  have "Inr n \<in> set (map (\<lambda>(n, _). Inr n) (dk_names w))" if "disk_file_at w n \<noteq> None" for n
  proof -
    from that obtain i where "map_of (dk_names w) n = Some i" by (auto simp: disk_file_at_def bind_eq_Some_conv)
    then show ?thesis by (force dest: map_of_SomeD)
  qed
  then show ?case unfolding disk_defs fs_ops.simps by (intro wp_faulty) auto
next
  case (2 n w)
  then show ?case unfolding disk_defs fs_ops.simps by (intro wp_faulty) (auto split: option.splits)
next
  case (3 n w)
  then show ?case
    unfolding disk_defs fs_ops.simps by (intro wp_faulty) (auto simp: disk_opened_def split: option.splits if_splits)
next
  case (4 f w)
  have "st = stat_of x" if "disk_opened w f = Some n" "disk_file_at w n = Some x"
    "(case f of Dir_self \<Rightarrow> Inl OtherKind
      | File_handle _ i \<Rightarrow> (case map_of (dk_inodes w) i of None \<Rightarrow> Inl OtherKind | Some x \<Rightarrow> Inr (stat_of x))) = Inr st"
    for st n x
    using that by (auto simp: disk_opened_def disk_file_at_def split: open_file.splits if_splits option.splits)
  then show ?case unfolding disk_defs fs_ops.simps by (intro wp_faulty) auto
next
  case (5 f k w)
  have "bs = take k (df_content x)" if "disk_opened w f = Some n" "disk_file_at w n = Some x"
    "(case f of Dir_self \<Rightarrow> Inl OtherKind
      | File_handle _ i \<Rightarrow> (case map_of (dk_inodes w) i of None \<Rightarrow> Inl OtherKind | Some x \<Rightarrow> Inr (take k (df_content x)))) = Inr bs"
    for bs n x
    using that by (auto simp: disk_opened_def disk_file_at_def split: open_file.splits if_splits option.splits)
  then show ?case unfolding disk_defs fs_ops.simps by (intro wp_faulty) auto
next
  case (6 n m w)
  let ?x = "\<lparr>df_mode = S_IFREG OR m, df_uid = dk_uid w, df_gid = 0, df_content = []\<rparr>"
  have "map_of (dk_names w) n = None \<Longrightarrow> disk_file_at w n = None" by (simp add: disk_file_at_def)
  then show ?case
    unfolding disk_defs fs_ops.simps Let_def
    by (intro wp_faulty)
      (auto intro!: exI [of _ ?x] simp: new_file_at disk_created_def list_all_iff fresh_inode_unused split: if_splits)
next
  case (7 w f n x bs)
  then obtain i where f: "f = File_handle n i" by (auto simp: disk_created_def split: open_file.splits if_splits)
  have same: "disk_file_at w = (disk_file_at w)(n \<mapsto> x)" using 7(2) by (simp add: fun_upd_idem)
  show ?case
    using 7 appended_file_at [OF 7(1)[unfolded f] 7(2)]
    unfolding disk_defs fs_ops.simps f open_file.case
    by (intro wp_faulty) (auto, use same in blast)
next
  case (8 f w)
  then show ?case unfolding disk_defs fs_ops.simps by (intro wp_faulty) auto
next
  case (9 f w)
  then show ?case unfolding disk_defs fs_ops.simps by (intro wp_faulty) auto
next
  case (10 a b w)
  show ?case
  proof (cases "linked_state a b w")
    case None
    show ?thesis unfolding disk_defs fs_ops.simps None option.case by (intro wp_faulty) auto
  next
    case (Some w')
    show ?thesis
      using linked_file_at [OF Some] unfolding disk_defs fs_ops.simps Some option.case by (intro wp_faulty) auto
  qed
next
  case (11 n w)
  then show ?case unfolding disk_defs fs_ops.simps by (intro wp_faulty) (auto simp: without_name_file_at)
next
  case (12 k w)
  then show ?case unfolding disk_defs fs_ops.simps by (intro wp_faulty) auto
qed

text \<open>A store over the disk, with restarts, accepts every proof at most once.\<close>

interpretation disk_store: durable_store disk_ops "()" disk_file_at disk_opened disk_created d cap X policy
  for d :: "unit SecureDir" and cap :: nat and X :: externs and policy :: VerificationPolicy
  by unfold_locales simp

text \<open>Without faults, and with a file behind every entry, the disk works.\<close>

definition disk_healthy :: "u32 \<Rightarrow> disk \<Rightarrow> bool" where
  "disk_healthy uid w \<longleftrightarrow> dk_uid w = uid \<and> dk_faults w = [] \<and> distinct (map fst (dk_names w)) \<and>
     list_all (\<lambda>(n, i). map_of (dk_inodes w) i \<noteq> None) (dk_names w)"

lemma healthy_faulty: "disk_healthy uid w \<Longrightarrow> faulty w broken res = res"
  by (simp add: disk_healthy_def faulty_def)

lemma healthy_file_at:
  assumes "disk_healthy uid w"
  shows "disk_file_at w n = None \<longleftrightarrow> map_of (dk_names w) n = None"
  using assms by (cases "map_of (dk_names w) n") (auto simp: disk_healthy_def disk_file_at_def list_all_iff dest: map_of_SomeD)

lemma healthy_entry: "disk_healthy uid w \<Longrightarrow> map_of (dk_names w) n = Some i \<Longrightarrow> map_of (dk_inodes w) i \<noteq> None"
  by (auto simp: disk_healthy_def list_all_iff dest: map_of_SomeD)

lemma healthy_names:
  assumes "disk_healthy uid w" "n \<in> set (map fst (dk_names w))"
  shows "disk_file_at w n \<noteq> None"
  using assms(2) unfolding healthy_file_at [OF assms(1)] map_of_eq_None_iff by simp

lemma healthy_upd:
  assumes "disk_healthy uid w" "map_of (dk_names w) n = None" "map_of ((i, x) # dk_inodes w) j \<noteq> None"
  shows "disk_healthy uid (w\<lparr>dk_names := (n, j) # dk_names w, dk_inodes := (i, x) # dk_inodes w\<rparr>)"
  using assms(1,3) assms(2) [unfolded map_of_eq_None_iff]
  by (auto simp: disk_healthy_def list_all_iff split: if_splits)

lemma healthy_link:
  assumes "disk_healthy uid w" "linked_state a b w = Some w'"
  shows "disk_healthy uid w'"
  using assms healthy_entry [OF assms(1)]
  by (auto simp: disk_healthy_def linked_state_def map_of_eq_None_iff split: option.splits if_splits)

lemma healthy_without: "disk_healthy uid w \<Longrightarrow> disk_healthy uid (without_name n w)"
  by (auto simp: disk_healthy_def without_name_def list_all_iff distinct_map inj_on_def)

lemma healthy_appended: "disk_healthy uid w \<Longrightarrow> disk_healthy uid (appended i bs w)"
  by (auto simp: disk_healthy_def appended_def list_all_iff split: option.splits)

interpretation working_disk: reliable_directory disk_ops "()" disk_file_at disk_opened disk_created "disk_healthy uid" uid
  for uid :: u32
proof (unfold_locales, goal_cases)
  case (1 w)
  then show ?case
    using healthy_names [OF 1]
    by (auto simp: disk_defs healthy_faulty intro!: exI [of _ "map fst (dk_names w)"])
      (auto simp: disk_healthy_def)
next
  case (2 w n)
  then show ?case by (auto simp: disk_defs healthy_faulty split: option.splits)
next
  case (3 w n)
  then show ?case
    using healthy_file_at [OF 3(1), of n] by (auto simp: disk_defs healthy_faulty result_simps split: option.splits)
next
  case (4 w f n)
  then show ?case
    using healthy_entry [OF 4(1), of n]
    by (auto simp: disk_defs healthy_faulty result_simps disk_opened_def split: open_file.splits if_splits option.splits)
next
  case (5 w f n k)
  then show ?case
    using healthy_entry [OF 5(1), of n]
    by (auto simp: disk_defs healthy_faulty result_simps disk_opened_def split: open_file.splits if_splits option.splits)
next
  case (6 w n m)
  then show ?case
    using healthy_file_at [OF 6(1), of n]
    by (auto simp: disk_defs healthy_faulty Let_def result_simps intro!: healthy_upd)
      (auto simp: disk_healthy_def disk_file_at_def)
next
  case (7 w f n x bs)
  then show ?case
    by (auto simp: disk_defs healthy_faulty result_simps disk_created_def healthy_appended split: open_file.splits if_splits)
      (auto simp: disk_file_at_def appended_def)
next
  case (8 w f)
  then show ?case by (simp add: disk_defs healthy_faulty result_simps)
next
  case (9 w a b)
  then obtain w' where "linked_state a b w = Some w'"
    using healthy_file_at [OF 9(1)] by (auto simp: linked_state_def split: option.splits)
  then show ?case using 9 healthy_link by (auto simp: disk_defs healthy_faulty result_simps)
next
  case (10 w n)
  then show ?case
    using healthy_file_at [OF 10(1), of n] by (auto simp: disk_defs healthy_faulty result_simps healthy_without)
next
  case (11 w k)
  then show ?case by (simp add: disk_defs healthy_faulty result_simps disk_healthy_def)
qed

text \<open>The names of the records that are alive at a time.\<close>

definition live_records :: "i64 \<Rightarrow> (str \<Rightarrow> dfile option) \<Rightarrow> str set" where
  "live_records now files = {n. is_record_name n \<and>
     (\<exists>x e. files n = Some x \<and> recorded_expiry (df_content x) = Some e \<and> now \<le> e)}"

text \<open>What the store answers over a working directory.\<close>

lemma working_store_answers:
  assumes "reliable_directory sys (sd_dir (fr_directory store)) file_at opened created healthy uid"
    and "healthy w" "tidy (sd_owner_uid (fr_directory store)) (file_at w)"
    and "length (replay_key_bytes key) = 32" "now \<le> expires" "\<not> fr_poisoned store"
  shows "fst (file_check_and_record sys store (Inr now) w key expires) =
    (if name_for key \<in> live_records now (file_at w) then Inr Replay
     else if card (live_records now (file_at w)) < fr_capacity store then Inr Fresh
     else Inl DpopPortError)"
proof -
  have pd: "posix_directory sys (sd_dir (fr_directory store)) file_at opened created"
    using assms(1) by (simp add: reliable_directory_def)
  show ?thesis
    using reliable_directory.ok_file_check_and_record [OF assms(1) refl assms(2-6)]
    by (auto simp: reliable_directory.decision_def [OF assms(1)] live_records_def posix_directory.live_names_alt [OF pd])
qed

section \<open>Properties\<close>

definition sample_dir :: "unit SecureDir" where
  "sample_dir = \<lparr>sd_dir = (), sd_owner_uid = 1000\<rparr>"

definition empty_disk :: disk where
  "empty_disk = \<lparr>dk_names = [], dk_inodes = [], dk_uid = 1000, dk_random = 0, dk_faults = []\<rparr>"

definition started_disk :: disk where
  "started_disk = empty_disk\<lparr>dk_names := [(INSTANCE_LOCK_NAME, 1)],
     dk_inodes := [(1, \<lparr>df_mode = 0x8180, df_uid = 1000, df_gid = 0, df_content = []\<rparr>)]\<rparr>"

definition sample_file_store :: "(unit, open_file) FileReplayStore" where
  "sample_file_store = \<lparr>fr_directory = sample_dir, fr_capacity = 2,
     fr_instance_lock = File_handle INSTANCE_LOCK_NAME 1, fr_poisoned = False\<rparr>"

lemma started: "file_replay_store_open disk_ops sample_dir 2 empty_disk = (Inr sample_file_store, started_disk)"
  unfolding empty_disk_def started_disk_def sample_file_store_def by code_simp

lemma started_healthy: "disk_healthy 1000 started_disk"
  by (simp add: disk_healthy_def started_disk_def empty_disk_def)

lemma started_tidy: "tidy 1000 (disk_file_at started_disk)"
proof -
  have "lock_ok 1000 \<lparr>df_mode = 0x8180, df_uid = 1000, df_gid = 0, df_content = []\<rparr>"
    by code_simp
  then show ?thesis by (auto simp: tidy_def disk_file_at_def started_disk_def)
qed

lemma started_fresh:
  assumes "length (replay_key_bytes key) = 32"
  shows "fst (file_check_and_record disk_ops sample_file_store (Inr 1010) started_disk key 1300) = Inr Fresh"
proof -
  have "disk.live_names 1010 started_disk = {}"
    by (auto simp: disk.live_names_def disk.expiry_at_def disk_file_at_def started_disk_def
        special_not_record(2) split: if_splits)
  then show ?thesis
    using working_disk.ok_file_check_and_record [of sample_file_store 1000 started_disk key 1010 1300]
      started_healthy started_tidy assms
    by (auto simp: sample_file_store_def sample_dir_def working_disk.decision_def)
qed

text \<open>C2. No replay through the persistent store, whatever fails and however often the host restarts: a
  proof is accepted at most once along any sequence of presented proofs and restarts over one
  directory, when the directory keeps the POSIX laws (any call may fail, before or after it took
  effect) and clock readings do not go back.\<close>

theorem durable_proof_accepted_once:
  assumes "posix_directory sys dir file_at opened created" "sd_dir d = dir"
    and "run_ops (durable_step X policy sys d cap) (w, None) events = (rs, s')" "sorted (map event_time events)"
    and "i < length events" "j < length events" "events ! i = Presented ci" "events ! j = Presented cj"
    and "rs ! i = Some (Inr vi)" "rs ! j = Some (Inr vj)" "vc_proof ci = vc_proof cj"
  shows "i = j"
proof -
  have "durable_store sys dir file_at opened created d"
    using assms(1,2) by (simp add: durable_store_def durable_store_axioms_def)
  then show ?thesis
    using assms(3-11) by (rule durable_store.presented_once)
qed

theorem durable_proof_accepted_once_witness:
  "\<exists>p v r0 r2 r3 s'.
     parse_dpop_header_values sample_X [proof_header_value sample_proof] = Inr p \<and>
     run_ops (durable_step sample_X policy_default disk_ops sample_dir 2) (empty_disk, None)
       [Restarted 1000, Presented \<lparr>vc_clock = Inr 1010, vc_time = 1010, vc_proof = p, vc_request = sample_request\<rparr>,
        Restarted 1020, Presented \<lparr>vc_clock = Inr 1300, vc_time = 1300, vc_proof = p, vc_request = sample_request\<rparr>] =
       ([r0, Some (Inr v), r2, r3], s') \<and> (\<forall>v'. r3 \<noteq> Some (Inr v'))"
proof -
  let ?car = "\<lambda>t. file_check_and_record disk_ops sample_file_store (Inr t)"
  let ?c = "\<lambda>p t. \<lparr>vc_clock = Inr t, vc_time = t, vc_proof = p, vc_request = sample_request\<rparr>"
  have "?car 1010 started_disk key 1300 = (Inr Fresh, snd (?car 1010 started_disk key 1300))"
    if "length (replay_key_bytes key) = 32" for key
    using started_fresh [OF that] by (intro prod_eqI) simp_all
  then obtain p key v w1 where p: "parse_dpop_header_values sample_X [proof_header_value sample_proof] = Inr p"
    and v: "dpop_verify sample_X policy_default (Inr 1010) (?car 1010) p sample_request started_disk = (Inr v, w1)"
    using sample_accepted [of "?car 1010" started_disk "\<lambda>key. snd (?car 1010 started_disk key 1300)"] by blast
  obtain r2 s2 where r2: "durable_step sample_X policy_default disk_ops sample_dir 2 (w1, Some sample_file_store)
      (Restarted 1020) = (r2, s2)" by (meson surj_pair)
  obtain r3 s3 where r3: "durable_step sample_X policy_default disk_ops sample_dir 2 s2 (Presented (?c p 1300)) = (r3, s3)"
    by (meson surj_pair)
  have run: "run_ops (durable_step sample_X policy_default disk_ops sample_dir 2) (empty_disk, None)
      [Restarted 1000, Presented (?c p 1010), Restarted 1020, Presented (?c p 1300)] =
      ([None, Some (Inr v), r2, r3], s3)"
    using started v r2 r3 by simp
  have "r3 \<noteq> Some (Inr v')" for v'
    using durable_proof_accepted_once [OF disk.posix_directory_axioms _ run, of 1 3 "?c p 1010" "?c p 1300" v v']
    by (auto simp: sample_dir_def)
  with p run show ?thesis by blast
qed

text \<open>C16. The directory of records stays within the capacity of the store and never loses a live record,
  whatever fails: if at most \<open>capacity\<close> records are live before a call, so it is after, with the
  outcome of every operation left open; every live record keeps its expiry. A fresh answer means
  that the key had no live record and has one now.\<close>

theorem replay_files_bounded_and_retaining:
  assumes "posix_directory sys (sd_dir (fr_directory store)) file_at opened created"
    and "file_check_and_record sys store (Inr now) w key expires = (r, w')"
    and "finite (live_records now (file_at w))" "card (live_records now (file_at w)) \<le> fr_capacity store"
  shows "finite (live_records now (file_at w')) \<and> card (live_records now (file_at w')) \<le> fr_capacity store \<and>
    (\<forall>n x e. is_record_name n \<and> file_at w n = Some x \<and> recorded_expiry (df_content x) = Some e \<and> now \<le> e \<longrightarrow>
       (\<exists>x'. file_at w' n = Some x' \<and> recorded_expiry (df_content x') = Some e)) \<and>
    (r = Inr Fresh \<longrightarrow> now \<le> expires \<and>
       (\<exists>x. file_at w' (name_for key) = Some x \<and> recorded_expiry (df_content x) = Some expires) \<and>
       (\<forall>x e. file_at w (name_for key) = Some x \<and> recorded_expiry (df_content x) = Some e \<longrightarrow> e < now))"
proof -
  let ?dir = "sd_dir (fr_directory store)"
  note pd = assms(1)
  have live: "live_records now (file_at w) = posix_directory.live_names file_at now w" for w
    by (simp add: live_records_def posix_directory.live_names_alt [OF pd])
  note expiry = posix_directory.expiry_at_def [OF pd]
  note all = wpD [OF posix_directory.wp_file_check_and_record [OF pd refl], OF assms(2)]
  have "finite (live_records now (file_at w')) \<and> card (live_records now (file_at w')) \<le> fr_capacity store"
    using posix_directory.adds_within_capacity [OF pd conjunct1 [OF all]] assms(3,4) unfolding live by blast
  moreover have "\<exists>x'. file_at w' n = Some x' \<and> recorded_expiry (df_content x') = Some e"
    if n: "is_record_name n" "file_at w n = Some x" "recorded_expiry (df_content x) = Some e" "now \<le> e" for n x e
  proof -
    have "list_all is_lower_hex n" "posix_directory.expiry_at file_at w n = Some e"
      using n by (simp_all add: is_record_name_def expiry)
    then have "posix_directory.expiry_at file_at w' n = Some e"
      using conjunct1 [OF all] n(4)
      by (simp add: posix_directory.adds_within_def [OF pd] posix_directory.keeps_live_def [OF pd])
    then show ?thesis by (simp add: expiry bind_eq_Some_conv)
  qed
  moreover have "now \<le> expires \<and>
       (\<exists>x. file_at w' (name_for key) = Some x \<and> recorded_expiry (df_content x) = Some expires) \<and>
       (\<forall>x e. file_at w (name_for key) = Some x \<and> recorded_expiry (df_content x) = Some e \<longrightarrow> e < now)"
    if "r = Inr Fresh"
    using all that by (simp add: posix_directory.answers_def [OF pd] expiry bind_eq_Some_conv)
  ultimately show ?thesis by blast
qed

theorem replay_files_bounded_and_retaining_witness:
  "card (live_records 1010 (disk_file_at (snd (file_check_and_record disk_ops sample_file_store (Inr 1010)
     started_disk (ReplayKey (replicate 32 5)) 1300)))) \<le> 2"
proof -
  have empty: "live_records 1010 (disk_file_at started_disk) = {}"
    by (auto simp: live_records_def disk_file_at_def started_disk_def special_not_record(2) split: if_splits)
  have "posix_directory disk_ops (sd_dir (fr_directory sample_file_store)) disk_file_at disk_opened disk_created"
    using disk.posix_directory_axioms by (simp add: sample_file_store_def sample_dir_def)
  from replay_files_bounded_and_retaining [OF this surjective_pairing, of 1010 started_disk, unfolded empty]
  show ?thesis by (simp add: sample_file_store_def)
qed

end
