(* ===== verification/Concurrent_Replay.thy ===== *)
theory Concurrent_Replay
  imports Disk_Model
begin

text \<open>
  Replay stores under concurrent calls. Both stores serialize their work with a mutex, but they read
  the clock at different moments: \<open>InMemoryReplayStore::check_and_record\<close> before it takes the lock,
  \<open>FileReplayStore::check_and_record\<close> after. Here the calls are threads that interleave in any way, and
  the clock moves forward at any time between two steps.
\<close>

section \<open>Threads\<close>

text \<open>A call is before its clock reading, between reading and lock, or done, with the reading it worked
  with and its answer.\<close>

datatype call_phase =
    Called
  | Timed i64
  | Returned "DpopPortError + i64" "DpopPortError + ReplayStatus"

record 's shared =
  sh_clock :: i64
  sh_store :: 's
  sh_phase :: "nat \<Rightarrow> call_phase"

definition shared_start :: "i64 \<Rightarrow> 's \<Rightarrow> 's shared" where
  "shared_start t st = \<lparr>sh_clock = t, sh_store = st, sh_phase = (\<lambda>_. Called)\<rparr>"

definition moved :: "'s shared \<Rightarrow> nat \<Rightarrow> call_phase \<Rightarrow> 's shared" where
  "moved s i p = s\<lparr>sh_phase := (sh_phase s)(i := p)\<rparr>"

text \<open>\<open>calls i\<close> are the key and the expiry of call \<open>i\<close>. In memory: \<open>unix_seconds\<close>, the test of the expiry,
  then the section under the lock.\<close>

inductive memory_thread ::
  "(nat \<Rightarrow> ReplayKey \<times> i64) \<Rightarrow> InMemoryReplayStore shared \<Rightarrow> InMemoryReplayStore shared \<Rightarrow> bool"
  for calls where
  memory_tick: "sh_clock s \<le> t \<Longrightarrow> memory_thread calls s (s\<lparr>sh_clock := t\<rparr>)"
| memory_no_clock: "sh_phase s i = Called \<Longrightarrow>
    memory_thread calls s (moved s i (Returned (Inl DpopPortError) (Inl DpopPortError)))"
| memory_late: "sh_phase s i = Called \<Longrightarrow> snd (calls i) < sh_clock s \<Longrightarrow>
    memory_thread calls s (moved s i (Returned (Inr (sh_clock s)) (Inl DpopPortError)))"
| memory_read: "sh_phase s i = Called \<Longrightarrow> sh_clock s \<le> snd (calls i) \<Longrightarrow>
    memory_thread calls s (moved s i (Timed (sh_clock s)))"
| memory_locked: "sh_phase s i = Timed now \<Longrightarrow>
    replay_check_and_record (Inr now) (sh_store s) (fst (calls i)) (snd (calls i)) = (r, st) \<Longrightarrow>
    memory_thread calls s ((moved s i (Returned (Inr now) r))\<lparr>sh_store := st\<rparr>)"

text \<open>On disk: the lock, then \<open>unix_seconds\<close> and everything else.\<close>

inductive file_thread ::
  "('h, 'f, 'w) fs_ops \<Rightarrow> ('h, 'f) FileReplayStore \<Rightarrow> (nat \<Rightarrow> ReplayKey \<times> i64) \<Rightarrow> 'w shared \<Rightarrow> 'w shared \<Rightarrow> bool"
  for sys store calls where
  file_tick: "sh_clock s \<le> t \<Longrightarrow> file_thread sys store calls s (s\<lparr>sh_clock := t\<rparr>)"
| file_locked: "sh_phase s i = Called \<Longrightarrow> clock = Inl DpopPortError \<or> clock = Inr (sh_clock s) \<Longrightarrow>
    file_check_and_record sys store clock (sh_store s) (fst (calls i)) (snd (calls i)) = (r, w) \<Longrightarrow>
    file_thread sys store calls s ((moved s i (Returned clock r))\<lparr>sh_store := w\<rparr>)"

lemma moved_simps [simp]:
  "sh_clock (moved s i p) = sh_clock s" "sh_store (moved s i p) = sh_store s" "sh_phase (moved s i p) = (sh_phase s)(i := p)"
  by (simp_all add: moved_def)

lemma moved_store [simp]: "(moved s i p)\<lparr>sh_store := sh_store s\<rparr> = moved s i p"
  by (simp add: moved_def)

definition accepted :: "'s shared \<Rightarrow> nat \<Rightarrow> bool" where
  "accepted s i \<longleftrightarrow> (\<exists>t. sh_phase s i = Returned t (Inr Fresh))"

lemma accepted_start [simp]: "\<not> accepted (shared_start t st) i"
  by (simp add: accepted_def shared_start_def)

section \<open>What every interleaving keeps\<close>

context replay_store
begin

text \<open>Readings are not in the future; as long as the clock has not passed its expiry, an accepted call
  has its record; and two accepted calls for one key were accepted in different lives of the record.\<close>

definition threads_ok :: "(nat \<Rightarrow> ReplayKey \<times> i64) \<Rightarrow> 's shared \<Rightarrow> bool" where
  "threads_ok calls s \<longleftrightarrow> inv (sh_store s) \<and>
     (\<forall>i now. sh_phase s i = Timed now \<longrightarrow> now \<le> sh_clock s) \<and>
     (\<forall>i. accepted s i \<and> sh_clock s \<le> snd (calls i) \<longrightarrow> recorded (sh_store s) (fst (calls i)) = Some (snd (calls i))) \<and>
     (\<forall>i j. accepted s i \<and> accepted s j \<and> i \<noteq> j \<and> fst (calls i) = fst (calls j) \<longrightarrow>
        snd (calls i) < sh_clock s \<or> snd (calls j) < sh_clock s)"

lemma threads_ok_start: "inv st \<Longrightarrow> threads_ok calls (shared_start t st)"
  by (simp add: threads_ok_def) (simp add: shared_start_def)

lemma threads_ok_tick:
  assumes "threads_ok calls s" "sh_clock s \<le> t"
  shows "threads_ok calls (s\<lparr>sh_clock := t\<rparr>)"
proof -
  have "accepted (s\<lparr>sh_clock := t\<rparr>) = accepted s" by (simp add: accepted_def fun_eq_iff)
  then show ?thesis
    using assms unfolding threads_ok_def by (simp, meson order_trans less_le_trans)
qed

lemma threads_ok_moved:
  assumes "threads_ok calls s" "\<And>t r. sh_phase s i \<noteq> Returned t r" "\<And>t. p \<noteq> Returned t (Inr Fresh)"
    and "\<And>now. p = Timed now \<Longrightarrow> now \<le> sh_clock s"
  shows "threads_ok calls (moved s i p)"
proof -
  have "accepted (moved s i p) = accepted s"
    using assms(2,3) by (auto simp: accepted_def fun_eq_iff)
  then show ?thesis using assms(1,4) unfolding threads_ok_def by auto
qed

text \<open>The section under the lock, with a reading that may be old but not in the future.\<close>

lemma threads_ok_locked:
  assumes ok: "threads_ok calls s" and i: "\<And>t r. sh_phase s i \<noteq> Returned t r"
    and now: "now \<le> sh_clock s" and check: "check now (sh_store s) (fst (calls i)) (snd (calls i)) = (r, st)"
  shows "threads_ok calls ((moved s i (Returned (Inr now) r))\<lparr>sh_store := st\<rparr>)"
    (is "threads_ok calls ?s")
proof -
  have "\<not> accepted s i" using i by (auto simp: accepted_def)
  then have acc: "accepted ?s j \<longleftrightarrow> (if j = i then r = Inr Fresh else accepted s j)" for j
    by (auto simp: accepted_def)
  have kept: "recorded st k = Some e" if "recorded (sh_store s) k = Some e" "sh_clock s \<le> e" for k e
    using check_keeps [OF _ check that(1)] that(2) now ok by (simp add: threads_ok_def)
  have fresh: "recorded st (fst (calls i)) = Some (snd (calls i))" if "r = Inr Fresh"
    using check_fresh [of "sh_store s"] check that ok by (simp add: threads_ok_def)
  have other: "snd (calls j) < sh_clock s" if "r = Inr Fresh" "accepted s j" "fst (calls j) = fst (calls i)" for j
  proof (rule ccontr)
    assume "\<not> snd (calls j) < sh_clock s"
    then have "recorded (sh_store s) (fst (calls i)) = Some (snd (calls j))"
      using ok that(2,3) unfolding threads_ok_def by (metis not_less)
    then have "snd (calls j) < now"
      using check_fresh_new [of "sh_store s" now] check that(1) ok by (simp add: threads_ok_def)
    with now \<open>\<not> snd (calls j) < sh_clock s\<close> show False by simp
  qed
  have inv: "inv st" using check_inv [OF _ check] ok by (simp add: threads_ok_def)
  show ?thesis
    using ok kept fresh other inv unfolding threads_ok_def acc by (auto split: if_splits)
qed

text \<open>With the current reading, a call whose key and expiry were accepted before is not fresh.\<close>

lemma threads_ok_not_fresh:
  assumes ok: "threads_ok calls s" and j: "accepted s j" "calls j = calls i"
    and check: "check (sh_clock s) (sh_store s) (fst (calls i)) (snd (calls i)) = (r, st)"
  shows "r \<noteq> Inr Fresh"
proof
  assume "r = Inr Fresh"
  then have "sh_clock s \<le> snd (calls i)" "\<And>e. recorded (sh_store s) (fst (calls i)) = Some e \<Longrightarrow> e < sh_clock s"
    using check_fresh [of "sh_store s"] check_fresh_new [of "sh_store s"] check ok by (auto simp: threads_ok_def)
  then show False using ok j unfolding threads_ok_def by (metis not_less)
qed

lemma threads_ok_once:
  assumes "threads_ok calls s" "accepted s i" "accepted s j" "fst (calls i) = fst (calls j)"
    and "sh_clock s \<le> snd (calls i)" "sh_clock s \<le> snd (calls j)"
  shows "i = j"
  using assms unfolding threads_ok_def by (metis not_less)

end

section \<open>Interleavings of the two stores\<close>

lemma memory_threads_ok:
  assumes "(memory_thread calls)\<^sup>*\<^sup>* (shared_start t st) s" "wf_replay_store st"
  shows "memory.threads_ok calls s"
  using assms(1)
proof (induction rule: rtranclp_induct)
  case base
  then show ?case using memory.threads_ok_start assms(2) .
next
  case (step s s')
  from step(2) show ?case
  proof (cases rule: memory_thread.cases)
    case (memory_locked i now r st')
    have "now \<le> sh_clock s" using step.IH memory_locked(2) by (auto simp: memory.threads_ok_def)
    then show ?thesis
      using memory.threads_ok_locked [OF step.IH, of i now r st'] memory_locked by simp
  qed (use step.IH in \<open>auto intro!: memory.threads_ok_tick memory.threads_ok_moved\<close>)
qed

lemma file_no_clock:
  "file_check_and_record sys store (Inl e) w key expires = (Inl DpopPortError, w)"
  by (cases e) (simp add: file_check_and_record_def bindM_def lift_def raise_def)

lemma file_threads_ok:
  assumes "posix_directory sys (sd_dir (fr_directory store)) file_at opened created"
    and "(file_thread sys store calls)\<^sup>*\<^sup>* (shared_start t w) s"
  shows "replay_store.threads_ok (\<lambda>_. True) (\<lambda>w k. posix_directory.expiry_at file_at w (name_for k)) calls s"
proof -
  note contract = posix_directory.file_replay_store [OF assms(1) refl]
  show ?thesis
    using assms(2)
  proof (induction rule: rtranclp_induct)
    case base
    then show ?case by (rule replay_store.threads_ok_start [OF contract TrueI])
  next
    case (step s s')
    from step(2) show ?case
    proof (cases rule: file_thread.cases)
      case (file_tick t)
      then show ?thesis using replay_store.threads_ok_tick [OF contract step.IH] by simp
    next
      case (file_locked i clock r u)
      show ?thesis
      proof (cases clock)
        case (Inl e)
        then have "u = sh_store s" "r = Inl DpopPortError" using file_locked(4) by (simp_all add: file_no_clock)
        then show ?thesis
          using replay_store.threads_ok_moved [OF contract step.IH, of i "Returned clock r"] file_locked(1,2)
          by simp
      next
        case (Inr now)
        then show ?thesis
          using replay_store.threads_ok_locked [OF contract step.IH, of i now r u] file_locked by simp
      qed
    qed
  qed
qed

lemma file_once:
  assumes "posix_directory sys (sd_dir (fr_directory store)) file_at opened created"
    and "(file_thread sys store calls)\<^sup>*\<^sup>* (shared_start t w) s" "accepted s i" "accepted s j" "calls i = calls j"
  shows "i = j"
  using assms(2-5)
proof (induction arbitrary: i j rule: rtranclp_induct)
  case (step s s')
  note contract = posix_directory.file_replay_store [OF assms(1) refl]
  note ok = file_threads_ok [OF assms(1) step(1)]
  from step(2) show ?case
  proof (cases rule: file_thread.cases)
    case (file_tick t)
    then show ?thesis using step.IH step.prems by (simp add: accepted_def)
  next
    case (file_locked m clock r u)
    have acc: "accepted s' k \<longleftrightarrow> (if k = m then r = Inr Fresh else accepted s k)" for k
      using file_locked(1) by (simp add: accepted_def)
    have "r \<noteq> Inr Fresh" if "accepted s k" "calls k = calls m" for k
    proof (cases clock)
      case (Inl e)
      then show ?thesis using file_locked(4) by (auto simp: file_no_clock)
    next
      case (Inr now)
      then show ?thesis
        using replay_store.threads_ok_not_fresh [OF contract ok that] file_locked(3,4) by auto
    qed
    then show ?thesis
      using step.prems step.IH [of i j] unfolding acc by (cases "i = m"; cases "j = m") auto
  qed
qed simp

text \<open>The calls that returned, in an order that explains them as sequential calls.\<close>

fun sequential_call :: "(nat \<Rightarrow> ReplayKey \<times> i64) \<Rightarrow> (nat \<Rightarrow> call_phase) \<Rightarrow> InMemoryReplayStore \<Rightarrow> nat
   \<Rightarrow> (DpopPortError + ReplayStatus) \<times> InMemoryReplayStore" where
  "sequential_call calls phase st i =
     (case phase i of
        Returned clock _ \<Rightarrow> replay_check_and_record clock st (fst (calls i)) (snd (calls i))
      | _ \<Rightarrow> (Inl DpopPortError, st))"

definition answer_of :: "call_phase \<Rightarrow> DpopPortError + ReplayStatus" where
  "answer_of p = (case p of Returned _ r \<Rightarrow> r | _ \<Rightarrow> Inl DpopPortError)"

definition returned :: "call_phase \<Rightarrow> bool" where
  "returned p \<longleftrightarrow> (\<exists>t r. p = Returned t r)"

definition explains :: "(nat \<Rightarrow> ReplayKey \<times> i64) \<Rightarrow> InMemoryReplayStore \<Rightarrow> InMemoryReplayStore shared \<Rightarrow> nat list \<Rightarrow> bool" where
  "explains calls st s order \<longleftrightarrow> distinct order \<and> set order = {i. returned (sh_phase s i)} \<and>
     run_ops (sequential_call calls (sh_phase s)) st order = (map (\<lambda>i. answer_of (sh_phase s i)) order, sh_store s)"

lemma run_sequential_cong:
  "(\<And>i. i \<in> set order \<Longrightarrow> p i = q i) \<Longrightarrow> run_ops (sequential_call calls p) st order = run_ops (sequential_call calls q) st order"
  by (induction order arbitrary: st) (auto split: prod.splits)

lemma explains_same:
  assumes "explains calls st s order" "\<And>i. returned (sh_phase s' i) \<longleftrightarrow> returned (sh_phase s i)"
    and "\<And>i. returned (sh_phase s i) \<Longrightarrow> sh_phase s' i = sh_phase s i" "sh_store s' = sh_store s"
  shows "explains calls st s' order"
  using assms run_sequential_cong [of order "sh_phase s'" "sh_phase s" calls st]
  by (auto simp: explains_def cong: map_cong)

lemma explains_return:
  assumes "explains calls st s order" "\<not> returned (sh_phase s i)"
    and "replay_check_and_record clock (sh_store s) (fst (calls i)) (snd (calls i)) = (r, st')"
  shows "explains calls st ((moved s i (Returned clock r))\<lparr>sh_store := st'\<rparr>) (order @ [i])"
proof -
  let ?p = "(sh_phase s)(i := Returned clock r)"
  have i: "i \<notin> set order" using assms(1,2) by (simp add: explains_def)
  then have same: "?p j = sh_phase s j" if "j \<in> set order" for j using that by auto
  have "run_ops (sequential_call calls ?p) st order = run_ops (sequential_call calls (sh_phase s)) st order"
    by (rule run_sequential_cong [OF same])
  moreover have "map (\<lambda>j. answer_of (?p j)) order = map (\<lambda>j. answer_of (sh_phase s j)) order"
    using same by (intro map_cong) simp_all
  ultimately have run: "run_ops (sequential_call calls ?p) st order = (map (\<lambda>j. answer_of (?p j)) order, sh_store s)"
    using assms(1) by (simp add: explains_def)
  show ?thesis
    using assms(1,3) i run by (auto simp: explains_def run_ops_append answer_of_def returned_def)
qed

lemma memory_explained_step:
  assumes order: "explains calls st s order" and step: "memory_thread calls s s'"
  shows "\<exists>rest. explains calls st s' (order @ rest)"
proof -
  have direct: "explains calls st (moved s i (Returned clock r)) (order @ [i])"
    if "sh_phase s i = Called" "replay_check_and_record clock (sh_store s) (fst (calls i)) (snd (calls i)) = (r, sh_store s)"
    for i clock r
    using explains_return [OF order _ that(2)] that(1) by (auto simp: returned_def)
  have same: "\<exists>rest. explains calls st s' (order @ rest)" if "explains calls st s' order"
    using that by (intro exI [of _ "[]"]) simp
  from step show ?thesis
  proof (cases rule: memory_thread.cases)
    case (memory_tick t)
    then show ?thesis using explains_same [OF order, of s'] same by auto
  next
    case (memory_no_clock i)
    then show ?thesis using direct [of i "Inl DpopPortError"] by (auto simp: replay_check_and_record_def)
  next
    case (memory_late i)
    then show ?thesis using direct [of i "Inr (sh_clock s)"] by (auto simp: replay_check_and_record_def)
  next
    case (memory_read i)
    have "explains calls st s' order"
      by (rule explains_same [OF order]) (use memory_read in \<open>auto simp: returned_def\<close>)
    then show ?thesis by (rule same)
  next
    case (memory_locked i now r st')
    then show ?thesis using explains_return [OF order _ memory_locked(3)] by (auto simp: returned_def)
  qed
qed

text \<open>Later calls come later in the order.\<close>

lemma memory_explained:
  assumes "(memory_thread calls)\<^sup>*\<^sup>* s s'" "explains calls st s order"
  shows "\<exists>rest. explains calls st s' (order @ rest)"
  using assms
proof (induction rule: rtranclp_induct)
  case base
  then show ?case by (intro exI [of _ "[]"]) simp
next
  case (step s' s'')
  then show ?case using memory_explained_step [OF _ step(2)] by (metis append.assoc)
qed

lemma explains_start: "explains calls st (shared_start t st) []"
  by (simp add: explains_def shared_start_def returned_def)

text \<open>A call that is not interrupted.\<close>

lemma memory_call:
  assumes "sh_phase s i = Called" "sh_clock s = now" "now \<le> snd (calls i)"
    and "replay_check_and_record (Inr now) (sh_store s) (fst (calls i)) (snd (calls i)) = (r, st)"
  shows "(memory_thread calls)\<^sup>*\<^sup>* s ((moved s i (Returned (Inr now) r))\<lparr>sh_store := st\<rparr>)"
proof -
  have "memory_thread calls s (moved s i (Timed now))"
    using memory_read [of s i calls] assms(1-3) by simp
  moreover have "memory_thread calls (moved s i (Timed now))
      ((moved (moved s i (Timed now)) i (Returned (Inr now) r))\<lparr>sh_store := st\<rparr>)"
    using assms(4) by (intro memory_locked) simp_all
  moreover have "moved (moved s i (Timed now)) i (Returned (Inr now) r) = moved s i (Returned (Inr now) r)"
    by (simp add: moved_def)
  ultimately show ?thesis by (metis r_into_rtranclp rtranclp_trans)
qed

definition race_calls :: "nat \<Rightarrow> ReplayKey \<times> i64" where
  "race_calls i = (if i = 2 then (ReplayKey (replicate 32 2), 400) else (ReplayKey (replicate 32 1), 150))"

lemma race_checks:
  "replay_check_and_record (Inr 100) sample_store (ReplayKey (replicate 32 1)) 150 =
    (Inr Fresh, sample_store\<lparr>rs_entries := [(ReplayKey (replicate 32 1), 150)]\<rparr>)"
  "replay_check_and_record (Inr 151) (sample_store\<lparr>rs_entries := [(ReplayKey (replicate 32 1), 150)]\<rparr>) (ReplayKey (replicate 32 2)) 400 =
    (Inr Fresh, sample_store\<lparr>rs_entries := [(ReplayKey (replicate 32 2), 400)]\<rparr>)"
  "replay_check_and_record (Inr 150) (sample_store\<lparr>rs_entries := [(ReplayKey (replicate 32 2), 400)]\<rparr>) (ReplayKey (replicate 32 1)) 150 =
    (Inr Fresh, sample_store\<lparr>rs_entries := [(ReplayKey (replicate 32 2), 400), (ReplayKey (replicate 32 1), 150)]\<rparr>)"
  by (simp_all add: sample_store_def replay_check_and_record_def hm_retain_def hm_contains_def hm_get_def hm_len_def hm_insert_def)

text \<open>The race: call 0 is accepted, call 1 reads the last second of the expiry, call 2 reads the next one
  and purges the record, call 1 goes on.\<close>

definition race_after_0 :: "InMemoryReplayStore shared" where
  "race_after_0 = (moved (shared_start 100 sample_store) 0 (Returned (Inr 100) (Inr Fresh)))
     \<lparr>sh_store := sample_store\<lparr>rs_entries := [(ReplayKey (replicate 32 1), 150)]\<rparr>\<rparr>"

definition race_timed_1 :: "InMemoryReplayStore shared" where
  "race_timed_1 = moved (race_after_0\<lparr>sh_clock := 150\<rparr>) 1 (Timed 150)"

definition race_after_2 :: "InMemoryReplayStore shared" where
  "race_after_2 = (moved (race_timed_1\<lparr>sh_clock := 151\<rparr>) 2 (Returned (Inr 151) (Inr Fresh)))
     \<lparr>sh_store := sample_store\<lparr>rs_entries := [(ReplayKey (replicate 32 2), 400)]\<rparr>\<rparr>"

definition race_state :: "InMemoryReplayStore shared" where
  "race_state = (moved race_after_2 1 (Returned (Inr 150) (Inr Fresh)))
     \<lparr>sh_store := sample_store\<lparr>rs_entries := [(ReplayKey (replicate 32 2), 400), (ReplayKey (replicate 32 1), 150)]\<rparr>\<rparr>"

lemmas race_state_defs = race_state_def race_after_2_def race_timed_1_def race_after_0_def shared_start_def

lemma race_first: "(memory_thread race_calls)\<^sup>*\<^sup>* (shared_start 100 sample_store) race_after_0"
  unfolding race_after_0_def by (rule memory_call) (simp_all add: shared_start_def race_calls_def race_checks)

lemma race_run: "(memory_thread race_calls)\<^sup>*\<^sup>* (shared_start 100 sample_store) race_state"
proof -
  let ?step = "memory_thread race_calls"
  have "?step race_after_0 (race_after_0\<lparr>sh_clock := 150\<rparr>)"
    by (rule memory_tick) (simp add: race_state_defs)
  moreover have "?step (race_after_0\<lparr>sh_clock := 150\<rparr>) race_timed_1"
    using memory_read [of "race_after_0\<lparr>sh_clock := 150\<rparr>" 1 race_calls]
    by (simp add: race_state_defs race_calls_def)
  moreover have "?step race_timed_1 (race_timed_1\<lparr>sh_clock := 151\<rparr>)"
    by (rule memory_tick) (simp add: race_state_defs)
  ultimately have timed: "?step\<^sup>*\<^sup>* (shared_start 100 sample_store) (race_timed_1\<lparr>sh_clock := 151\<rparr>)"
    using race_first by (meson rtranclp.rtrancl_into_rtrancl)
  have purge: "?step\<^sup>*\<^sup>* (race_timed_1\<lparr>sh_clock := 151\<rparr>) race_after_2"
    unfolding race_after_2_def
    by (rule memory_call) (simp_all add: race_timed_1_def race_after_0_def shared_start_def race_calls_def race_checks)
  have "?step race_after_2 race_state"
    unfolding race_state_def
    by (rule memory_locked)
      (simp_all add: race_after_2_def race_timed_1_def race_calls_def race_checks)
  then show ?thesis by (rule rtranclp.rtrancl_into_rtrancl [OF rtranclp_trans [OF timed purge]])
qed

text \<open>Why the property below bounds the clock: the in-memory store reads its clock before it locks, so that a
  call that has read the last second of the expiry can be overtaken by a call that reads the next one
  and purges the record, and is then answered fresh although the key was accepted before.\<close>

lemma clock_race_accepts_twice:
  "\<exists>s. (memory_thread race_calls)\<^sup>*\<^sup>* (shared_start 100 sample_store) s \<and>
     race_calls 0 = race_calls 1 \<and> accepted s 0 \<and> accepted s 1 \<and> sh_clock s = 151"
proof (intro exI conjI)
  show "(memory_thread race_calls)\<^sup>*\<^sup>* (shared_start 100 sample_store) race_state" by (rule race_run)
  show "accepted race_state 0" "accepted race_state 1" "sh_clock race_state = 151"
    by (simp_all add: race_state_defs accepted_def)
qed (simp add: race_calls_def)

section \<open>Properties\<close>

text \<open>C13. Concurrent calls of the in-memory store, in every interleaving: the store stays within its
  capacity, and as long as the clock has not passed the expiry, at most one call is answered fresh for
  a key.\<close>

theorem concurrent_memory_fresh_once:
  assumes "replay_store_new capacity = Inr st" "(memory_thread calls)\<^sup>*\<^sup>* (shared_start t st) s"
  shows "wf_replay_store (sh_store s) \<and>
    (\<forall>i j. accepted s i \<and> accepted s j \<and> fst (calls i) = fst (calls j) \<and>
       sh_clock s \<le> snd (calls i) \<and> sh_clock s \<le> snd (calls j) \<longrightarrow> i = j)"
proof -
  have "wf_replay_store st" using assms(1) by (auto simp: replay_store_new_def wf_replay_store_def hm_len_def split: if_splits)
  note ok = memory_threads_ok [OF assms(2) this]
  then show ?thesis using memory.threads_ok_once [OF ok] by (auto simp: memory.threads_ok_def)
qed

theorem concurrent_memory_fresh_once_witness:
  "\<exists>s. (memory_thread race_calls)\<^sup>*\<^sup>* (shared_start 100 sample_store) s \<and>
     returned (sh_phase s 0) \<and> returned (sh_phase s 1) \<and> accepted s 0 \<and> \<not> accepted s 1"
proof -
  obtain r st where check: "replay_check_and_record (Inr 100) (sh_store race_after_0) (ReplayKey (replicate 32 1)) 150 = (r, st)"
    by fastforce
  let ?s = "(moved race_after_0 1 (Returned (Inr 100) r))\<lparr>sh_store := st\<rparr>"
  have "(memory_thread race_calls)\<^sup>*\<^sup>* race_after_0 ?s"
    by (rule memory_call) (use check in \<open>simp_all add: race_state_defs race_calls_def\<close>)
  with race_first have run: "(memory_thread race_calls)\<^sup>*\<^sup>* (shared_start 100 sample_store) ?s"
    by (rule rtranclp_trans)
  have ret: "returned (sh_phase ?s 0)" "returned (sh_phase ?s 1)" "accepted ?s 0" "sh_clock ?s = 100"
    by (simp_all add: race_state_defs returned_def accepted_def)
  have "replay_store_new 2 = Inr sample_store" by (simp add: replay_store_new_def sample_store_def)
  from concurrent_memory_fresh_once [OF this run] ret have "\<not> accepted ?s 1"
    by (force simp: race_calls_def)
  with run ret show ?thesis by blast
qed

text \<open>C14. The store on disk reads its clock under the lock, and is safe in every interleaving: over any
  behaviour of its directory, at most one call with a given key and expiry is ever answered fresh.\<close>

theorem concurrent_file_fresh_once:
  assumes "posix_directory sys (sd_dir (fr_directory store)) file_at opened created"
    and "(file_thread sys store calls)\<^sup>*\<^sup>* (shared_start t w) s"
    and "accepted s i" "accepted s j" "calls i = calls j"
  shows "i = j"
  using assms by (rule file_once)

theorem concurrent_file_fresh_once_witness:
  "\<exists>s. (file_thread disk_ops sample_file_store (\<lambda>_. (ReplayKey (replicate 32 5), 1300)))\<^sup>*\<^sup>* (shared_start 1010 started_disk) s \<and>
     returned (sh_phase s 0) \<and> returned (sh_phase s 1) \<and> accepted s 0 \<and> \<not> accepted s 1"
proof -
  let ?calls = "\<lambda>_ :: nat. (ReplayKey (replicate 32 5), 1300 :: i64)"
  let ?check = "\<lambda>w. file_check_and_record disk_ops sample_file_store (Inr 1010) w (ReplayKey (replicate 32 5)) 1300"
  obtain w1 where first: "?check started_disk = (Inr Fresh, w1)"
    using started_fresh [of "ReplayKey (replicate 32 5)"] by (cases "?check started_disk") simp
  obtain r w2 where second: "?check w1 = (r, w2)" by fastforce
  let ?s1 = "(moved (shared_start 1010 started_disk) 0 (Returned (Inr 1010) (Inr Fresh)))\<lparr>sh_store := w1\<rparr>"
  let ?s2 = "(moved ?s1 1 (Returned (Inr 1010) r))\<lparr>sh_store := w2\<rparr>"
  have "file_thread disk_ops sample_file_store ?calls (shared_start 1010 started_disk) ?s1"
    by (rule file_locked) (use first in \<open>simp_all add: shared_start_def\<close>)
  moreover have "file_thread disk_ops sample_file_store ?calls ?s1 ?s2"
    by (rule file_locked) (use second in \<open>simp_all add: shared_start_def\<close>)
  ultimately have run: "(file_thread disk_ops sample_file_store ?calls)\<^sup>*\<^sup>* (shared_start 1010 started_disk) ?s2"
    by (meson r_into_rtranclp rtranclp.rtrancl_into_rtrancl)
  have ret: "returned (sh_phase ?s2 0)" "returned (sh_phase ?s2 1)" "accepted ?s2 0"
    by (simp_all add: returned_def accepted_def)
  have "posix_directory disk_ops (sd_dir (fr_directory sample_file_store)) disk_file_at disk_opened disk_created"
    using disk.posix_directory_axioms by (simp add: sample_file_store_def sample_dir_def)
  from concurrent_file_fresh_once [OF this run ret(3), of 1] have "\<not> accepted ?s2 1" by auto
  with run ret show ?thesis by blast
qed

end
