(* ===== verification/Replay_Spec.thy ===== *)
theory Replay_Spec
  imports Disk_Model
begin

text \<open>
  What a replay store is for: a specification of \<open>ReplayStore\<close> over a partial function from keys to
  expiries, and the proof that both stores implement it, the one in memory (\<open>state.rs\<close>) and the one
  on disk (\<open>replay.rs\<close>, over a working directory). Clients cannot tell the two apart by their answers.
\<close>

section \<open>The specification\<close>

definition live_part :: "i64 \<Rightarrow> (ReplayKey \<rightharpoonup> i64) \<Rightarrow> ReplayKey \<rightharpoonup> i64" where
  "live_part now m = (\<lambda>k. case m k of Some e \<Rightarrow> if now \<le> e then Some e else None | None \<Rightarrow> None)"

definition spec_check :: "nat \<Rightarrow> i64 \<Rightarrow> (ReplayKey \<rightharpoonup> i64) replay_op" where
  "spec_check capacity now m key expires =
     (if expires < now then (Inl DpopPortError, m)
      else
        (let live = live_part now m in
         if key \<in> dom live then (Inr Replay, live)
         else if capacity \<le> card (dom live) then (Inl DpopPortError, live)
         else (Inr Fresh, live(key \<mapsto> expires))))"

text \<open>Keys are digests, and expiries are times the store can write.\<close>

definition valid_call :: "replay_call \<Rightarrow> bool" where
  "valid_call c \<longleftrightarrow> length (replay_key_bytes (rc_key c)) = 32 \<and> 0 \<le> rc_expires c \<and> rc_expires c < 2 ^ 63"

text \<open>One operation at a time, the answers and the recorded keys are those of the specification.\<close>

locale refines_replay_spec =
  fixes check :: "i64 \<Rightarrow> 's replay_op" and inv :: "'s \<Rightarrow> bool" and keys :: "'s \<Rightarrow> ReplayKey \<rightharpoonup> i64" and capacity :: nat
  assumes refine_step: "inv s \<Longrightarrow> valid_call c \<Longrightarrow>
    \<exists>r s'. check (rc_time c) s (rc_key c) (rc_expires c) = (r, s') \<and> inv s' \<and>
      spec_check capacity (rc_time c) (keys s) (rc_key c) (rc_expires c) = (r, keys s')"
begin

lemma refine_run:
  assumes "inv s" "list_all valid_call calls"
  shows "fst (run_ops (\<lambda>s c. check (rc_time c) s (rc_key c) (rc_expires c)) s calls) =
    fst (run_ops (\<lambda>m c. spec_check capacity (rc_time c) m (rc_key c) (rc_expires c)) (keys s) calls)"
  using assms
proof (induction calls arbitrary: s)
  case (Cons c calls)
  then obtain r s' where "check (rc_time c) s (rc_key c) (rc_expires c) = (r, s')" "inv s'"
    "spec_check capacity (rc_time c) (keys s) (rc_key c) (rc_expires c) = (r, keys s')"
    using refine_step [of s c] by auto
  then show ?case using Cons.IH [of s'] Cons.prems(2) by (auto split: prod.splits)
qed simp

end

section \<open>The store in memory\<close>

lemma card_dom_hm: "hm_wf m \<Longrightarrow> card (dom (hm_get m)) = hm_len m"
  by (simp add: hm_wf_def hm_len_def hm_get_def [abs_def] dom_map_of_conv_image_fst distinct_card flip: set_map)

text \<open>The store in memory takes any key and any expiry.\<close>

lemma memory_refine_step:
  assumes st: "wf_replay_store st" "\<not> rs_poisoned st" and step: "memory_check now st key expires = (r, st')"
  shows "wf_replay_store st' \<and> \<not> rs_poisoned st' \<and> rs_capacity st' = rs_capacity st \<and>
    spec_check (rs_capacity st) now (hm_get (rs_entries st)) key expires = (r, hm_get (rs_entries st'))"
proof -
  have wf: "wf_replay_store st'" using memory_check_wf st(1) step by blast
  have live: "hm_get (hm_retain (\<lambda>x. x \<ge> now) (rs_entries st)) = live_part now (hm_get (rs_entries st))"
    using st(1) by (auto simp: live_part_def fun_eq_iff wf_replay_store_def hm_get_retain)
  have wf_live: "hm_wf (hm_retain (\<lambda>x. x \<ge> now) (rs_entries st))"
    using st(1) by (simp add: wf_replay_store_def)
  note card = card_dom_hm [OF wf_live, unfolded live]
  from step have "\<not> rs_poisoned st' \<and> rs_capacity st' = rs_capacity st \<and>
      spec_check (rs_capacity st) now (hm_get (rs_entries st)) key expires = (r, hm_get (rs_entries st'))"
  proof (cases rule: memory_check_cases)
    case (fresh entries)
    then show ?thesis
      using st(2) live card by (auto simp: spec_check_def Let_def hm_contains_def hm_get_insert fun_eq_iff)
  qed (use st(2) live card in \<open>auto simp: spec_check_def Let_def hm_contains_def\<close>)
  then show ?thesis using wf by blast
qed

interpretation memory_spec: refines_replay_spec memory_check
  "\<lambda>st. wf_replay_store st \<and> \<not> rs_poisoned st \<and> rs_capacity st = capacity" "\<lambda>st. hm_get (rs_entries st)" capacity
  for capacity :: nat
proof (unfold_locales, goal_cases)
  case (1 st c)
  obtain r st' where step: "memory_check (rc_time c) st (rc_key c) (rc_expires c) = (r, st')" by (meson surj_pair)
  then show ?case using memory_refine_step [OF _ _ step] 1(1) by auto
qed

section \<open>The store on disk\<close>

text \<open>Every record name is the name of a key.\<close>

lemma lower_hex_digit: "is_lower_hex c \<Longrightarrow> \<exists>d < 16. c = digit_char d"
proof -
  assume "is_lower_hex c"
  then have "48 \<le> (of_char c :: nat) \<and> (of_char c :: nat) \<le> 57 \<or> 97 \<le> (of_char c :: nat) \<and> (of_char c :: nat) \<le> 102"
    by (auto simp: is_lower_hex_def is_ascii_digit_def byte_arith)
  then show ?thesis
  proof
    assume c: "48 \<le> (of_char c :: nat) \<and> (of_char c :: nat) \<le> 57"
    then show ?thesis by (intro exI [of _ "of_char c - 48"]) (auto simp: digit_char_def)
  next
    assume c: "97 \<le> (of_char c :: nat) \<and> (of_char c :: nat) \<le> 102"
    then show ?thesis by (intro exI [of _ "of_char c - 87"]) (auto simp: digit_char_def)
  qed
qed

lemma and_mask_low: "unat (w AND 0x0F :: u8) = unat w mod 16"
proof -
  have "w AND 0x0F = take_bit 4 w" by (simp add: take_bit_eq_mask mask_eq_exp_minus_1)
  then show ?thesis by (simp add: take_bit_eq_mod unat_mod)
qed

lemma hex_byte: "a < 16 \<Longrightarrow> b < 16 \<Longrightarrow> \<exists>w :: u8. hex_name [w] = [digit_char a, digit_char b]"
proof -
  assume ab: "a < 16" "b < 16"
  let ?w = "word_of_nat (16 * a + b) :: u8"
  have "unat ?w = 16 * a + b" using ab by (simp add: unat_of_nat take_bit_eq_mod del: of_nat_add of_nat_mult)
  moreover have "unat (drop_bit 4 ?w) = unat ?w div 16" "unat (?w AND 0x0F) = unat ?w mod 16"
    by (simp_all only: drop_bit_eq_div unat_div and_mask_low) simp
  ultimately have "unat (drop_bit 4 ?w) = a" "unat (?w AND 0x0F) = b" using ab by simp_all
  then show ?thesis by (intro exI [of _ ?w]) (simp add: hex_name_def)
qed

lemma hex_name_surj: "list_all is_lower_hex n \<Longrightarrow> length n = 2 * k \<Longrightarrow> \<exists>bs. length bs = k \<and> n = hex_name bs"
proof (induction k arbitrary: n)
  case 0
  then show ?case by (simp add: hex_name_def)
next
  case (Suc k)
  then obtain x y m where n: "n = x # y # m" "length m = 2 * k" by (cases n; cases "tl n") auto
  then obtain a b where ab: "x = digit_char a" "y = digit_char b" "a < 16" "b < 16"
    using Suc.prems(1) lower_hex_digit [of x] lower_hex_digit [of y] by auto
  obtain w where "hex_name [w] = [digit_char a, digit_char b]"
    using hex_byte [OF ab(3,4)] by blast
  moreover obtain bs where "length bs = k" "m = hex_name bs"
    using Suc.IH [of m] Suc.prems(1) n by auto
  ultimately show ?case using n ab by (intro exI [of _ "w # bs"]) (simp add: hex_name_def)
qed

lemma record_name_key: "is_record_name n \<Longrightarrow> \<exists>k. length (replay_key_bytes k) = 32 \<and> n = name_for k"
  using hex_name_surj [of n 32] by (auto simp: is_record_name_def name_for_def intro: exI [of _ "ReplayKey _"])

text \<open>The keys that a directory records.\<close>

definition recorded_keys :: "(str \<Rightarrow> dfile option) \<Rightarrow> ReplayKey \<rightharpoonup> i64" where
  "recorded_keys files k =
     (if length (replay_key_bytes k) = 32
      then Option.bind (files (name_for k)) (\<lambda>x. recorded_expiry (df_content x)) else None)"

context reliable_directory
begin

lemma live_names_keys: "live_names now w = name_for ` dom (live_part now (recorded_keys (file_at w)))"
proof -
  have "n \<in> live_names now w \<longleftrightarrow> (\<exists>k. n = name_for k \<and> k \<in> dom (live_part now (recorded_keys (file_at w))))" for n
    using record_name_key [of n] name_for_record
    by (fastforce simp: live_names_def live_part_def recorded_keys_def expiry_at_def split: option.splits if_splits)
  then show ?thesis by blast
qed

lemma name_live_key: "name_for k \<in> live_names now w \<longleftrightarrow> k \<in> dom (live_part now (recorded_keys (file_at w)))"
  by (auto simp: live_names_keys name_for_inj)

lemma card_live_keys: "card (live_names now w) = card (dom (live_part now (recorded_keys (file_at w))))"
  unfolding live_names_keys by (rule card_image) (simp add: inj_on_def name_for_inj)

lemma recorded_sweep: "recorded_keys (sweep now w) = live_part now (recorded_keys (file_at w))"
proof
  fix k
  show "recorded_keys (sweep now w) k = live_part now (recorded_keys (file_at w)) k"
    using name_live_key [of k now w] name_for_record [of k]
    by (auto simp: recorded_keys_def sweep_def live_part_def dom_def split: option.splits if_splits)
qed

lemma decision_spec:
  assumes "now \<le> expires"
  shows "decision cap now w (name_for key) = fst (spec_check cap now (recorded_keys (file_at w)) key expires)"
  using assms by (auto simp: decision_def spec_check_def Let_def name_live_key card_live_keys not_less)

lemma written_recorded:
  "written x e \<Longrightarrow> length (replay_key_bytes key) = 32 \<Longrightarrow>
   recorded_keys (f(name_for key \<mapsto> x)) = (recorded_keys f)(key \<mapsto> e)"
  using recorded_expiry_fmt [of e] by (auto simp: fun_eq_iff recorded_keys_def written_def name_for_inj)

lemma written_ok:
  assumes "written x e" "0 \<le> e" "e < 2 ^ 63"
  shows "record_ok uid x e"
proof -
  have mode: "is_file (stat_of x)" "private_mode (stat_of x)"
    using assms(1) by (simp_all add: written_def is_file_def private_mode_def stat_of_def S_IFMT_def S_IFREG_def)
  have fmt: "fmt_i64 e = nat_to_string (nat e)" using assms(2) by (simp add: fmt_i64_def)
  have len: "length (nat_to_string (nat e)) \<le> 19"
    using length_fmt_radix [of 10 "nat e" 18] assms(3) by simp
  have trim: "strip_suffix_char (nat_to_string (nat e) @ [newline]) newline = Some (nat_to_string (nat e))"
    by (simp add: strip_suffix_char_def)
  have "list_all (\<lambda>c. byte_of c < 0x80) (nat_to_string (nat e) @ [newline])"
    using nat_to_string_digits [of "nat e"]
    by (auto simp: list_all_iff is_ascii_digit_def newline_def word_le_nat_alt word_less_nat_alt)
  then have "is_utf8 (as_bytes (nat_to_string (nat e) @ [newline]))"
    by (intro utf8_ascii) (auto simp: list_all_iff as_bytes_def)
  moreover have "parse_expiry (nat_to_string (nat e) @ [newline]) = Inr e"
    using nat_to_string_digits [of "nat e"] digits_value_fmt [of 10 "nat e"] assms(2,3) fmt_radix_nonempty [of 10 "nat e"]
    unfolding parse_expiry_def trim Let_def by auto
  moreover have "df_content x = as_bytes (nat_to_string (nat e) @ [newline])" "df_uid x = uid"
    using assms(1) fmt by (simp_all only: written_def)
  ultimately show ?thesis
    using mode len unfolding record_ok_def by (simp only: from_bytes_as_bytes) (simp add: as_bytes_def)
qed

lemma tidy_sweep: "tidy owner (file_at w) \<Longrightarrow> tidy owner (sweep now w)"
  by (auto simp: tidy_def sweep_def)

lemma tidy_add: "tidy uid f \<Longrightarrow> is_record_name n \<Longrightarrow> record_ok uid x e \<Longrightarrow> tidy uid (f(n \<mapsto> x))"
  by (auto simp: tidy_def)

text \<open>One call of the store on disk is one step of the specification, and it leaves the directory tidy.\<close>

lemma file_refine_step:
  assumes d: "sd_dir (fr_directory store) = dir" "sd_owner_uid (fr_directory store) = uid" "\<not> fr_poisoned store"
    and w: "healthy w" "tidy uid (file_at w)" and c: "valid_call c"
  shows "\<exists>r w'. file_check_and_record sys store (Inr (rc_time c)) w (rc_key c) (rc_expires c) = (r, w') \<and>
    (healthy w' \<and> tidy uid (file_at w')) \<and>
    spec_check (fr_capacity store) (rc_time c) (recorded_keys (file_at w)) (rc_key c) (rc_expires c) =
      (r, recorded_keys (file_at w'))"
proof (cases "rc_expires c < rc_time c")
  case True
  then show ?thesis
    using d(3) w by (simp add: file_check_and_record_def spec_check_def bindM_def lift_def raise_def)
next
  case False
  let ?r = "decision (fr_capacity store) (rc_time c) w (name_for (rc_key c))"
  have key: "length (replay_key_bytes (rc_key c)) = 32" and e: "0 \<le> rc_expires c" "rc_expires c < 2 ^ 63"
    using c by (simp_all add: valid_call_def)
  obtain w' where run: "file_check_and_record sys store (Inr (rc_time c)) w (rc_key c) (rc_expires c) = (?r, w')"
    and decided: "decided (rc_time c) w (name_for (rc_key c)) (rc_expires c) ?r w'"
    using ok_file_check_and_record [OF d(1) w(1) _ key _ d(3), of "rc_time c" "rc_expires c"] w(2) d(2) False by auto
  have spec: "?r = fst (spec_check (fr_capacity store) (rc_time c) (recorded_keys (file_at w)) (rc_key c) (rc_expires c))"
    using False by (intro decision_spec) simp
  have "healthy w' \<and> tidy uid (file_at w') \<and>
      recorded_keys (file_at w') = snd (spec_check (fr_capacity store) (rc_time c) (recorded_keys (file_at w)) (rc_key c) (rc_expires c))"
  proof (cases "?r = Inr Fresh")
    case True
    then obtain x where x: "written x (rc_expires c)" "file_at w' = (sweep (rc_time c) w)(name_for (rc_key c) \<mapsto> x)" "healthy w'"
      using decided by (auto simp: decided_def)
    have "spec_check (fr_capacity store) (rc_time c) (recorded_keys (file_at w)) (rc_key c) (rc_expires c) =
        (Inr Fresh, (live_part (rc_time c) (recorded_keys (file_at w)))(rc_key c \<mapsto> rc_expires c))"
      using spec True by (auto simp: spec_check_def Let_def split: if_splits)
    then show ?thesis
      using x tidy_add [OF tidy_sweep [OF w(2)] name_for_record [OF key] written_ok [OF x(1) e]]
      by (simp add: written_recorded [OF x(1) key] recorded_sweep)
  next
    case other: False
    then have "file_at w' = sweep (rc_time c) w" "healthy w'" using decided by (simp_all add: decided_def)
    then show ?thesis
      using spec other False tidy_sweep [OF w(2)] by (auto simp: recorded_sweep spec_check_def Let_def split: if_splits)
  qed
  then show ?thesis using run spec by (metis prod.collapse)
qed

end

lemma file_refines:
  assumes "reliable_directory sys (sd_dir (fr_directory store)) file_at opened created healthy (sd_owner_uid (fr_directory store))"
    and "\<not> fr_poisoned store"
  shows "refines_replay_spec (\<lambda>t. file_check_and_record sys store (Inr t))
    (\<lambda>w. healthy w \<and> tidy (sd_owner_uid (fr_directory store)) (file_at w)) (\<lambda>w. recorded_keys (file_at w)) (fr_capacity store)"
  by unfold_locales (use reliable_directory.file_refine_step [OF assms(1) refl refl assms(2)] in blast)

interpretation disk_spec: refines_replay_spec
  "\<lambda>t. file_check_and_record disk_ops \<lparr>fr_directory = d, fr_capacity = capacity, fr_instance_lock = l, fr_poisoned = False\<rparr> (Inr t)"
  "\<lambda>w. disk_healthy (sd_owner_uid d) w \<and> tidy (sd_owner_uid d) (disk_file_at w)" "\<lambda>w. recorded_keys (disk_file_at w)" capacity
  for d :: "unit SecureDir" and capacity :: nat and l :: open_file
  using file_refines [of disk_ops "\<lparr>fr_directory = d, fr_capacity = capacity, fr_instance_lock = l, fr_poisoned = False\<rparr>"
      disk_file_at disk_opened disk_created] working_disk.reliable_directory_axioms
  by simp

section \<open>Properties\<close>

text \<open>C8. Both replay stores implement one specification: over any sequence of calls, in whatever order
  their clock readings are, the store on a working disk and the store in memory give exactly the
  answers of the specification, when they start with the same records and capacity.\<close>

theorem replay_stores_refine_spec:
  assumes disk: "reliable_directory sys (sd_dir (fr_directory store)) file_at opened created healthy
      (sd_owner_uid (fr_directory store))" "\<not> fr_poisoned store"
      "healthy w" "tidy (sd_owner_uid (fr_directory store)) (file_at w)"
    and mem: "wf_replay_store st" "\<not> rs_poisoned st" "rs_capacity st = fr_capacity store"
      "hm_get (rs_entries st) = recorded_keys (file_at w)"
    and calls: "list_all valid_call calls"
  shows "fst (run_ops (\<lambda>w c. file_check_and_record sys store (Inr (rc_time c)) w (rc_key c) (rc_expires c)) w calls) =
      fst (run_ops (\<lambda>m c. spec_check (fr_capacity store) (rc_time c) m (rc_key c) (rc_expires c)) (recorded_keys (file_at w)) calls) \<and>
    fst (run_ops (\<lambda>st c. replay_check_and_record (Inr (rc_time c)) st (rc_key c) (rc_expires c)) st calls) =
      fst (run_ops (\<lambda>m c. spec_check (fr_capacity store) (rc_time c) m (rc_key c) (rc_expires c)) (recorded_keys (file_at w)) calls)"
  using refines_replay_spec.refine_run [OF file_refines [OF disk(1,2)] conjI [OF disk(3,4)] calls]
    memory_spec.refine_run [OF conjI [OF mem(1) conjI [OF mem(2,3)]] calls] mem(4)
  by simp

theorem replay_stores_refine_spec_witness:
  "fst (run_ops (\<lambda>w c. file_check_and_record disk_ops sample_file_store (Inr (rc_time c)) w (rc_key c) (rc_expires c)) started_disk
     [\<lparr>rc_time = 10, rc_key = ReplayKey (replicate 32 1), rc_expires = 20\<rparr>,
      \<lparr>rc_time = 20, rc_key = ReplayKey (replicate 32 1), rc_expires = 30\<rparr>,
      \<lparr>rc_time = 21, rc_key = ReplayKey (replicate 32 1), rc_expires = 30\<rparr>]) = [Inr Fresh, Inr Replay, Inr Fresh]"
proof -
  let ?calls = "[\<lparr>rc_time = 10, rc_key = ReplayKey (replicate 32 1), rc_expires = 20\<rparr>,
      \<lparr>rc_time = 20, rc_key = ReplayKey (replicate 32 1), rc_expires = 30\<rparr>,
      \<lparr>rc_time = 21, rc_key = ReplayKey (replicate 32 1), rc_expires = 30\<rparr>]"
  let ?st = "\<lparr>rs_capacity = 2, rs_entries = [], rs_poisoned = False\<rparr>"
  have dir: "reliable_directory disk_ops (sd_dir (fr_directory sample_file_store)) disk_file_at disk_opened disk_created
      (disk_healthy 1000) (sd_owner_uid (fr_directory sample_file_store))"
    using working_disk.reliable_directory_axioms by (simp add: sample_file_store_def sample_dir_def)
  have "name_for k \<noteq> INSTANCE_LOCK_NAME" for k
    using special_not_record(2) name_for_hex [of k] dot_not_hex by (auto simp: INSTANCE_LOCK_NAME_def)
  then have empty: "hm_get (rs_entries ?st) = recorded_keys (disk_file_at started_disk)"
    by (auto simp: fun_eq_iff recorded_keys_def disk_file_at_def started_disk_def empty_disk_def hm_get_def)
  have "fst (run_ops (\<lambda>st c. replay_check_and_record (Inr (rc_time c)) st (rc_key c) (rc_expires c)) ?st ?calls) =
      [Inr Fresh, Inr Replay, Inr Fresh]"
    by code_simp
  then show ?thesis
    using replay_stores_refine_spec [OF dir _ started_healthy _ _ _ _ empty, of ?calls] started_tidy
    by (simp add: sample_file_store_def sample_dir_def wf_replay_store_def hm_len_def valid_call_def)
qed

end
