(* ===== verification/Replay_Mutex.thy ===== *)
theory Replay_Mutex
  imports Concurrent_Replay Replay_Spec
begin

text \<open>
  \<open>InMemoryReplayStore::check_and_record\<close> one statement at a time. A thread takes the mutex when nobody
  holds it, and from then on works on the shared map in separate steps (\<open>retain\<close>, \<open>contains_key\<close>, \<open>len\<close>,
  \<open>insert\<close>, and the drop of the guard), between which every other thread may run. No step asks who holds
  the mutex but the one that takes it: that the threads do not disturb each other is proved. The steps
  simulate the threads of \<open>Concurrent_Replay\<close>, whose locked section is one step, and the calls
  are linearizable with respect to the specification \<open>spec_check\<close> of replay stores.
\<close>

section \<open>Threads and the mutex\<close>

text \<open>Where a call is: before its clock reading, before the lock, and under the lock before \<open>retain\<close>, before
  \<open>contains_key\<close>, before the test of \<open>len\<close>, and before the guard is dropped; or done.\<close>

datatype mutex_phase =
    Entered
  | Clocked i64
  | Holding i64
  | Retained i64
  | Missing i64
  | Releasing i64 "DpopPortError + ReplayStatus"
  | Done "DpopPortError + i64" "DpopPortError + ReplayStatus"

record mutex_state =
  mx_clock :: i64
  mx_store :: InMemoryReplayStore
  mx_owner :: "nat option"
  mx_phase :: "nat \<Rightarrow> mutex_phase"

definition mutex_start :: "i64 \<Rightarrow> InMemoryReplayStore \<Rightarrow> mutex_state" where
  "mutex_start t st = \<lparr>mx_clock = t, mx_store = st, mx_owner = None, mx_phase = (\<lambda>_. Entered)\<rparr>"

definition at_phase :: "mutex_state \<Rightarrow> nat \<Rightarrow> mutex_phase \<Rightarrow> mutex_state" where
  "at_phase s i p = s\<lparr>mx_phase := (mx_phase s)(i := p)\<rparr>"

text \<open>\<open>calls i\<close> are the key and the expiry of call \<open>i\<close>. A poisoned mutex gives an error once it is free.\<close>

inductive mutex_step :: "(nat \<Rightarrow> ReplayKey \<times> i64) \<Rightarrow> mutex_state \<Rightarrow> mutex_state \<Rightarrow> bool"
  for calls where
  mutex_tick: "mx_clock s \<le> t \<Longrightarrow> mutex_step calls s (s\<lparr>mx_clock := t\<rparr>)"
| mutex_no_clock: "mx_phase s i = Entered \<Longrightarrow>
    mutex_step calls s (at_phase s i (Done (Inl DpopPortError) (Inl DpopPortError)))"
| mutex_late: "mx_phase s i = Entered \<Longrightarrow> snd (calls i) < mx_clock s \<Longrightarrow>
    mutex_step calls s (at_phase s i (Done (Inr (mx_clock s)) (Inl DpopPortError)))"
| mutex_read: "mx_phase s i = Entered \<Longrightarrow> mx_clock s \<le> snd (calls i) \<Longrightarrow>
    mutex_step calls s (at_phase s i (Clocked (mx_clock s)))"
| mutex_poisoned: "mx_phase s i = Clocked now \<Longrightarrow> mx_owner s = None \<Longrightarrow> rs_poisoned (mx_store s) \<Longrightarrow>
    mutex_step calls s (at_phase s i (Done (Inr now) (Inl DpopPortError)))"
| mutex_lock: "mx_phase s i = Clocked now \<Longrightarrow> mx_owner s = None \<Longrightarrow> \<not> rs_poisoned (mx_store s) \<Longrightarrow>
    mutex_step calls s ((at_phase s i (Holding now))\<lparr>mx_owner := Some i\<rparr>)"
| mutex_retain: "mx_phase s i = Holding now \<Longrightarrow>
    mutex_step calls s ((at_phase s i (Retained now))
      \<lparr>mx_store := (mx_store s)\<lparr>rs_entries := hm_retain (\<lambda>expiry. expiry \<ge> now) (rs_entries (mx_store s))\<rparr>\<rparr>)"
| mutex_replay: "mx_phase s i = Retained now \<Longrightarrow> hm_contains (rs_entries (mx_store s)) (fst (calls i)) \<Longrightarrow>
    mutex_step calls s (at_phase s i (Releasing now (Inr Replay)))"
| mutex_missing: "mx_phase s i = Retained now \<Longrightarrow> \<not> hm_contains (rs_entries (mx_store s)) (fst (calls i)) \<Longrightarrow>
    mutex_step calls s (at_phase s i (Missing now))"
| mutex_full: "mx_phase s i = Missing now \<Longrightarrow> hm_len (rs_entries (mx_store s)) \<ge> rs_capacity (mx_store s) \<Longrightarrow>
    mutex_step calls s (at_phase s i (Releasing now (Inl DpopPortError)))"
| mutex_insert: "mx_phase s i = Missing now \<Longrightarrow> hm_len (rs_entries (mx_store s)) < rs_capacity (mx_store s) \<Longrightarrow>
    mutex_step calls s ((at_phase s i (Releasing now (Inr Fresh)))
      \<lparr>mx_store := (mx_store s)\<lparr>rs_entries := hm_insert (fst (calls i)) (snd (calls i)) (rs_entries (mx_store s))\<rparr>\<rparr>)"
| mutex_unlock: "mx_phase s i = Releasing now r \<Longrightarrow>
    mutex_step calls s ((at_phase s i (Done (Inr now) r))\<lparr>mx_owner := None\<rparr>)"

lemma at_phase_simps [simp]:
  "mx_clock (at_phase s i p) = mx_clock s" "mx_store (at_phase s i p) = mx_store s"
  "mx_owner (at_phase s i p) = mx_owner s" "mx_phase (at_phase s i p) = (mx_phase s)(i := p)"
  by (simp_all add: at_phase_def)

section \<open>The locked section as one step\<close>

text \<open>What the phases of one statement at a time are for threads whose locked section is one step.\<close>

fun coarse :: "mutex_phase \<Rightarrow> call_phase" where
  "coarse Entered = Called"
| "coarse (Clocked now) = Timed now"
| "coarse (Holding now) = Timed now"
| "coarse (Retained now) = Timed now"
| "coarse (Missing now) = Timed now"
| "coarse (Releasing now r) = Timed now"
| "coarse (Done clock r) = Returned clock r"

fun in_section :: "mutex_phase \<Rightarrow> bool" where
  "in_section (Holding now) = True"
| "in_section (Retained now) = True"
| "in_section (Missing now) = True"
| "in_section (Releasing now r) = True"
| "in_section _ = False"

text \<open>What the holder of the mutex has made of the store that it found.\<close>

fun section_work :: "ReplayKey \<times> i64 \<Rightarrow> InMemoryReplayStore \<Rightarrow> mutex_phase \<Rightarrow> InMemoryReplayStore \<Rightarrow> bool" where
  "section_work call found (Holding now) st \<longleftrightarrow> now \<le> snd call \<and> \<not> rs_poisoned found \<and> st = found"
| "section_work call found (Retained now) st \<longleftrightarrow> now \<le> snd call \<and> \<not> rs_poisoned found \<and>
     st = found\<lparr>rs_entries := hm_retain (\<lambda>expiry. expiry \<ge> now) (rs_entries found)\<rparr>"
| "section_work call found (Missing now) st \<longleftrightarrow> now \<le> snd call \<and> \<not> rs_poisoned found \<and>
     st = found\<lparr>rs_entries := hm_retain (\<lambda>expiry. expiry \<ge> now) (rs_entries found)\<rparr> \<and>
     \<not> hm_contains (rs_entries st) (fst call)"
| "section_work call found (Releasing now r) st \<longleftrightarrow>
     replay_check_and_record (Inr now) found (fst call) (snd call) = (r, st)"
| "section_work call found _ st \<longleftrightarrow> False"

definition simulates :: "(nat \<Rightarrow> ReplayKey \<times> i64) \<Rightarrow> mutex_state \<Rightarrow> InMemoryReplayStore shared \<Rightarrow> bool" where
  "simulates calls s a \<longleftrightarrow> sh_clock a = mx_clock s \<and> sh_phase a = coarse \<circ> mx_phase s \<and>
     (\<forall>i. in_section (mx_phase s i) \<longleftrightarrow> mx_owner s = Some i) \<and>
     (\<forall>i now. mx_phase s i = Clocked now \<longrightarrow> now \<le> snd (calls i)) \<and>
     (case mx_owner s of
        None \<Rightarrow> mx_store s = sh_store a
      | Some i \<Rightarrow> section_work (calls i) (sh_store a) (mx_phase s i) (mx_store s))"

lemma simulates_start: "simulates calls (mutex_start t st) (shared_start t st)"
  by (auto simp: simulates_def mutex_start_def shared_start_def)

lemma coarse_update [simp]: "coarse \<circ> f(i := p) = (coarse \<circ> f)(i := coarse p)"
  by (simp add: fun_upd_comp)

text \<open>The holder goes on: no other thread is in its section.\<close>

lemma simulates_work:
  assumes "simulates calls s a" "in_section (mx_phase s i)" "in_section p" "coarse p = coarse (mx_phase s i)"
    and "section_work (calls i) (sh_store a) (mx_phase s i) (mx_store s) \<Longrightarrow> section_work (calls i) (sh_store a) p st"
  shows "simulates calls ((at_phase s i p)\<lparr>mx_store := st\<rparr>) a"
proof -
  have "mx_owner s = Some i" using assms(1,2) by (auto simp: simulates_def)
  moreover have "(coarse \<circ> mx_phase s)(i := coarse p) = coarse \<circ> mx_phase s"
    using assms(4) by (auto simp: fun_eq_iff)
  ultimately show ?thesis using assms by (auto simp: simulates_def)
qed

lemma simulates_look:
  assumes "simulates calls s a" "in_section (mx_phase s i)" "in_section p" "coarse p = coarse (mx_phase s i)"
    and "section_work (calls i) (sh_store a) (mx_phase s i) (mx_store s) \<Longrightarrow>
      section_work (calls i) (sh_store a) p (mx_store s)"
  shows "simulates calls (at_phase s i p) a"
  using simulates_work [OF assms] by (simp add: at_phase_def)

lemma simulates_stay:
  assumes "simulates calls s a" "\<not> in_section (mx_phase s i)" "\<not> in_section p"
    and "\<And>now. p = Clocked now \<Longrightarrow> now \<le> snd (calls i)"
  shows "simulates calls (at_phase s i p) (moved a i (coarse p))"
  using assms by (auto simp: simulates_def split: option.splits)

lemma mutex_simulation_step:
  assumes sim: "simulates calls s a" and step: "mutex_step calls s s'"
  shows "\<exists>a'. (memory_thread calls)\<^sup>*\<^sup>* a a' \<and> simulates calls s' a'"
proof -
  have phase: "sh_phase a i = coarse (mx_phase s i)" and clock: "sh_clock a = mx_clock s" for i
    using sim by (simp_all add: simulates_def)
  have one: "\<exists>a'. (memory_thread calls)\<^sup>*\<^sup>* a a' \<and> simulates calls s' a'"
    if "memory_thread calls a a'" "simulates calls s' a'" for a' using that by blast
  have none: "\<exists>a'. (memory_thread calls)\<^sup>*\<^sup>* a a' \<and> simulates calls s' a'" if "simulates calls s' a" using that by blast
  from step show ?thesis
  proof (cases rule: mutex_step.cases)
    case (mutex_tick t)
    show ?thesis
      by (rule one [OF memory_tick [of a t]]) (use mutex_tick sim clock in \<open>auto simp: simulates_def split: option.splits\<close>)
  next
    case (mutex_no_clock i)
    show ?thesis
      by (rule one [OF memory_no_clock [of a i]])
        (use mutex_no_clock phase simulates_stay [OF sim, of i "Done (Inl DpopPortError) (Inl DpopPortError)"] in auto)
  next
    case (mutex_late i)
    show ?thesis
      by (rule one [OF memory_late [of a i]])
        (use mutex_late phase clock simulates_stay [OF sim, of i "Done (Inr (mx_clock s)) (Inl DpopPortError)"] in auto)
  next
    case (mutex_read i)
    show ?thesis
      by (rule one [OF memory_read [of a i]])
        (use mutex_read phase clock simulates_stay [OF sim, of i "Clocked (mx_clock s)"] in auto)
  next
    case (mutex_poisoned i now)
    have "replay_check_and_record (Inr now) (sh_store a) (fst (calls i)) (snd (calls i)) = (Inl DpopPortError, sh_store a)"
      using sim mutex_poisoned by (auto simp: simulates_def replay_check_and_record_def)
    then show ?thesis
      by (intro one [OF memory_locked [of a i now]])
        (use mutex_poisoned phase simulates_stay [OF sim, of i "Done (Inr now) (Inl DpopPortError)"] in auto)
  next
    case (mutex_lock i now)
    then show ?thesis
      using sim by (intro none) (auto simp: simulates_def fun_eq_iff)
  next
    case (mutex_retain i now)
    then show ?thesis
      by (intro none) (auto intro!: simulates_work [OF sim])
  next
    case (mutex_replay i now)
    then show ?thesis
      by (intro none) (auto intro!: simulates_look [OF sim] simp: replay_check_and_record_def Let_def)
  next
    case (mutex_missing i now)
    then show ?thesis
      by (intro none) (auto intro!: simulates_look [OF sim])
  next
    case (mutex_full i now)
    then show ?thesis
      by (intro none) (auto intro!: simulates_look [OF sim] simp: replay_check_and_record_def Let_def)
  next
    case (mutex_insert i now)
    then show ?thesis
      by (intro none) (auto intro!: simulates_work [OF sim] simp: replay_check_and_record_def Let_def)
  next
    case (mutex_unlock i now r)
    have owner: "mx_owner s = Some i" using sim mutex_unlock(2) by (auto simp: simulates_def)
    then have "replay_check_and_record (Inr now) (sh_store a) (fst (calls i)) (snd (calls i)) = (r, mx_store s)"
      using sim mutex_unlock(2) by (auto simp: simulates_def)
    then show ?thesis
      using sim owner mutex_unlock phase by (intro one [OF memory_locked [of a i now]]) (auto simp: simulates_def)
  qed
qed

lemma mutex_simulation:
  assumes "(mutex_step calls)\<^sup>*\<^sup>* s s'" "simulates calls s a"
  shows "\<exists>a'. (memory_thread calls)\<^sup>*\<^sup>* a a' \<and> simulates calls s' a'"
  using assms
proof (induction rule: rtranclp_induct)
  case (step s' s'')
  then show ?case using mutex_simulation_step [OF _ step(2)] by (meson rtranclp_trans)
qed blast

section \<open>Against the specification\<close>

text \<open>Call \<open>i\<close> of the specification, at the clock reading that the call took.\<close>

definition spec_call :: "nat \<Rightarrow> (nat \<Rightarrow> ReplayKey \<times> i64) \<Rightarrow> (nat \<Rightarrow> mutex_phase) \<Rightarrow> (ReplayKey \<rightharpoonup> i64) \<Rightarrow> nat
   \<Rightarrow> (DpopPortError + ReplayStatus) \<times> (ReplayKey \<rightharpoonup> i64)" where
  "spec_call capacity calls phase m i =
     (case phase i of
        Done (Inr now) _ \<Rightarrow> spec_check capacity now m (fst (calls i)) (snd (calls i))
      | _ \<Rightarrow> (Inl DpopPortError, m))"

fun answered :: "mutex_phase \<Rightarrow> (DpopPortError + ReplayStatus) option" where
  "answered (Done clock r) = Some r"
| "answered _ = None"

text \<open>An order of the calls that are done which explains their answers, and the map when no call is at work.\<close>

definition linearizes :: "(nat \<Rightarrow> ReplayKey \<times> i64) \<Rightarrow> InMemoryReplayStore \<Rightarrow> mutex_state \<Rightarrow> nat list \<Rightarrow> bool" where
  "linearizes calls st s order \<longleftrightarrow> distinct order \<and> set order = {i. answered (mx_phase s i) \<noteq> None} \<and>
     (case run_ops (spec_call (rs_capacity st) calls (mx_phase s)) (hm_get (rs_entries st)) order of
        (answers, m) \<Rightarrow> map (\<lambda>i. answered (mx_phase s i)) order = map Some answers \<and>
          (mx_owner s = None \<longrightarrow> hm_get (rs_entries (mx_store s)) = m))"

lemma spec_call_sequential:
  assumes "\<And>i. i \<in> set order \<Longrightarrow> p i = coarse (q i) \<and> answered (q i) \<noteq> None"
    and "wf_replay_store st" "\<not> rs_poisoned st" "rs_capacity st = capacity"
    and "run_ops (sequential_call calls p) st order = (rs, st')"
  shows "run_ops (spec_call capacity calls q) (hm_get (rs_entries st)) order = (rs, hm_get (rs_entries st'))"
  using assms
proof (induction order arbitrary: st rs)
  case (Cons i order)
  obtain clock r0 where q: "q i = Done clock r0" using Cons.prems(1) [of i] by (cases "q i") auto
  obtain r st1 where r: "sequential_call calls p st i = (r, st1)" by fastforce
  obtain rs1 where rest: "run_ops (sequential_call calls p) st1 order = (rs1, st')" "rs = r # rs1"
    using Cons.prems(5) r by (auto simp del: sequential_call.simps split: prod.splits)
  have check: "replay_check_and_record clock st (fst (calls i)) (snd (calls i)) = (r, st1)"
    using r q Cons.prems(1) [of i] by simp
  have "wf_replay_store st1 \<and> \<not> rs_poisoned st1 \<and> rs_capacity st1 = capacity \<and>
      spec_call capacity calls q (hm_get (rs_entries st)) i = (r, hm_get (rs_entries st1))"
  proof (cases clock)
    case (Inl e)
    then show ?thesis using check q Cons.prems(2-4) by (cases e) (auto simp: spec_call_def replay_check_and_record_def)
  next
    case (Inr now)
    then show ?thesis
      using memory_refine_step [OF Cons.prems(2,3), of now] check q Cons.prems(4) by (simp add: spec_call_def)
  qed
  then show ?case using Cons.IH [of st1 rs1] Cons.prems(1) rest by (simp del: sequential_call.simps)
qed simp

lemma simulates_linearizes:
  assumes sim: "simulates calls s a" and explains: "explains calls st a order"
    and st: "wf_replay_store st" "\<not> rs_poisoned st"
  shows "linearizes calls st s order"
proof -
  have phase: "sh_phase a i = coarse (mx_phase s i)" for i using sim by (simp add: simulates_def)
  have finished: "returned (sh_phase a i) \<longleftrightarrow> answered (mx_phase s i) \<noteq> None" for i
    by (cases "mx_phase s i") (simp_all add: phase returned_def)
  have order: "set order = {i. answered (mx_phase s i) \<noteq> None}" "distinct order"
    "run_ops (sequential_call calls (sh_phase a)) st order = (map (\<lambda>i. answer_of (sh_phase a i)) order, sh_store a)"
    using explains by (simp_all add: explains_def finished)
  have run: "run_ops (spec_call (rs_capacity st) calls (mx_phase s)) (hm_get (rs_entries st)) order =
      (map (\<lambda>i. answer_of (sh_phase a i)) order, hm_get (rs_entries (sh_store a)))"
    by (rule spec_call_sequential [OF _ st refl order(3)]) (use order(1) phase in auto)
  have "answered (mx_phase s i) = Some (answer_of (sh_phase a i))" if "i \<in> set order" for i
    using that order(1) phase [of i] by (cases "mx_phase s i") (auto simp: answer_of_def)
  moreover have "mx_owner s = None \<longrightarrow> mx_store s = sh_store a" using sim by (auto simp: simulates_def)
  ultimately show ?thesis using order run by (auto simp: linearizes_def)
qed

text \<open>A reading taken between two states lies between their clocks.\<close>

fun reading :: "mutex_phase \<Rightarrow> i64 option" where
  "reading (Clocked now) = Some now"
| "reading (Holding now) = Some now"
| "reading (Retained now) = Some now"
| "reading (Missing now) = Some now"
| "reading (Releasing now r) = Some now"
| "reading (Done (Inr now) r) = Some now"
| "reading _ = None"

lemma reading_within:
  assumes "(mutex_step calls)\<^sup>*\<^sup>* s s'"
  shows "mx_clock s \<le> mx_clock s' \<and>
    (\<forall>i now. mx_phase s i = Entered \<and> reading (mx_phase s' i) = Some now \<longrightarrow> mx_clock s \<le> now \<and> now \<le> mx_clock s')"
  using assms
proof (induction rule: rtranclp_induct)
  case (step s' s'')
  from step(2) step.IH show ?case by (cases rule: mutex_step.cases) (auto, force+)
qed auto

lemma distinct_singleton: "distinct xs \<Longrightarrow> set xs = {x} \<Longrightarrow> xs = [x]"
  by (cases xs; cases "tl xs") auto

text \<open>Two calls for one key at second 100: both have read the clock when the first takes the mutex.\<close>

definition two_calls :: "mutex_phase \<Rightarrow> mutex_phase \<Rightarrow> nat option \<Rightarrow> (ReplayKey \<times> i64) list \<Rightarrow> mutex_state" where
  "two_calls p q owner entries =
     \<lparr>mx_clock = 100, mx_store = sample_store\<lparr>rs_entries := entries\<rparr>, mx_owner = owner,
      mx_phase = (\<lambda>_. Entered)(0 := p, 1 := q)\<rparr>"

abbreviation one_entry :: "(ReplayKey \<times> i64) list" where
  "one_entry \<equiv> [(ReplayKey (replicate 32 1), 150)]"

lemma two_calls_start: "two_calls Entered Entered None [] = mutex_start 100 sample_store"
  by (simp add: two_calls_def mutex_start_def sample_store_def fun_eq_iff)

lemma two_calls_simps [simp]:
  "mx_phase (two_calls p q owner entries) 0 = p" "mx_phase (two_calls p q owner entries) (Suc 0) = q"
  "mx_clock (two_calls p q owner entries) = 100" "mx_owner (two_calls p q owner entries) = owner"
  "mx_store (two_calls p q owner entries) = sample_store\<lparr>rs_entries := entries\<rparr>"
  "at_phase (two_calls p q owner entries) 0 p' = two_calls p' q owner entries"
  "at_phase (two_calls p q owner entries) (Suc 0) q' = two_calls p q' owner entries"
  "(two_calls p q owner entries)\<lparr>mx_owner := owner'\<rparr> = two_calls p q owner' entries"
  "(two_calls p q owner entries)\<lparr>mx_store := sample_store\<lparr>rs_entries := entries'\<rparr>\<rparr> = two_calls p q owner entries'"
  by (auto simp: two_calls_def at_phase_def fun_eq_iff)

lemma two_calls_first:
  "(mutex_step race_calls)\<^sup>*\<^sup>* (mutex_start 100 sample_store) (two_calls (Done (Inr 100) (Inr Fresh)) (Clocked 100) None one_entry)"
proof -
  let ?step = "mutex_step race_calls"
  have "?step (mutex_start 100 sample_store) (two_calls (Clocked 100) Entered None [])"
    using mutex_read [of "two_calls Entered Entered None []" 0 race_calls]
    by (simp add: two_calls_start [symmetric] race_calls_def)
  moreover have "?step \<dots> (two_calls (Clocked 100) (Clocked 100) None [])"
    using mutex_read [of "two_calls (Clocked 100) Entered None []" 1 race_calls] by (simp add: race_calls_def)
  moreover have "?step \<dots> (two_calls (Holding 100) (Clocked 100) (Some 0) [])"
    using mutex_lock [of "two_calls (Clocked 100) (Clocked 100) None []" 0 100 race_calls] by (simp add: sample_store_def)
  moreover have "?step \<dots> (two_calls (Retained 100) (Clocked 100) (Some 0) [])"
    using mutex_retain [of "two_calls (Holding 100) (Clocked 100) (Some 0) []" 0 100 race_calls] by (simp add: hm_retain_def)
  moreover have "?step \<dots> (two_calls (Missing 100) (Clocked 100) (Some 0) [])"
    using mutex_missing [of "two_calls (Retained 100) (Clocked 100) (Some 0) []" 0 100 race_calls]
    by (simp add: hm_contains_def hm_get_def)
  moreover have "?step \<dots> (two_calls (Releasing 100 (Inr Fresh)) (Clocked 100) (Some 0) one_entry)"
    using mutex_insert [of "two_calls (Missing 100) (Clocked 100) (Some 0) []" 0 100 race_calls]
    by (simp add: race_calls_def hm_len_def hm_insert_def) (simp add: sample_store_def)
  moreover have "?step \<dots> (two_calls (Done (Inr 100) (Inr Fresh)) (Clocked 100) None one_entry)"
    using mutex_unlock [of "two_calls (Releasing 100 (Inr Fresh)) (Clocked 100) (Some 0) one_entry" 0 100 "Inr Fresh" race_calls]
    by simp
  ultimately show ?thesis by (meson r_into_rtranclp rtranclp.rtrancl_into_rtrancl)
qed

lemma two_calls_second:
  "(mutex_step race_calls)\<^sup>*\<^sup>* (two_calls (Done (Inr 100) (Inr Fresh)) (Clocked 100) None one_entry)
     (two_calls (Done (Inr 100) (Inr Fresh)) (Done (Inr 100) (Inr Replay)) None one_entry)"
proof -
  let ?step = "mutex_step race_calls" and ?d = "Done (Inr 100) (Inr Fresh)"
  have "?step (two_calls ?d (Clocked 100) None one_entry) (two_calls ?d (Holding 100) (Some 1) one_entry)"
    using mutex_lock [of "two_calls ?d (Clocked 100) None one_entry" 1 100 race_calls] by (simp add: sample_store_def)
  moreover have "?step \<dots> (two_calls ?d (Retained 100) (Some 1) one_entry)"
    using mutex_retain [of "two_calls ?d (Holding 100) (Some 1) one_entry" 1 100 race_calls] by (simp add: hm_retain_def)
  moreover have "?step \<dots> (two_calls ?d (Releasing 100 (Inr Replay)) (Some 1) one_entry)"
    using mutex_replay [of "two_calls ?d (Retained 100) (Some 1) one_entry" 1 100 race_calls]
    by (simp add: race_calls_def hm_contains_def hm_get_def)
  moreover have "?step \<dots> (two_calls ?d (Done (Inr 100) (Inr Replay)) None one_entry)"
    using mutex_unlock [of "two_calls ?d (Releasing 100 (Inr Replay)) (Some 1) one_entry" 1 100 "Inr Replay" race_calls] by simp
  ultimately show ?thesis by (meson r_into_rtranclp rtranclp.rtrancl_into_rtrancl)
qed

section \<open>Properties\<close>

text \<open>C12. Concurrent calls of the in-memory store are linearizable, one statement at a time, from any
  well-formed store that is not poisoned: in any two states \<open>s1\<close> and, later, \<open>s2\<close> that threads reach, the
  calls that have returned can be put into an order in which the specification, run on the same calls
  one after the other at the clock readings they took, gives the same answers, and the same recorded
  keys whenever the mutex is free. Calls that returned by \<open>s1\<close> come first, so that the order keeps
  real time, and a call that has not read the clock in \<open>s1\<close> and has in \<open>s2\<close> has a reading from between the two.\<close>

theorem concurrent_calls_linearizable:
  assumes "wf_replay_store st" "\<not> rs_poisoned st"
    and "(mutex_step calls)\<^sup>*\<^sup>* (mutex_start t st) s1" "(mutex_step calls)\<^sup>*\<^sup>* s1 s2"
  shows "\<exists>order rest. linearizes calls st s1 order \<and> linearizes calls st s2 (order @ rest) \<and>
    (\<forall>i now. mx_phase s1 i = Entered \<and> reading (mx_phase s2 i) = Some now \<longrightarrow> mx_clock s1 \<le> now \<and> now \<le> mx_clock s2)"
proof -
  obtain a1 where a1: "(memory_thread calls)\<^sup>*\<^sup>* (shared_start t st) a1" "simulates calls s1 a1"
    using mutex_simulation [OF assms(3) simulates_start] by blast
  obtain a2 where a2: "(memory_thread calls)\<^sup>*\<^sup>* a1 a2" "simulates calls s2 a2"
    using mutex_simulation [OF assms(4) a1(2)] by blast
  obtain order where order: "explains calls st a1 order"
    using memory_explained [OF a1(1) explains_start] by auto
  obtain rest where "explains calls st a2 (order @ rest)"
    using memory_explained [OF a2(1) order] by blast
  with order show ?thesis
    using simulates_linearizes assms(1,2) a1(2) a2(2) reading_within [OF assms(4)] by blast
qed

theorem concurrent_calls_linearizable_witness:
  "linearizes race_calls sample_store (two_calls (Done (Inr 100) (Inr Fresh)) (Done (Inr 100) (Inr Replay)) None one_entry) [0, 1]"
proof -
  let ?s1 = "two_calls (Done (Inr 100) (Inr Fresh)) (Clocked 100) None one_entry"
  let ?s2 = "two_calls (Done (Inr 100) (Inr Fresh)) (Done (Inr 100) (Inr Replay)) None one_entry"
  obtain order rest where o: "linearizes race_calls sample_store ?s1 order" "linearizes race_calls sample_store ?s2 (order @ rest)"
    using concurrent_calls_linearizable [OF _ _ two_calls_first two_calls_second]
    by (auto simp: sample_store_def wf_replay_store_def hm_len_def)
  have "{i. answered (mx_phase ?s1 i) \<noteq> None} = {0}" "{i. answered (mx_phase ?s2 i) \<noteq> None} = {0, 1}"
    by (auto simp: two_calls_def)
  then have d: "distinct (order @ rest)" and first: "set order = {0}" and both: "set (order @ rest) = {0, 1}"
    using o by (simp_all only: linearizes_def)
  have parts: "distinct order" "distinct rest" using d by simp_all
  have "set rest = set (order @ rest) - set order" using d by auto
  then have "set rest = {0, 1} - {0}" by (simp only: first both)
  then have second: "set rest = {1}" by simp
  have "order = [0]" "rest = [1]"
    by (rule distinct_singleton [OF parts(1) first], rule distinct_singleton [OF parts(2) second])
  with o(2) show ?thesis by simp
qed

end
