(* ===== verification/Verifier_App.thy ===== *)
theory Verifier_App
  imports OAuth_Binding Dpop_Adapter
begin

text \<open>
  The application service of \<open>keylix-verifier\<close> (\<open>lib.rs\<close>, first half): its request and result
  types with their JSON forms, the nonce policy, and \<open>VerifierApplication::verify\<close>.

  The service works on two stores, the replay store and the server nonce store; their
  operations are arguments and the service returns both new states with its result.
\<close>

section \<open>Data\<close>

definition VERIFIER_PROTOCOL_VERSION :: u16 where
  "VERIFIER_PROTOCOL_VERSION = 1"

definition MAX_VERIFIER_PAYLOAD_BYTES :: nat where
  "MAX_VERIFIER_PAYLOAD_BYTES = 32 * 1024"

datatype FailureClass =
    FC_UnsupportedVersion
  | FC_MalformedRequest
  | FC_InvalidProof
  | FC_MethodMismatch
  | FC_TargetMismatch
  | FC_StaleProof
  | FC_FutureProof
  | FC_NonceRequired
  | FC_NonceMismatch
  | FC_NonceStateUnavailable
  | FC_Replay
  | FC_ReplayStoreUnavailable
  | FC_TokenHashMismatch
  | FC_TokenBindingMissing
  | FC_TokenBindingMalformed
  | FC_ConfirmationKeyMismatch
  | FC_TokenIdentityMismatch
  | FC_ClockUnavailable
  | FC_InternalFailure

text \<open>The \<open>snake_case\<close> names of the wire format.\<close>

fun failure_class_name :: "FailureClass \<Rightarrow> str" where
  "failure_class_name FC_UnsupportedVersion = ''unsupported_version''"
| "failure_class_name FC_MalformedRequest = ''malformed_request''"
| "failure_class_name FC_InvalidProof = ''invalid_proof''"
| "failure_class_name FC_MethodMismatch = ''method_mismatch''"
| "failure_class_name FC_TargetMismatch = ''target_mismatch''"
| "failure_class_name FC_StaleProof = ''stale_proof''"
| "failure_class_name FC_FutureProof = ''future_proof''"
| "failure_class_name FC_NonceRequired = ''nonce_required''"
| "failure_class_name FC_NonceMismatch = ''nonce_mismatch''"
| "failure_class_name FC_NonceStateUnavailable = ''nonce_state_unavailable''"
| "failure_class_name FC_Replay = ''replay''"
| "failure_class_name FC_ReplayStoreUnavailable = ''replay_store_unavailable''"
| "failure_class_name FC_TokenHashMismatch = ''token_hash_mismatch''"
| "failure_class_name FC_TokenBindingMissing = ''token_binding_missing''"
| "failure_class_name FC_TokenBindingMalformed = ''token_binding_malformed''"
| "failure_class_name FC_ConfirmationKeyMismatch = ''confirmation_key_mismatch''"
| "failure_class_name FC_TokenIdentityMismatch = ''token_identity_mismatch''"
| "failure_class_name FC_ClockUnavailable = ''clock_unavailable''"
| "failure_class_name FC_InternalFailure = ''internal_failure''"

record VerifierRequest =
  vr_version :: u16
  vr_method :: str
  vr_target :: str
  vr_access_token :: str
  vr_dpop_proof :: str
  vr_confirmation_jkt :: "str option"

definition verifier_request_names :: "str list" where
  "verifier_request_names =
     [''version'', ''method'', ''target'', ''access_token'', ''dpop_proof'', ''confirmation_jkt'']"

text \<open>\<open>confirmation_jkt\<close> is an \<open>Option\<close> without \<open>default\<close>: it may be missing from an object, but not
  from an array.\<close>

definition verifier_request_deserialize :: "json \<Rightarrow> VerifierRequest option" where
  "verifier_request_deserialize j =
     (case de_struct True verifier_request_names j of
        Some (is_array, [ver, m, t, a, p, c]) \<Rightarrow>
          Option.bind (de_u16 ver) (\<lambda>ver.
          Option.bind (de_string m) (\<lambda>m.
          Option.bind (de_string t) (\<lambda>t.
          Option.bind (de_string a) (\<lambda>a.
          Option.bind (de_string p) (\<lambda>p.
          Option.bind (de_option_string (if is_array then None else Some None) c) (\<lambda>c.
            Some \<lparr>vr_version = ver, vr_method = m, vr_target = t, vr_access_token = a,
                  vr_dpop_proof = p, vr_confirmation_jkt = c\<rparr>))))))
      | _ \<Rightarrow> None)"

definition verifier_request_serialize :: "VerifierRequest \<Rightarrow> json" where
  "verifier_request_serialize r =
     JObj [(''version'', JInt (uint (vr_version r))), (''method'', JStr (vr_method r)),
           (''target'', JStr (vr_target r)), (''access_token'', JStr (vr_access_token r)),
           (''dpop_proof'', JStr (vr_dpop_proof r)),
           (''confirmation_jkt'', (case vr_confirmation_jkt r of None \<Rightarrow> JNull | Some c \<Rightarrow> JStr c))]"

record VerifiedBinding =
  vb_key_thumbprint :: str
  vb_proof_issued_at_unix :: i64
  vb_nonce_enforced :: bool
  vb_replay_checked :: bool

datatype VerifierResult =
    Verified (result_version: u16) (result_binding: VerifiedBinding)
  | Rejected (result_version: u16) (result_failure: FailureClass) (result_dpop_nonce: "str option")

definition verifier_result_serialize :: "VerifierResult \<Rightarrow> json" where
  "verifier_result_serialize r =
     (case r of
        Verified ver b \<Rightarrow>
          JObj [(''status'', JStr ''verified''), (''version'', JInt (uint ver)),
                (''binding'',
                 JObj [(''key_thumbprint'', JStr (vb_key_thumbprint b)),
                       (''proof_issued_at_unix'', JInt (vb_proof_issued_at_unix b)),
                       (''nonce_enforced'', JBool (vb_nonce_enforced b)),
                       (''replay_checked'', JBool (vb_replay_checked b))])]
      | Rejected ver f nonce \<Rightarrow>
          JObj ([(''status'', JStr ''rejected''), (''version'', JInt (uint ver)),
                 (''failure'', JStr (failure_class_name f))] @ optional_member ''dpop_nonce'' nonce))"

definition rejected :: "FailureClass \<Rightarrow> VerifierResult" where
  "rejected failure = Rejected VERIFIER_PROTOCOL_VERSION failure None"

definition rejected_with_nonce :: "FailureClass \<Rightarrow> str option \<Rightarrow> VerifierResult" where
  "rejected_with_nonce failure dpop_nonce = Rejected VERIFIER_PROTOCOL_VERSION failure dpop_nonce"

datatype NoncePolicy = Optional | Required NonceContext

section \<open>Failure classes\<close>

fun map_dpop_error :: "DpopError \<Rightarrow> FailureClass" where
  "map_dpop_error MissingProof = FC_InvalidProof"
| "map_dpop_error AmbiguousProof = FC_InvalidProof"
| "map_dpop_error MalformedProof = FC_InvalidProof"
| "map_dpop_error ProofTooLarge = FC_InvalidProof"
| "map_dpop_error UnsupportedAlgorithm = FC_InvalidProof"
| "map_dpop_error UnsupportedKey = FC_InvalidProof"
| "map_dpop_error InvalidSignature = FC_InvalidProof"
| "map_dpop_error MethodMismatch = FC_MethodMismatch"
| "map_dpop_error TargetMismatch = FC_TargetMismatch"
| "map_dpop_error InvalidRequestTarget = FC_TargetMismatch"
| "map_dpop_error ProofExpired = FC_StaleProof"
| "map_dpop_error ProofFromFuture = FC_FutureProof"
| "map_dpop_error AccessTokenHashMissing = FC_TokenHashMismatch"
| "map_dpop_error AccessTokenHashMismatch = FC_TokenHashMismatch"
| "map_dpop_error NonceRequired = FC_NonceRequired"
| "map_dpop_error NonceMismatch = FC_NonceMismatch"
| "map_dpop_error ReplayDetected = FC_Replay"
| "map_dpop_error ReplayStoreUnavailable = FC_ReplayStoreUnavailable"
| "map_dpop_error ClockUnavailable = FC_ClockUnavailable"
| "map_dpop_error InvalidMethod = FC_MalformedRequest"
| "map_dpop_error InvalidPolicy = FC_MalformedRequest"
| "map_dpop_error SignerFailure = FC_InternalFailure"
| "map_dpop_error ProofIdUnavailable = FC_InternalFailure"

fun map_oauth_error :: "OAuthDpopError \<Rightarrow> FailureClass" where
  "map_oauth_error TokenIdentityMismatch = FC_TokenIdentityMismatch"
| "map_oauth_error TokenBindingMissing = FC_TokenBindingMissing"
| "map_oauth_error TokenBindingMalformed = FC_TokenBindingMalformed"
| "map_oauth_error TokenBindingMismatch = FC_ConfirmationKeyMismatch"
| "map_oauth_error ProofKeyContinuityMismatch = FC_ConfirmationKeyMismatch"
| "map_oauth_error ProofNotAccessTokenBound = FC_TokenHashMismatch"
| "map_oauth_error (Dpop e) = map_dpop_error e"
| "map_oauth_error _ = FC_InternalFailure"

section \<open>Service\<close>

type_synonym 'n expected_op = "'n \<Rightarrow> NonceContext \<Rightarrow> DpopPortError + DpopNonce option"
type_synonym 'n issue_op = "'n \<Rightarrow> NonceContext \<Rightarrow> (DpopPortError + DpopNonce) \<times> 'n"

definition required_nonce ::
  "NoncePolicy \<Rightarrow> 'n expected_op \<Rightarrow> 'n issue_op \<Rightarrow> 'n \<Rightarrow> (FailureClass + DpopNonce option) \<times> 'n" where
  "required_nonce policy expected issue ns =
     (case policy of
        Optional \<Rightarrow> (Inr None, ns)
      | Required ctx \<Rightarrow>
          (case expected ns ctx of
             Inr (Some nonce) \<Rightarrow> (Inr (Some nonce), ns)
           | Inr None \<Rightarrow>
               (case issue ns ctx of
                  (r, ns') \<Rightarrow> (map_err (\<lambda>_. FC_NonceStateUnavailable) (map_ok Some r), ns'))
           | Inl _ \<Rightarrow> (Inl FC_NonceStateUnavailable, ns)))"

text \<open>The tail of \<open>verify\<close>, after the proof is verified: token validation assertion, composition
  and the result.\<close>

definition bind_verified :: "externs \<Rightarrow> VerifierRequest \<Rightarrow> VerifiedDpopProof \<Rightarrow> VerifierResult" where
  "bind_verified X request verified_proof =
     (case from_equivalent_host_validator X (as_bytes (vr_access_token request))
             (vr_confirmation_jkt request) of
        Inl e \<Rightarrow> rejected (map_oauth_error e)
      | Inr validated \<Rightarrow>
          (case compose_sender_binding X verified_proof (as_bytes (vr_access_token request)) validated of
             Inl e \<Rightarrow> rejected (map_oauth_error e)
           | Inr binding \<Rightarrow>
               Verified VERIFIER_PROTOCOL_VERSION
                 \<lparr>vb_key_thumbprint = to_base64url X (sb_key_thumbprint binding),
                  vb_proof_issued_at_unix = sb_proof_issued_at_unix binding,
                  vb_nonce_enforced = sb_nonce_enforced binding,
                  vb_replay_checked = sb_replay_checked binding\<rparr>))"

definition verifier_verify ::
  "externs \<Rightarrow> VerificationPolicy \<Rightarrow> NoncePolicy \<Rightarrow> DpopPortError + i64 \<Rightarrow> 'r replay_op
   \<Rightarrow> 'n expected_op \<Rightarrow> 'n issue_op \<Rightarrow> VerifierRequest \<Rightarrow> 'r \<times> 'n \<Rightarrow> VerifierResult \<times> 'r \<times> 'n" where
  "verifier_verify X policy nonce_policy clock check_and_record expected issue request st =
     (if vr_version request \<noteq> VERIFIER_PROTOCOL_VERSION then (rejected FC_UnsupportedVersion, st)
      else if vr_access_token request = [] \<or> vr_dpop_proof request = []
      then (rejected FC_MalformedRequest, st)
      else
      (case target_parse (vr_target request) of
         Inl e \<Rightarrow> (rejected (map_dpop_error e), st)
       | Inr target \<Rightarrow>
      (case required_nonce nonce_policy expected issue (snd st) of
         (Inl failure, ns) \<Rightarrow> (rejected failure, fst st, ns)
       | (Inr nonce, ns) \<Rightarrow>
      (case dpop_request_new (vr_method request) target of
         Inl e \<Rightarrow> (rejected (map_dpop_error e), fst st, ns)
       | Inr r \<Rightarrow>
      (let dpop_request = (case nonce of
             Some n \<Rightarrow> with_nonce n (with_access_token (as_bytes (vr_access_token request)) r)
           | None \<Rightarrow> with_access_token (as_bytes (vr_access_token request)) r)
       in case parse_dpop_header_values X [vr_dpop_proof request] of
         Inl e \<Rightarrow> (rejected (map_dpop_error e), fst st, ns)
       | Inr proof \<Rightarrow>
      (case dpop_verify X policy clock check_and_record proof dpop_request (fst st) of
         (Inl e, rs) \<Rightarrow>
           (let failure = map_dpop_error e;
                challenge = (if failure = FC_NonceRequired \<or> failure = FC_NonceMismatch
                             then map_option nonce_str nonce else None)
            in (rejected_with_nonce failure challenge, rs, ns))
       | (Inr verified_proof, rs) \<Rightarrow> (bind_verified X request verified_proof, rs, ns)))))))"

section \<open>Lemmas\<close>

text \<open>A request that a client serializes is read back as the same request.\<close>

lemma request_roundtrip:
  "verifier_request_deserialize (verifier_request_serialize r) = Some r"
proof -
  have "uint (vr_version r) \<le> 65535"
    using uint_bounded [of "vr_version r"] by simp
  then show ?thesis
    by (cases "vr_confirmation_jkt r")
      (simp_all add: verifier_request_deserialize_def verifier_request_serialize_def verifier_request_names_def de_u16_def)
qed

text \<open>The request handed to the verifier, with the nonce the policy asks for.\<close>

definition service_request :: "VerifierRequest \<Rightarrow> EffectiveRequestTarget \<Rightarrow> DpopNonce option \<Rightarrow> DpopRequest" where
  "service_request request target nonce =
     \<lparr>req_method = vr_method request, req_target = target,
      req_access_token = Some (as_bytes (vr_access_token request)), req_nonce = nonce\<rparr>"

lemma service_request_eq:
  "(case nonce of
      Some n \<Rightarrow> with_nonce n (with_access_token (as_bytes (vr_access_token request))
        \<lparr>req_method = vr_method request, req_target = target, req_access_token = None, req_nonce = None\<rparr>)
    | None \<Rightarrow> with_access_token (as_bytes (vr_access_token request))
        \<lparr>req_method = vr_method request, req_target = target, req_access_token = None, req_nonce = None\<rparr>) =
   service_request request target nonce"
  by (cases nonce) (simp_all add: with_nonce_def with_access_token_def service_request_def)

text \<open>Either the request is refused before the verifier runs, without a nonce and with the replay
  store untouched, or the answer is that of one verification.\<close>

lemma verifier_verify_cases:
  assumes "verifier_verify X policy np clock car expected issue request (rs, ns) = (res, rs', ns')"
  obtains (early) f where "res = rejected f" "rs' = rs"
  | (ran) target nonce p q where
      "vr_version request = VERIFIER_PROTOCOL_VERSION" "vr_access_token request \<noteq> []"
      "target_parse (vr_target request) = Inr target"
      "required_nonce np expected issue ns = (Inr nonce, ns')"
      "validate_method (vr_method request) = Inr ()"
      "parse_dpop_header_values X [vr_dpop_proof request] = Inr p"
      "dpop_verify X policy clock car p (service_request request target nonce) rs = (q, rs')"
      "res = (case q of
         Inl e \<Rightarrow> rejected_with_nonce (map_dpop_error e)
           (if map_dpop_error e = FC_NonceRequired \<or> map_dpop_error e = FC_NonceMismatch
            then map_option nonce_str nonce else None)
       | Inr v \<Rightarrow> bind_verified X request v)"
proof (cases "vr_version request \<noteq> VERIFIER_PROTOCOL_VERSION \<or> vr_access_token request = [] \<or> vr_dpop_proof request = []")
  case True
  then have "\<exists>f. res = rejected f \<and> rs' = rs"
    using assms by (auto simp: verifier_verify_def split: if_splits)
  then show ?thesis using early by blast
next
  case False
  show ?thesis
  proof (cases "target_parse (vr_target request)")
    case (Inl e)
    then show ?thesis
      using assms False by (intro early) (auto simp: verifier_verify_def)
  next
    case (Inr target)
    obtain n ns1 where n: "required_nonce np expected issue ns = (n, ns1)" by fastforce
    show ?thesis
    proof (cases "\<exists>nonce p. n = Inr nonce \<and> validate_method (vr_method request) = Inr () \<and>
        parse_dpop_header_values X [vr_dpop_proof request] = Inr p")
      case True
      then obtain nonce p where np: "n = Inr nonce" "validate_method (vr_method request) = Inr ()"
        "parse_dpop_header_values X [vr_dpop_proof request] = Inr p"
        by blast
      obtain q rs1 where q: "dpop_verify X policy clock car p (service_request request target nonce) rs = (q, rs1)"
        by fastforce
      show ?thesis
        using assms False Inr n np q
        by (intro ran [of target nonce p q])
          (auto simp: verifier_verify_def dpop_request_new_def service_request_eq Let_def split: sum.splits)
    next
      case no: False
      have "\<exists>f. res = rejected f \<and> rs' = rs"
        using assms False Inr n no by (cases "validate_method (vr_method request)")
          (auto simp: verifier_verify_def dpop_request_new_def Let_def split: sum.splits)
      then show ?thesis using early by blast
    qed
  qed
qed

lemma verifier_verifyI:
  assumes "vr_version request = VERIFIER_PROTOCOL_VERSION" "vr_access_token request \<noteq> []" "vr_dpop_proof request \<noteq> []"
    and "target_parse (vr_target request) = Inr target" "validate_method (vr_method request) = Inr ()"
    and "required_nonce np expected issue ns = (Inr nonce, ns')"
    and "parse_dpop_header_values X [vr_dpop_proof request] = Inr p"
    and "dpop_verify X policy clock car p (service_request request target nonce) rs = (Inr v, rs')"
  shows "verifier_verify X policy np clock car expected issue request (rs, ns) =
    (bind_verified X request v, rs', ns')"
  using assms by (simp add: verifier_verify_def dpop_request_new_def service_request_eq Let_def)

lemma bind_verified_iff:
  "bind_verified X request v = Verified ver b \<longleftrightarrow>
     (\<exists>h. host_validated_new X (as_bytes (vr_access_token request)) (vr_confirmation_jkt request)
            EquivalentHostValidator = Inr h \<and>
        vp_access_token_hash_verified v \<and> hv_confirmation h = Some (vp_key_thumbprint v) \<and>
        ver = VERIFIER_PROTOCOL_VERSION \<and>
        b = \<lparr>vb_key_thumbprint = to_base64url X (vp_key_thumbprint v),
             vb_proof_issued_at_unix = vp_issued_at_unix v,
             vb_nonce_enforced = vp_nonce_enforced v, vb_replay_checked = vp_replay_checked v\<rparr>)"
proof (cases "host_validated_new X (as_bytes (vr_access_token request)) (vr_confirmation_jkt request)
    EquivalentHostValidator")
  case (Inl e)
  then show ?thesis
    by (simp add: bind_verified_def from_equivalent_host_validator_def rejected_def)
next
  case (Inr h)
  then have "hv_fingerprint h = from_token_bytes X (as_bytes (vr_access_token request))"
    by (simp add: host_validated_new_Inr_iff)
  then show ?thesis
    using Inr by (cases "hv_confirmation h")
      (auto simp: bind_verified_def from_equivalent_host_validator_def rejected_def compose_sender_binding_def)
qed

lemma required_nonce_enforced:
  "required_nonce np expected issue ns = (Inr nonce, ns') \<Longrightarrow> nonce \<noteq> None \<longleftrightarrow> np \<noteq> Optional"
  by (auto simp: required_nonce_def result_simps split: NoncePolicy.splits sum.splits option.splits prod.splits)

text \<open>With the in-memory server store, the nonce asked for is the one asked for next time.\<close>

lemma required_nonce_stable:
  assumes "required_nonce np expected_nonce (issue_nonce gen) ns = (Inr nonce, ns')"
  shows "required_nonce np expected_nonce (issue_nonce gen') ns' = (Inr nonce, ns')"
  using assms
  by (auto simp: required_nonce_def expected_nonce_def issue_nonce_def hm_simps result_simps
      split: NoncePolicy.splits option.splits sum.splits if_splits)

text \<open>One call of the service: the readings of the two clocks, the nonce generator's output and
  the request.\<close>

record service_call =
  svc_clock :: "DpopPortError + i64"
  svc_time :: i64
  svc_generated :: "DpopPortError + DpopNonce"
  svc_request :: VerifierRequest

definition service_step ::
  "externs \<Rightarrow> VerificationPolicy \<Rightarrow> NoncePolicy \<Rightarrow> InMemoryReplayStore \<times> InMemoryNonceStore \<Rightarrow> service_call
   \<Rightarrow> VerifierResult \<times> InMemoryReplayStore \<times> InMemoryNonceStore" where
  "service_step X policy np st c =
     verifier_verify X policy np (svc_clock c) (replay_check_and_record (Inr (svc_time c))) expected_nonce
       (issue_nonce (svc_generated c)) (svc_request c) st"

fun is_verified :: "VerifierResult \<Rightarrow> bool" where
  "is_verified (Verified ver b) = True"
| "is_verified (Rejected ver f n) = False"

definition service_presented :: "externs \<Rightarrow> service_call \<Rightarrow> UnverifiedDpopProof option" where
  "service_presented X c =
     (case parse_dpop_header_values X [vr_dpop_proof (svc_request c)] of Inl _ \<Rightarrow> None | Inr p \<Rightarrow> Some p)"

lemma verifier_verify_store:
  assumes "verifier_verify X policy np clock car expected issue request (rs, ns) = (res, rs', ns')"
  shows "rs' = rs \<and> \<not> is_verified res \<or>
    (\<exists>p q target nonce. parse_dpop_header_values X [vr_dpop_proof request] = Inr p \<and>
       dpop_verify X policy clock car p (service_request request target nonce) rs = (q, rs') \<and>
       (is_verified res \<longrightarrow> is_ok q))"
  using assms
proof (cases rule: verifier_verify_cases)
  case (ran target nonce p q)
  then show ?thesis
    by (intro disjI2 exI [of _ p] exI [of _ q]) (auto simp: rejected_with_nonce_def is_ok_iff split: sum.splits)
qed (simp add: rejected_def)

interpretation service: dpop_adapter memory_check wf_replay_store memory_recorded X policy
  "service_step X policy np" fst svc_time "service_presented X" is_verified for X policy np
proof (unfold_locales, goal_cases)
  case (1 t op r t')
  obtain rs ns rs' ns' where t: "t = (rs, ns)" "t' = (rs', ns')"
    by fastforce
  from verifier_verify_store [OF 1 [unfolded service_step_def t]] show ?case
    unfolding t
    by (elim disjE exE conjE; intro disjI1 disjI2)
      (auto simp: service_presented_def intro!: exI [of _ "\<lparr>vc_clock = svc_clock op, vc_time = svc_time op, vc_proof = _,
        vc_request = service_request (svc_request op) _ _\<rparr>"])
qed

section \<open>Properties\<close>

text \<open>C7. A \<open>Verified\<close> answer of the service means: the protocol version is 1; the proof passed every
  DPoP check for the method, target and token of the request and was fresh in the replay store;
  under a nonce policy it carries the server's nonce; and the thumbprint in the answer is both
  that of the proof's key and the confirmation the host attested for the token.\<close>

theorem verified_answer_sound:
  assumes "verifier_verify X policy np clock car expected issue request (rs, ns) = (Verified ver b, rs', ns')"
  shows "vr_version request = 1 \<and> ver = 1 \<and>
    vr_confirmation_jkt request = Some (vb_key_thumbprint b) \<and>
    vb_nonce_enforced b = (np \<noteq> Optional) \<and> vb_replay_checked b \<and>
    (\<exists>p now target nonce key.
       parse_dpop_header_values X [vr_dpop_proof request] = Inr p \<and> clock = Inr now \<and>
       target_parse (vr_target request) = Inr target \<and>
       required_nonce np expected issue ns = (Inr nonce, ns') \<and>
       proof_checks X policy now p
         \<lparr>req_method = vr_method request, req_target = target,
          req_access_token = Some (as_bytes (vr_access_token request)), req_nonce = nonce\<rparr> \<and>
       car rs key (clm_iat (up_claims p) + max_proof_age_seconds policy) = (Inr Fresh, rs') \<and>
       vb_key_thumbprint b = to_base64url X (thumbprint X (up_public_jwk p)) \<and>
       vb_proof_issued_at_unix b = clm_iat (up_claims p))"
  using assms
proof (cases rule: verifier_verify_cases)
  case (ran target nonce p q)
  then obtain v where q: "q = Inr v" and bv: "bind_verified X request v = Verified ver b"
    by (cases q) (auto simp: rejected_with_nonce_def)
  note ver = ran(7) [unfolded q dpop_verify_Inr_iff verify_before_replay_Inr_iff]
  have jkt: "vr_confirmation_jkt request = Some (vb_key_thumbprint b)"
    using bv by (auto simp: bind_verified_iff host_validated_new_Inr_iff parse_jkt_Inr_iff to_base64url_def
        split: option.splits)
  have "vb_nonce_enforced b = (np \<noteq> Optional)" "vb_replay_checked b"
    using bv ver required_nonce_enforced [OF ran(4)]
    by (auto simp: bind_verified_iff service_request_def)
  then show ?thesis
    using ran(1,3,4,6) jkt bv ver
    by (auto simp: bind_verified_iff service_request_def VERIFIER_PROTOCOL_VERSION_def)
qed (simp add: rejected_def)

definition sample_context :: NonceContext where
  "sample_context = \<lparr>nc_namespace = ResourceServer, nc_server_id = ''rs''\<rparr>"

definition sample_nonces :: InMemoryNonceStore where
  "sample_nonces = \<lparr>ns_capacity = 1, ns_entries = [(sample_context, DpopNonce ''n1'')], ns_poisoned = False\<rparr>"

definition sample_call :: "i64 \<Rightarrow> service_call" where
  "sample_call t =
     \<lparr>svc_clock = Inr t, svc_time = t, svc_generated = Inl DpopPortError,
      svc_request = \<lparr>vr_version = 1, vr_method = ''GET'', vr_target = ''http://a/b'',
        vr_access_token = from_bytes [1, 2, 3], vr_dpop_proof = proof_header_value sample_proof,
        vr_confirmation_jkt = Some (to_base64url sample_X (thumbprint sample_X sample_jwk))\<rparr>\<rparr>"

lemma docs_verified:
  fixes docs :: "(json \<times> bytes) list"
  defines "X \<equiv> sample_externs docs"
  assumes docs: "proof_docs docs"
    and car: "\<And>key. length (replay_key_bytes key) = 32 \<Longrightarrow> car rs key 1300 = (Inr Fresh, rs' key)"
  shows "\<exists>b key. verifier_verify X policy_default (Required sample_context) (Inr 1010) car expected_nonce issue
     (svc_request (sample_call 1010)) (rs, sample_nonces) = (Verified 1 b, rs' key, sample_nonces)"
proof -
  obtain p key v where p: "parse_dpop_header_values X [proof_header_value sample_proof] = Inr p"
    and v: "dpop_verify X policy_default (Inr 1010) car p sample_request rs = (Inr v, rs' key)"
    using docs_accepted [OF docs, of car rs rs', OF car] unfolding X_def by blast
  let ?req = "svc_request (sample_call 1010)"
  have t: "target_parse ''http://a/b'' = Inr (EffectiveRequestTarget ''http://a/b'')" "validate_method ''GET'' = Inr ()"
    by code_simp+
  have req: "service_request ?req (EffectiveRequestTarget ''http://a/b'') (Some (DpopNonce ''n1'')) = sample_request"
    by (simp add: service_request_def sample_call_def sample_request_def)
  have nonce: "required_nonce (Required sample_context) expected_nonce issue sample_nonces =
      (Inr (Some (DpopNonce ''n1'')), sample_nonces)"
    by (simp add: required_nonce_def expected_nonce_def sample_nonces_def hm_get_def)
  have ne: "vr_dpop_proof ?req \<noteq> []" "vr_access_token ?req \<noteq> []"
    by (simp_all add: sample_call_def sample_proof_def from_bytes_def)
  have vp: "vp_access_token_hash_verified v" "vp_key_thumbprint v = thumbprint X sample_jwk"
    using v docs_parse [OF docs] p
    by (auto simp: dpop_verify_Inr_iff verify_before_replay_Inr_iff sample_request_def X_def)
  have "to_base64url sample_X (thumbprint sample_X sample_jwk) = to_base64url X (thumbprint X sample_jwk)"
    by (simp add: X_def to_base64url_def thumbprint_def canonical_thumbprint_input_def sample_externs_sel)
  moreover have "parse_jkt X (to_base64url X (thumbprint X sample_jwk)) = Inr (thumbprint X sample_jwk)"
    unfolding X_def by (rule parse_jkt_thumbprint [OF sample_b64_law sample_sha256_law])
  ultimately have "\<exists>h. host_validated_new X (as_bytes (vr_access_token ?req)) (vr_confirmation_jkt ?req)
      EquivalentHostValidator = Inr h \<and> hv_confirmation h = Some (vp_key_thumbprint v)"
    unfolding vp by (simp add: host_validated_new_def sample_call_def)
  then have "\<exists>b. bind_verified X ?req v = Verified 1 b"
    unfolding bind_verified_iff using vp(1) by (auto simp: VERIFIER_PROTOCOL_VERSION_def)
  then obtain b where b: "bind_verified X ?req v = Verified 1 b"
    by blast
  have sel: "vr_version ?req = VERIFIER_PROTOCOL_VERSION" "vr_target ?req = ''http://a/b''" "vr_method ?req = ''GET''"
    "vr_dpop_proof ?req = proof_header_value sample_proof"
    by (simp_all add: sample_call_def VERIFIER_PROTOCOL_VERSION_def)
  have "verifier_verify X policy_default (Required sample_context) (Inr 1010) car expected_nonce issue
      ?req (rs, sample_nonces) = (bind_verified X ?req v, rs' key, sample_nonces)"
    by (rule verifier_verifyI [OF _ ne(2,1) _ _ nonce, where target = "EffectiveRequestTarget ''http://a/b''" and p = p])
      (simp_all only: req sel t p v)
  with b show ?thesis by metis
qed

lemma sample_service_verified:
  "\<exists>b rs. service_step sample_X policy_default (Required sample_context) (sample_store, sample_nonces) (sample_call 1010) =
     (Verified 1 b, rs, sample_nonces)"
proof -
  have fresh: "replay_check_and_record (Inr 1010) sample_store key 1300 =
      (Inr Fresh, sample_store\<lparr>rs_entries := [(key, 1300)]\<rparr>)" for key
    by (simp add: replay_check_and_record_def sample_store_def hm_retain_def hm_contains_def hm_get_def
        hm_len_def hm_insert_def)
  have "svc_clock (sample_call 1010) = Inr 1010" "svc_time (sample_call 1010) = 1010"
    by (simp_all add: sample_call_def)
  then show ?thesis
    using docs_verified [OF sample_docs_proof, of "replay_check_and_record (Inr 1010)" sample_store
        "\<lambda>key. sample_store\<lparr>rs_entries := [(key, 1300)]\<rparr>", OF fresh, of "issue_nonce (svc_generated (sample_call 1010))"]
    unfolding service_step_def by auto
qed

theorem verified_answer_sound_witness:
  "\<exists>b rs. verifier_verify sample_X policy_default (Required sample_context) (Inr 1010) (replay_check_and_record (Inr 1010))
     expected_nonce (issue_nonce (Inl DpopPortError)) (svc_request (sample_call 1010)) (sample_store, sample_nonces) =
       (Verified 1 b, rs, sample_nonces) \<and> vb_nonce_enforced b \<and> vb_replay_checked b"
proof -
  obtain b rs where b: "service_step sample_X policy_default (Required sample_context) (sample_store, sample_nonces)
      (sample_call 1010) = (Verified 1 b, rs, sample_nonces)"
    using sample_service_verified by blast
  have "verifier_verify sample_X policy_default (Required sample_context) (Inr 1010) (replay_check_and_record (Inr 1010))
     expected_nonce (issue_nonce (Inl DpopPortError)) (svc_request (sample_call 1010)) (sample_store, sample_nonces) =
       (Verified 1 b, rs, sample_nonces)"
    using b by (simp add: service_step_def sample_call_def)
  from this verified_answer_sound [OF this] show ?thesis
    by (intro exI [of _ b] exI [of _ rs]) simp
qed

text \<open>The service answers \<open>Verified\<close> at most once for one proof text, over any sequence of calls
  against one pair of in-memory stores, whatever else the requests say, as long as the replay
  store's clock readings do not go back.\<close>

lemma service_verifies_once:
  fixes calls :: "service_call list"
  assumes "wf_replay_store rs0" "sorted (map svc_time calls)"
    and "run_ops (\<lambda>st c. verifier_verify X policy np (svc_clock c) (replay_check_and_record (Inr (svc_time c)))
      expected_nonce (issue_nonce (svc_generated c)) (svc_request c) st) (rs0, ns) calls = (rs, st')"
    and "i < length calls" "j < length calls" "is_verified (rs ! i)" "is_verified (rs ! j)"
    and "vr_dpop_proof (svc_request (calls ! i)) = vr_dpop_proof (svc_request (calls ! j))"
  shows "i = j"
proof -
  have run: "run_ops (service_step X policy np) (rs0, ns) calls = (rs, st')"
    using assms(3) unfolding service_step_def .
  show ?thesis
    using service.passed_once [OF _ run assms(2,4-7)] assms(1,8) by (simp add: service_presented_def)
qed

text \<open>C37. A nonce is revealed only with the two nonce failures, only under a nonce policy, and it is
  the nonce against which the next attempt will be checked: the in-memory server store asks for
  it again and leaves its state as it is.\<close>

theorem challenged_nonce_is_next_expected:
  assumes "verifier_verify X policy np clock car expected_nonce (issue_nonce gen) request (rs, ns) =
    (Rejected ver f (Some n), rs', ns')"
  shows "(f = FC_NonceRequired \<or> f = FC_NonceMismatch) \<and> np \<noteq> Optional \<and>
    (\<forall>gen'. required_nonce np expected_nonce (issue_nonce gen') ns' = (Inr (Some (DpopNonce n)), ns'))"
  using assms
proof (cases rule: verifier_verify_cases)
  case (ran target nonce p q)
  have "bind_verified X request v \<noteq> Rejected ver f (Some n)" for v
    by (auto simp: bind_verified_def rejected_def split: sum.splits)
  then have f: "f = FC_NonceRequired \<or> f = FC_NonceMismatch" "map_option nonce_str nonce = Some n"
    using ran(8) by (cases nonce; auto simp: rejected_with_nonce_def split: sum.splits if_splits)+
  from f(2) have "nonce = Some (DpopNonce n)"
    by auto
  then show ?thesis
    using f(1) required_nonce_stable [OF ran(4)] required_nonce_enforced [OF ran(4)] by auto
qed (simp add: rejected_def)

definition stale_nonces :: InMemoryNonceStore where
  "stale_nonces = \<lparr>ns_capacity = 1, ns_entries = [(sample_context, DpopNonce ''n2'')], ns_poisoned = False\<rparr>"

theorem challenged_nonce_is_next_expected_witness:
  "\<exists>ns'. verifier_verify sample_X policy_default (Required sample_context) (Inr 1010) (replay_check_and_record (Inr 1010))
       expected_nonce (issue_nonce (Inl DpopPortError)) (svc_request (sample_call 1010)) (sample_store, stale_nonces) =
       (Rejected 1 FC_NonceMismatch (Some ''n2''), sample_store, ns') \<and>
     required_nonce (Required sample_context) expected_nonce (issue_nonce (Inl DpopPortError)) ns' =
       (Inr (Some (DpopNonce ''n2'')), ns')"
proof -
  obtain p where p: "parse_dpop_header_values sample_X [proof_header_value sample_proof] = Inr p"
    and checks: "proof_checks sample_X policy_default 1010 p sample_request"
    using sample_parse by blast
  let ?req = "svc_request (sample_call 1010)"
  let ?dreq = "service_request ?req (EffectiveRequestTarget ''http://a/b'') (Some (DpopNonce ''n2''))"
  have "verify_before_replay sample_X policy_default (Inr 1010) p ?dreq = Inl NonceMismatch"
    using checks
    by (auto simp: verify_before_replay_def proof_checks_def Let_def verify_es256_signature_def verify_freshness_def
        verify_nonce_def service_request_def sample_call_def sample_request_def)
  then have v: "dpop_verify sample_X policy_default (Inr 1010) (replay_check_and_record (Inr 1010)) p ?dreq sample_store =
      (Inl NonceMismatch, sample_store)"
    by (simp add: dpop_verify_def)
  have t: "target_parse ''http://a/b'' = Inr (EffectiveRequestTarget ''http://a/b'')" "validate_method ''GET'' = Inr ()"
    by code_simp+
  have nonce: "required_nonce (Required sample_context) expected_nonce issue stale_nonces =
      (Inr (Some (DpopNonce ''n2'')), stale_nonces)" for issue
    by (simp add: required_nonce_def expected_nonce_def stale_nonces_def hm_get_def)
  have "proof_header_value sample_proof \<noteq> []" "from_bytes [1, 2, 3] \<noteq> []"
    by (simp_all add: sample_proof_def from_bytes_def)
  then have run: "verifier_verify sample_X policy_default (Required sample_context) (Inr 1010) (replay_check_and_record (Inr 1010))
       expected_nonce (issue_nonce (Inl DpopPortError)) ?req (sample_store, stale_nonces) =
       (Rejected 1 FC_NonceMismatch (Some ''n2''), sample_store, stale_nonces)"
    using p v t
    by (simp add: verifier_verify_def dpop_request_new_def nonce Let_def rejected_with_nonce_def
        VERIFIER_PROTOCOL_VERSION_def service_request_def with_nonce_def with_access_token_def sample_call_def)
  then show ?thesis
    using challenged_nonce_is_next_expected [OF run] by blast
qed

end
