(* ===== verification/Verifier_Ipc.thy ===== *)
theory Verifier_Ipc
  imports Verifier_App
begin

text \<open>
  The authenticated local IPC of \<open>keylix-verifier\<close> (\<open>lib.rs\<close>, second half): the allowlist of HMAC
  peers, sealing and opening of frames, and the binding of a response to its request.

  An \<open>hmac::Key\<close> is the secret it was made from; tags are computed by \<open>hmac_sign\<close> and checked by
  \<open>hmac_verify\<close> of the crypto backend. The fresh correlation value is an argument of
  \<open>seal_request\<close> (\<open>None\<close> when the random source fails).
\<close>

section \<open>Data\<close>

datatype IpcFailure = MalformedEnvelope | UnauthorizedPeer | EntropyUnavailable

definition IPC_CORRELATION_BYTES :: nat where
  "IPC_CORRELATION_BYTES = 32"

record SealedIpcRequest =
  sr_frame :: bytes
  sr_peer_id :: str
  sr_correlation :: bytes

record AuthenticatedIpcRequest =
  ar_peer_id :: str
  ar_correlation :: bytes
  ar_payload :: bytes

record PeerConfig =
  pc_id :: str
  pc_secret_base64url :: str

record PeerConfigDocument =
  pd_schema_version :: u16
  pd_peers :: "PeerConfig list"

record PeerCredential =
  cred_id :: str
  cred_key :: bytes

type_synonym PeerCredentialSet = "PeerCredential list"

record WireEnvelope =
  we_version :: u16
  we_peer_id :: str
  we_correlation_base64url :: str
  we_payload_base64url :: str
  we_mac_base64url :: str

definition REQUEST_DOMAIN :: bytes where
  "REQUEST_DOMAIN = as_bytes ''keylix-verifier-request-v1'' @ [0]"

definition RESPONSE_DOMAIN :: bytes where
  "RESPONSE_DOMAIN = as_bytes ''keylix-verifier-response-v1'' @ [0]"

section \<open>Documents\<close>

definition peer_config_deserialize :: "json \<Rightarrow> PeerConfig option" where
  "peer_config_deserialize j =
     (case de_struct True [''id'', ''secret_base64url''] j of
        Some (_, [i, s]) \<Rightarrow>
          Option.bind (de_string i) (\<lambda>i.
          Option.bind (de_string s) (\<lambda>s. Some \<lparr>pc_id = i, pc_secret_base64url = s\<rparr>))
      | _ \<Rightarrow> None)"

definition peer_document_deserialize :: "json \<Rightarrow> PeerConfigDocument option" where
  "peer_document_deserialize j =
     (case de_struct True [''schema_version'', ''peers''] j of
        Some (_, [ver, Some (JArr ps)]) \<Rightarrow>
          Option.bind (de_u16 ver) (\<lambda>ver.
          Option.bind (those (map peer_config_deserialize ps)) (\<lambda>ps.
            Some \<lparr>pd_schema_version = ver, pd_peers = ps\<rparr>))
      | _ \<Rightarrow> None)"

definition wire_envelope_names :: "str list" where
  "wire_envelope_names =
     [''version'', ''peer_id'', ''correlation_base64url'', ''payload_base64url'', ''mac_base64url'']"

definition wire_envelope_deserialize :: "json \<Rightarrow> WireEnvelope option" where
  "wire_envelope_deserialize j =
     (case de_struct True wire_envelope_names j of
        Some (_, [ver, p, c, b, m]) \<Rightarrow>
          Option.bind (de_u16 ver) (\<lambda>ver.
          Option.bind (de_string p) (\<lambda>p.
          Option.bind (de_string c) (\<lambda>c.
          Option.bind (de_string b) (\<lambda>b.
          Option.bind (de_string m) (\<lambda>m.
            Some \<lparr>we_version = ver, we_peer_id = p, we_correlation_base64url = c,
                  we_payload_base64url = b, we_mac_base64url = m\<rparr>)))))
      | _ \<Rightarrow> None)"

definition wire_envelope_serialize :: "WireEnvelope \<Rightarrow> json" where
  "wire_envelope_serialize e =
     JObj [(''version'', JInt (uint (we_version e))), (''peer_id'', JStr (we_peer_id e)),
           (''correlation_base64url'', JStr (we_correlation_base64url e)),
           (''payload_base64url'', JStr (we_payload_base64url e)),
           (''mac_base64url'', JStr (we_mac_base64url e))]"

definition valid_peer_id :: "str \<Rightarrow> bool" where
  "valid_peer_id v \<longleftrightarrow>
     v \<noteq> [] \<and> length v \<le> 64 \<and>
     list_all (\<lambda>b. is_ascii_alphanumeric b \<or> b = 0x2D \<or> b = 0x5F \<or> b = 0x2E) (as_bytes v)"

section \<open>Credentials\<close>

text \<open>The loop of \<open>from_json\<close> over the configured peers, with the credentials built so far.\<close>

fun build_credentials ::
  "externs \<Rightarrow> PeerCredentialSet \<Rightarrow> PeerConfig list \<Rightarrow> IpcFailure + PeerCredentialSet" where
  "build_credentials X peers [] = Inr peers"
| "build_credentials X peers (peer # rest) =
     (if \<not> valid_peer_id (pc_id peer) \<or> list_ex (\<lambda>known. cred_id known = pc_id peer) peers
      then Inl MalformedEnvelope
      else
        bindE (ok_or MalformedEnvelope (b64_decode X (pc_secret_base64url peer))) (\<lambda>secret.
        if length secret \<noteq> 32 \<or> b64_encode X secret \<noteq> pc_secret_base64url peer
        then Inl MalformedEnvelope
        else build_credentials X (peers @ [\<lparr>cred_id = pc_id peer, cred_key = secret\<rparr>]) rest))"

definition credentials_from_json :: "externs \<Rightarrow> bytes \<Rightarrow> IpcFailure + PeerCredentialSet" where
  "credentials_from_json X input =
     (if input = [] \<or> length input > 16 * 1024 then Inl MalformedEnvelope
      else
        bindE (ok_or MalformedEnvelope (Option.bind (js_parse X input) peer_document_deserialize)) (\<lambda>document.
        if pd_schema_version document \<noteq> VERIFIER_PROTOCOL_VERSION \<or> pd_peers document = [] \<or>
           length (pd_peers document) > 16
        then Inl MalformedEnvelope
        else build_credentials X [] (pd_peers document)))"

section \<open>Frames\<close>

definition mac_input :: "bytes \<Rightarrow> str \<Rightarrow> bytes \<Rightarrow> bytes \<Rightarrow> bytes" where
  "mac_input domain peer_id correlation payload =
     domain @ as_bytes peer_id @ [0] @ correlation @ payload"

definition calculate_mac :: "externs \<Rightarrow> bytes \<Rightarrow> bytes \<Rightarrow> str \<Rightarrow> bytes \<Rightarrow> bytes \<Rightarrow> bytes" where
  "calculate_mac X key domain peer_id correlation payload =
     hmac_sign X key (mac_input domain peer_id correlation payload)"

definition verify_mac :: "externs \<Rightarrow> bytes \<Rightarrow> bytes \<Rightarrow> str \<Rightarrow> bytes \<Rightarrow> bytes \<Rightarrow> bytes \<Rightarrow> bool" where
  "verify_mac X key domain peer_id correlation payload mac =
     hmac_verify X key (mac_input domain peer_id correlation payload) mac"

definition find_peer :: "PeerCredentialSet \<Rightarrow> str \<Rightarrow> PeerCredential option" where
  "find_peer peers peer_id = find (\<lambda>candidate. cred_id candidate = peer_id) peers"

definition open_frame ::
  "externs \<Rightarrow> PeerCredentialSet \<Rightarrow> bytes \<Rightarrow> bytes \<Rightarrow> IpcFailure + AuthenticatedIpcRequest" where
  "open_frame X peers input domain =
     (if input = [] \<or> length input > MAX_VERIFIER_PAYLOAD_BYTES * 2 then Inl MalformedEnvelope
      else
      bindE (ok_or MalformedEnvelope (Option.bind (js_parse X input) wire_envelope_deserialize)) (\<lambda>envelope.
      if we_version envelope \<noteq> VERIFIER_PROTOCOL_VERSION \<or> \<not> valid_peer_id (we_peer_id envelope)
      then Inl MalformedEnvelope
      else
      bindE (ok_or MalformedEnvelope (b64_decode X (we_correlation_base64url envelope))) (\<lambda>correlation.
      if length correlation \<noteq> IPC_CORRELATION_BYTES then Inl MalformedEnvelope
      else if b64_encode X correlation \<noteq> we_correlation_base64url envelope then Inl MalformedEnvelope
      else
      bindE (ok_or MalformedEnvelope (b64_decode X (we_payload_base64url envelope))) (\<lambda>payload.
      if payload = [] \<or> length payload > MAX_VERIFIER_PAYLOAD_BYTES then Inl MalformedEnvelope
      else
      bindE (ok_or MalformedEnvelope (b64_decode X (we_mac_base64url envelope))) (\<lambda>mac.
      if length mac \<noteq> 32 \<or> b64_encode X mac \<noteq> we_mac_base64url envelope then Inl MalformedEnvelope
      else
      bindE (ok_or UnauthorizedPeer (find_peer peers (we_peer_id envelope))) (\<lambda>peer.
      if \<not> verify_mac X (cred_key peer) domain (cred_id peer) correlation payload mac
      then Inl UnauthorizedPeer
      else Inr \<lparr>ar_peer_id = cred_id peer, ar_correlation = correlation, ar_payload = payload\<rparr>))))))"

definition seal_frame ::
  "externs \<Rightarrow> PeerCredentialSet \<Rightarrow> str \<Rightarrow> bytes \<Rightarrow> bytes \<Rightarrow> bytes \<Rightarrow> IpcFailure + bytes" where
  "seal_frame X peers peer_id correlation payload domain =
     (if payload = [] \<or> length payload > MAX_VERIFIER_PAYLOAD_BYTES then Inl MalformedEnvelope
      else
      bindE (ok_or UnauthorizedPeer (find_peer peers peer_id)) (\<lambda>peer.
      let mac = calculate_mac X (cred_key peer) domain peer_id correlation payload in
        Inr (js_print X (wire_envelope_serialize
          \<lparr>we_version = VERIFIER_PROTOCOL_VERSION, we_peer_id = peer_id,
           we_correlation_base64url = b64_encode X correlation,
           we_payload_base64url = b64_encode X payload,
           we_mac_base64url = b64_encode X mac\<rparr>))))"

definition open_request ::
  "externs \<Rightarrow> PeerCredentialSet \<Rightarrow> bytes \<Rightarrow> IpcFailure + AuthenticatedIpcRequest" where
  "open_request X peers input = open_frame X peers input REQUEST_DOMAIN"

definition seal_response ::
  "externs \<Rightarrow> PeerCredentialSet \<Rightarrow> AuthenticatedIpcRequest \<Rightarrow> bytes \<Rightarrow> IpcFailure + bytes" where
  "seal_response X peers request payload =
     seal_frame X peers (ar_peer_id request) (ar_correlation request) payload RESPONSE_DOMAIN"

definition seal_request ::
  "externs \<Rightarrow> PeerCredentialSet \<Rightarrow> bytes option \<Rightarrow> str \<Rightarrow> bytes \<Rightarrow> IpcFailure + SealedIpcRequest" where
  "seal_request X peers fill peer_id payload =
     bindE (ok_or EntropyUnavailable fill) (\<lambda>correlation.
     bindE (seal_frame X peers peer_id correlation payload REQUEST_DOMAIN) (\<lambda>frame.
       Inr \<lparr>sr_frame = frame, sr_peer_id = peer_id, sr_correlation = correlation\<rparr>))"

definition open_response_for_request ::
  "externs \<Rightarrow> PeerCredentialSet \<Rightarrow> SealedIpcRequest \<Rightarrow> bytes \<Rightarrow> IpcFailure + AuthenticatedIpcRequest" where
  "open_response_for_request X peers request input =
     bindE (open_frame X peers input RESPONSE_DOMAIN) (\<lambda>response.
       if ar_peer_id response \<noteq> sr_peer_id request \<or> ar_correlation response \<noteq> sr_correlation request
       then Inl UnauthorizedPeer
       else Inr response)"

section \<open>Lemmas\<close>

lemma find_peer_Some_iff:
  "distinct (map cred_id peers) \<Longrightarrow> find_peer peers i = Some c \<longleftrightarrow> c \<in> set peers \<and> cred_id c = i"
  unfolding find_peer_def
proof (induction peers)
  case (Cons d peers)
  then show ?case by (auto simp: rev_image_eqI)
qed simp

lemma find_peer_id: "find_peer peers i = Some c \<Longrightarrow> cred_id c = i"
  unfolding find_peer_def by (auto simp: find_Some_iff)

lemma wire_envelope_roundtrip: "wire_envelope_deserialize (wire_envelope_serialize e) = Some e"
proof -
  have "uint (we_version e) \<le> 65535"
    using uint_bounded [of "we_version e"] by simp
  then show ?thesis
    by (simp add: wire_envelope_deserialize_def wire_envelope_serialize_def wire_envelope_names_def de_u16_def)
qed

text \<open>What an opened frame says, over the envelope it was read from.\<close>

definition frame_envelope :: "externs \<Rightarrow> bytes \<Rightarrow> WireEnvelope \<Rightarrow> bool" where
  "frame_envelope X input e \<longleftrightarrow>
     input \<noteq> [] \<and> length input \<le> MAX_VERIFIER_PAYLOAD_BYTES * 2 \<and>
     Option.bind (js_parse X input) wire_envelope_deserialize = Some e"

lemma open_frame_Inr_iff:
  "open_frame X peers input domain = Inr a \<longleftrightarrow>
     (\<exists>e c mac. frame_envelope X input e \<and>
        we_version e = VERIFIER_PROTOCOL_VERSION \<and> valid_peer_id (we_peer_id e) \<and>
        b64_decode X (we_correlation_base64url e) = Some (ar_correlation a) \<and>
        length (ar_correlation a) = IPC_CORRELATION_BYTES \<and>
        b64_encode X (ar_correlation a) = we_correlation_base64url e \<and>
        b64_decode X (we_payload_base64url e) = Some (ar_payload a) \<and> ar_payload a \<noteq> [] \<and>
        length (ar_payload a) \<le> MAX_VERIFIER_PAYLOAD_BYTES \<and>
        b64_decode X (we_mac_base64url e) = Some mac \<and> length mac = 32 \<and>
        b64_encode X mac = we_mac_base64url e \<and>
        find_peer peers (we_peer_id e) = Some c \<and> ar_peer_id a = we_peer_id e \<and>
        hmac_verify X (cred_key c) (mac_input domain (ar_peer_id a) (ar_correlation a) (ar_payload a)) mac)"
proof -
  have "open_frame X peers input domain = Inr a \<longleftrightarrow>
     (\<exists>e cor pay mac c. frame_envelope X input e \<and>
        we_version e = VERIFIER_PROTOCOL_VERSION \<and> valid_peer_id (we_peer_id e) \<and>
        b64_decode X (we_correlation_base64url e) = Some cor \<and> length cor = IPC_CORRELATION_BYTES \<and>
        b64_encode X cor = we_correlation_base64url e \<and>
        b64_decode X (we_payload_base64url e) = Some pay \<and> pay \<noteq> [] \<and> length pay \<le> MAX_VERIFIER_PAYLOAD_BYTES \<and>
        b64_decode X (we_mac_base64url e) = Some mac \<and> length mac = 32 \<and> b64_encode X mac = we_mac_base64url e \<and>
        find_peer peers (we_peer_id e) = Some c \<and>
        hmac_verify X (cred_key c) (mac_input domain (cred_id c) cor pay) mac \<and>
        a = \<lparr>ar_peer_id = cred_id c, ar_correlation = cor, ar_payload = pay\<rparr>)"
    unfolding open_frame_def frame_envelope_def verify_mac_def
    by (auto simp: result_simps split: if_splits)
  then show ?thesis
    by (cases a) (auto simp: find_peer_id)
qed

text \<open>The MAC input can be read back: valid peer identifiers contain no zero byte, correlations have
  a fixed length, and neither domain is a prefix of the other.\<close>

lemma valid_peer_id_no_zero: "valid_peer_id v \<Longrightarrow> 0 \<notin> set (as_bytes v)"
  by (auto simp: valid_peer_id_def list_all_iff is_ascii_alphanumeric_def is_ascii_digit_def is_ascii_upper_def
      is_ascii_lower_def byte_arith)

lemma append_sep_inj:
  "x \<notin> set a \<Longrightarrow> x \<notin> set b \<Longrightarrow> a @ x # s = b @ x # t \<longleftrightarrow> a = b \<and> s = t"
proof (induction a arbitrary: b)
  case Nil
  then show ?case by (cases b) auto
next
  case (Cons y a)
  then show ?case by (cases b) auto
qed

lemma domains_unrelated:
  "d \<in> {REQUEST_DOMAIN, RESPONSE_DOMAIN} \<Longrightarrow> d' \<in> {REQUEST_DOMAIN, RESPONSE_DOMAIN} \<Longrightarrow>
   d @ s = d' @ t \<longleftrightarrow> d = d' \<and> s = t"
proof -
  have 1: "take 20 REQUEST_DOMAIN \<noteq> take 20 RESPONSE_DOMAIN" "length (take 20 REQUEST_DOMAIN) = 20"
    "length (take 20 RESPONSE_DOMAIN) = 20"
    by code_simp+
  have "take 20 (d @ s) = take 20 d" if "length (take 20 d) = 20" for d s :: bytes
    using that by simp
  then have "REQUEST_DOMAIN @ s \<noteq> RESPONSE_DOMAIN @ t" "RESPONSE_DOMAIN @ s \<noteq> REQUEST_DOMAIN @ t"
    using 1 by metis+
  moreover assume "d \<in> {REQUEST_DOMAIN, RESPONSE_DOMAIN}" "d' \<in> {REQUEST_DOMAIN, RESPONSE_DOMAIN}"
  ultimately show ?thesis by auto
qed

lemma mac_input_inj:
  assumes "d \<in> {REQUEST_DOMAIN, RESPONSE_DOMAIN}" "d' \<in> {REQUEST_DOMAIN, RESPONSE_DOMAIN}"
    and "valid_peer_id i" "valid_peer_id i'" "length c = length c'"
  shows "mac_input d i c m = mac_input d' i' c' m' \<longleftrightarrow> d = d' \<and> i = i' \<and> c = c' \<and> m = m'"
  using assms(5) valid_peer_id_no_zero [OF assms(3)] valid_peer_id_no_zero [OF assms(4)]
  unfolding mac_input_def domains_unrelated [OF assms(1,2)]
  by (auto simp: append_sep_inj)

text \<open>The credentials built so far stay valid through the loop.\<close>

definition wf_credentials :: "PeerCredentialSet \<Rightarrow> bool" where
  "wf_credentials peers \<longleftrightarrow>
     distinct (map cred_id peers) \<and> list_all (\<lambda>c. valid_peer_id (cred_id c) \<and> length (cred_key c) = 32) peers"

lemma build_credentials_wf:
  "build_credentials X peers cfg = Inr peers' \<Longrightarrow> wf_credentials peers \<Longrightarrow>
   wf_credentials peers' \<and> map cred_id peers' = map cred_id peers @ map pc_id cfg \<and>
   (\<forall>c \<in> set peers'. c \<in> set peers \<or>
      (\<exists>p \<in> set cfg. pc_id p = cred_id c \<and> pc_secret_base64url p = b64_encode X (cred_key c)))"
proof (induction cfg arbitrary: peers)
  case (Cons p cfg)
  then obtain secret where s: "valid_peer_id (pc_id p)" "\<forall>known \<in> set peers. cred_id known \<noteq> pc_id p" "length secret = 32"
    "b64_encode X secret = pc_secret_base64url p"
    "build_credentials X (peers @ [\<lparr>cred_id = pc_id p, cred_key = secret\<rparr>]) cfg = Inr peers'"
    by (auto simp: result_simps list_ex_iff split: if_splits)
  have "wf_credentials (peers @ [\<lparr>cred_id = pc_id p, cred_key = secret\<rparr>])"
    using Cons.prems(2) s by (auto simp: wf_credentials_def)
  from Cons.IH [OF s(5) this] s(4) show ?case by auto
qed simp

text \<open>An accepted peer document gives between 1 and 16 credentials with distinct valid identifiers,
  each with the 32-byte secret its entry spells in canonical base64url.\<close>

lemma credentials_from_json_wf:
  assumes "credentials_from_json X input = Inr peers"
  shows "1 \<le> length peers \<and> length peers \<le> 16 \<and> distinct (map cred_id peers) \<and>
    (\<forall>c \<in> set peers. valid_peer_id (cred_id c) \<and> length (cred_key c) = 32) \<and>
    (\<exists>j d. js_parse X input = Some j \<and> peer_document_deserialize j = Some d \<and>
       map cred_id peers = map pc_id (pd_peers d) \<and>
       (\<forall>c \<in> set peers. \<exists>p \<in> set (pd_peers d).
          pc_id p = cred_id c \<and> pc_secret_base64url p = b64_encode X (cred_key c)))"
proof -
  obtain j d where d: "js_parse X input = Some j" "peer_document_deserialize j = Some d" "pd_peers d \<noteq> []"
    "length (pd_peers d) \<le> 16" "build_credentials X [] (pd_peers d) = Inr peers"
    using assms by (auto simp: credentials_from_json_def result_simps bind_eq_Some_conv split: if_splits)
  have "wf_credentials []" by (simp add: wf_credentials_def)
  then have b: "wf_credentials peers" "map cred_id peers = map pc_id (pd_peers d)"
    "\<forall>c \<in> set peers. \<exists>p \<in> set (pd_peers d). pc_id p = cred_id c \<and> pc_secret_base64url p = b64_encode X (cred_key c)"
    using build_credentials_wf [OF d(5)] by auto
  have "length peers = length (pd_peers d)"
    using arg_cong [OF b(2), of length] by simp
  then show ?thesis
    using b d by (auto simp: wf_credentials_def list_all_iff Suc_le_eq)
qed

text \<open>A sealed frame opens under the domain it was sealed for.\<close>

lemma open_sealed_frame:
  assumes "b64_law X" "hmac_law X" "wf_credentials peers" "length correlation = IPC_CORRELATION_BYTES"
    and "seal_frame X peers peer_id correlation body domain = Inr out"
    and readable: "\<forall>e. js_print X (wire_envelope_serialize e) = out \<longrightarrow> json_roundtrips X (wire_envelope_serialize e)"
    and "out \<noteq> []" "length out \<le> MAX_VERIFIER_PAYLOAD_BYTES * 2"
  shows "open_frame X peers out domain = Inr \<lparr>ar_peer_id = peer_id, ar_correlation = correlation, ar_payload = body\<rparr>"
proof -
  obtain c where c: "find_peer peers peer_id = Some c" "body \<noteq> []" "length body \<le> MAX_VERIFIER_PAYLOAD_BYTES"
    and e: "out = js_print X (wire_envelope_serialize
      \<lparr>we_version = VERIFIER_PROTOCOL_VERSION, we_peer_id = peer_id, we_correlation_base64url = b64_encode X correlation,
       we_payload_base64url = b64_encode X body,
       we_mac_base64url = b64_encode X (hmac_sign X (cred_key c) (mac_input domain peer_id correlation body))\<rparr>)"
    (is "out = js_print X (wire_envelope_serialize ?e)")
    using assms(5) by (auto simp: seal_frame_def calculate_mac_def result_simps Let_def split: if_splits)
  have "frame_envelope X out ?e"
    using readable e assms(7,8) wire_envelope_roundtrip [of ?e]
    by (auto simp: frame_envelope_def json_roundtrips_def)
  moreover have "valid_peer_id peer_id"
    using c(1) assms(3) find_peer_Some_iff [of peers peer_id c] by (auto simp: wf_credentials_def list_all_iff)
  ultimately show ?thesis
    unfolding open_frame_Inr_iff using c assms(1,2,4)
    by (intro exI [of _ ?e] exI [of _ c]
        exI [of _ "hmac_sign X (cred_key c) (mac_input domain peer_id correlation body)"])
      (simp add: b64_decode_encode hmac_law_def)
qed

lemma seal_request_Inr_iff:
  "seal_request X peers (Some correlation) peer_id payload = Inr sealed \<longleftrightarrow>
     seal_frame X peers peer_id correlation payload REQUEST_DOMAIN = Inr (sr_frame sealed) \<and>
     sr_peer_id sealed = peer_id \<and> sr_correlation sealed = correlation"
  by (cases sealed) (auto simp: seal_request_def result_simps)

section \<open>A sample exchange\<close>

definition sample_peers :: PeerCredentialSet where
  "sample_peers = [\<lparr>cred_id = ''p'', cred_key = replicate 32 5\<rparr>]"

definition sample_envelope :: "bytes \<Rightarrow> bytes \<Rightarrow> WireEnvelope" where
  "sample_envelope domain payload =
     \<lparr>we_version = 1, we_peer_id = ''p'', we_correlation_base64url = real_b64_encode (replicate 32 9),
      we_payload_base64url = real_b64_encode payload,
      we_mac_base64url =
        real_b64_encode (first32 (mac_input domain ''p'' (replicate 32 9) payload @ replicate 32 5))\<rparr>"

definition ipc_docs :: "(json \<times> bytes) list" where
  "ipc_docs =
     [(wire_envelope_serialize (sample_envelope REQUEST_DOMAIN [1]), [1]),
      (wire_envelope_serialize (sample_envelope RESPONSE_DOMAIN [2]), [2]),
      (JObj [(''schema_version'', JInt 1),
             (''peers'', JArr [JObj [(''id'', JStr ''p''), (''secret_base64url'', JStr (real_b64_encode (replicate 32 5)))]])],
       [3])]"

abbreviation ipc_X :: externs where
  "ipc_X \<equiv> sample_externs ipc_docs"

definition sample_sealed :: SealedIpcRequest where
  "sample_sealed = \<lparr>sr_frame = [1], sr_peer_id = ''p'', sr_correlation = replicate 32 9\<rparr>"

lemma sample_peers_wf: "wf_credentials sample_peers"
  by code_simp

lemma ipc_docs_lookup:
  "map_of ipc_docs (wire_envelope_serialize (sample_envelope REQUEST_DOMAIN [1])) = Some [1]"
  "map_of ipc_docs (wire_envelope_serialize (sample_envelope RESPONSE_DOMAIN [2])) = Some [2]"
  by code_simp+

lemma sample_seal:
  assumes "body \<noteq> []" "length body \<le> 10"
  shows "seal_frame (sample_externs docs) sample_peers ''p'' (replicate 32 9) body domain =
    Inr (js_print (sample_externs docs) (wire_envelope_serialize (sample_envelope domain body)))"
  using assms
  by (simp add: seal_frame_def find_peer_def sample_peers_def calculate_mac_def sample_envelope_def sample_externs_sel(1,7)
      Let_def VERIFIER_PROTOCOL_VERSION_def MAX_VERIFIER_PAYLOAD_BYTES_def)

lemma sample_seals:
  "seal_request ipc_X sample_peers (Some (replicate 32 9)) ''p'' [1] = Inr sample_sealed"
  "seal_response ipc_X sample_peers \<lparr>ar_peer_id = ''p'', ar_correlation = replicate 32 9, ar_payload = [1]\<rparr> [2] = Inr [2]"
  using sample_seal [of "[1]" ipc_docs REQUEST_DOMAIN] sample_seal [of "[2]" ipc_docs RESPONSE_DOMAIN] ipc_docs_lookup
  by (simp_all add: seal_request_def seal_response_def sample_sealed_def sample_externs_sel(4))

lemma ipc_readable:
  assumes "js_print ipc_X j \<in> {[1], [2]}"
  shows "json_roundtrips ipc_X j"
proof -
  have "distinct (map snd ipc_docs)" by (simp add: ipc_docs_def)
  moreover obtain bs where "map_of ipc_docs j = Some bs"
    using assms by (auto simp: sample_externs_sel(4) split: option.splits)
  ultimately show ?thesis by (rule sample_json_roundtrips)
qed

lemma sample_opens:
  "open_request ipc_X sample_peers [1] =
     Inr \<lparr>ar_peer_id = ''p'', ar_correlation = replicate 32 9, ar_payload = [1]\<rparr>"
  "open_response_for_request ipc_X sample_peers sample_sealed [2] =
     Inr \<lparr>ar_peer_id = ''p'', ar_correlation = replicate 32 9, ar_payload = [2]\<rparr>"
  using open_sealed_frame [OF sample_b64_law sample_hmac_law sample_peers_wf, of "replicate 32 9" ipc_docs "''p''"]
    sample_seals ipc_readable
  by (simp_all add: open_request_def open_response_for_request_def seal_request_Inr_iff seal_response_def sample_sealed_def
      IPC_CORRELATION_BYTES_def MAX_VERIFIER_PAYLOAD_BYTES_def)

section \<open>Properties\<close>

text \<open>A sealed request opens at the service with the peer, the correlation and the payload it was
  sealed with; the sealed answer opens at the client that holds the request, with the answer's
  payload.\<close>

lemma ipc_exchange_roundtrip:
  assumes "b64_law X" "hmac_law X" "wf_credentials peers"
    and "length correlation = 32"
    and "seal_request X peers (Some correlation) peer_id payload = Inr sealed"
    and "seal_response X peers \<lparr>ar_peer_id = peer_id, ar_correlation = correlation, ar_payload = payload\<rparr> answer =
      Inr frame"
    and readable: "\<forall>e. js_print X (wire_envelope_serialize e) \<in> {sr_frame sealed, frame} \<longrightarrow>
      json_roundtrips X (wire_envelope_serialize e)"
    and "0 < length (sr_frame sealed)" "length (sr_frame sealed) \<le> 65536" "0 < length frame" "length frame \<le> 65536"
  shows "open_request X peers (sr_frame sealed) =
      Inr \<lparr>ar_peer_id = peer_id, ar_correlation = correlation, ar_payload = payload\<rparr> \<and>
    open_response_for_request X peers sealed frame =
      Inr \<lparr>ar_peer_id = peer_id, ar_correlation = correlation, ar_payload = answer\<rparr>"
proof -
  have sealed: "seal_frame X peers peer_id correlation payload REQUEST_DOMAIN = Inr (sr_frame sealed)"
    "sr_peer_id sealed = peer_id" "sr_correlation sealed = correlation"
    using assms(5) by (simp_all add: seal_request_Inr_iff)
  have "open_frame X peers (sr_frame sealed) REQUEST_DOMAIN =
      Inr \<lparr>ar_peer_id = peer_id, ar_correlation = correlation, ar_payload = payload\<rparr>"
    using assms sealed by (intro open_sealed_frame) (auto simp: IPC_CORRELATION_BYTES_def MAX_VERIFIER_PAYLOAD_BYTES_def)
  moreover have "open_frame X peers frame RESPONSE_DOMAIN =
      Inr \<lparr>ar_peer_id = peer_id, ar_correlation = correlation, ar_payload = answer\<rparr>"
    using assms by (intro open_sealed_frame)
      (auto simp: seal_response_def IPC_CORRELATION_BYTES_def MAX_VERIFIER_PAYLOAD_BYTES_def)
  ultimately show ?thesis
    using sealed(2,3) by (simp add: open_request_def open_response_for_request_def)
qed

text \<open>A response is accepted only for its request: it comes from the peer and carries the
  correlation of the sealed request, and the tag in the frame is the one that peer's key gives
  over the response domain, the peer, the correlation and exactly the payload returned.\<close>

lemma response_bound_to_request:
  assumes "hmac_law X" "open_response_for_request X peers sealed input = Inr response"
  shows "ar_peer_id response = sr_peer_id sealed \<and> ar_correlation response = sr_correlation sealed \<and>
    (\<exists>c e. find_peer peers (sr_peer_id sealed) = Some c \<and> frame_envelope X input e \<and>
       we_mac_base64url e = b64_encode X (hmac_sign X (cred_key c)
         (as_bytes ''keylix-verifier-response-v1'' @ [0] @ as_bytes (sr_peer_id sealed) @ [0] @
          sr_correlation sealed @ ar_payload response)))"
proof -
  have "open_frame X peers input RESPONSE_DOMAIN = Inr response"
    and r: "ar_peer_id response = sr_peer_id sealed" "ar_correlation response = sr_correlation sealed"
    using assms(2) by (auto simp: open_response_for_request_def result_simps split: if_splits)
  then obtain c e where "find_peer peers (sr_peer_id sealed) = Some c" "frame_envelope X input e"
    "we_mac_base64url e = b64_encode X (hmac_sign X (cred_key c)
       (mac_input RESPONSE_DOMAIN (sr_peer_id sealed) (sr_correlation sealed) (ar_payload response)))"
    using assms(1) unfolding open_frame_Inr_iff hmac_law_def by metis
  then show ?thesis
    using r by (auto simp: mac_input_def RESPONSE_DOMAIN_def)
qed

text \<open>C21. A frame that opens as a request is refused as a response to any request, unless the
  peer's key gives one tag to the two different MAC inputs: reflecting a client's own frame back
  to it does not work.\<close>

theorem request_frame_is_no_response:
  assumes "hmac_law X" "open_request X peers input = Inr a" "find_peer peers (ar_peer_id a) = Some c"
    and "inj_on (hmac_sign X (cred_key c))
      {mac_input REQUEST_DOMAIN (ar_peer_id a) (ar_correlation a) (ar_payload a),
       mac_input RESPONSE_DOMAIN (ar_peer_id a) (ar_correlation a) (ar_payload a)}"
  shows "\<not> is_ok (open_response_for_request X peers sealed input)"
proof
  let ?i = "\<lambda>d. mac_input d (ar_peer_id a) (ar_correlation a) (ar_payload a)"
  assume "is_ok (open_response_for_request X peers sealed input)"
  then obtain b where b: "open_frame X peers input RESPONSE_DOMAIN = Inr b"
    by (auto simp: is_ok_iff open_response_for_request_def result_simps)
  obtain e where e: "frame_envelope X input e" "valid_peer_id (we_peer_id e)" "ar_peer_id a = we_peer_id e"
    "b64_decode X (we_correlation_base64url e) = Some (ar_correlation a)"
    "b64_decode X (we_payload_base64url e) = Some (ar_payload a)"
    "b64_decode X (we_mac_base64url e) = Some (hmac_sign X (cred_key c) (?i REQUEST_DOMAIN))"
    using assms(1-3) unfolding open_request_def open_frame_Inr_iff hmac_law_def by auto
  moreover obtain e' c' where "frame_envelope X input e'" "ar_peer_id b = we_peer_id e'"
    "b64_decode X (we_correlation_base64url e') = Some (ar_correlation b)"
    "b64_decode X (we_payload_base64url e') = Some (ar_payload b)" "find_peer peers (we_peer_id e') = Some c'"
    "b64_decode X (we_mac_base64url e') = Some (hmac_sign X (cred_key c')
       (mac_input RESPONSE_DOMAIN (ar_peer_id b) (ar_correlation b) (ar_payload b)))"
    using assms(1) b unfolding open_frame_Inr_iff hmac_law_def by auto
  ultimately have "hmac_sign X (cred_key c) (?i REQUEST_DOMAIN) = hmac_sign X (cred_key c) (?i RESPONSE_DOMAIN)"
    using assms(3) by (auto simp: frame_envelope_def)
  then have "?i REQUEST_DOMAIN = ?i RESPONSE_DOMAIN"
    using assms(4) by (auto dest: inj_onD)
  then have "REQUEST_DOMAIN = RESPONSE_DOMAIN"
    using mac_input_inj [of REQUEST_DOMAIN RESPONSE_DOMAIN "ar_peer_id a" "ar_peer_id a"] e(2,3) by auto
  then show False
    by (auto dest: arg_cong [where f = length] simp: REQUEST_DOMAIN_def RESPONSE_DOMAIN_def)
qed

theorem request_frame_is_no_response_witness:
  "is_ok (open_request ipc_X sample_peers [1]) \<and>
   \<not> is_ok (open_response_for_request ipc_X sample_peers sample_sealed [1])"
proof -
  let ?a = "\<lparr>ar_peer_id = ''p'', ar_correlation = replicate 32 9, ar_payload = [1]\<rparr> :: AuthenticatedIpcRequest"
  let ?c = "\<lparr>cred_id = ''p'', cred_key = replicate 32 5\<rparr> :: PeerCredential"
  have c: "find_peer sample_peers (ar_peer_id ?a) = Some ?c"
    by (simp add: find_peer_def sample_peers_def)
  have "first32 (mac_input REQUEST_DOMAIN ''p'' (replicate 32 9) [1] @ replicate 32 5) \<noteq>
      first32 (mac_input RESPONSE_DOMAIN ''p'' (replicate 32 9) [1] @ replicate 32 5)"
    by code_simp
  then have "inj_on (hmac_sign ipc_X (cred_key ?c))
      {mac_input REQUEST_DOMAIN (ar_peer_id ?a) (ar_correlation ?a) (ar_payload ?a),
       mac_input RESPONSE_DOMAIN (ar_peer_id ?a) (ar_correlation ?a) (ar_payload ?a)}"
    by (auto simp: sample_externs_sel(7))
  from request_frame_is_no_response [OF sample_hmac_law sample_opens(1) c this] show ?thesis
    using sample_opens(1) by (simp add: is_ok_iff)
qed

text \<open>The MAC input determines what it authenticates: for the two domains, valid peer
  identifiers and correlations of 32 bytes, equal inputs mean equal domain, peer, correlation
  and payload, although the fields are joined with a single separator only.\<close>

lemma mac_input_unambiguous:
  assumes "d \<in> {REQUEST_DOMAIN, RESPONSE_DOMAIN}" "d' \<in> {REQUEST_DOMAIN, RESPONSE_DOMAIN}"
    and "valid_peer_id i" "valid_peer_id i'" "length c = 32" "length c' = 32"
    and "mac_input d i c m = mac_input d' i' c' m'"
  shows "d = d' \<and> i = i' \<and> c = c' \<and> m = m'"
  using assms mac_input_inj [of d d' i i' c c' m m'] by simp

end
