(* ===== verification/Host_Framing.thy ===== *)
theory Host_Framing
  imports Verifier_Ipc Rust_Io
begin

text \<open>
  The reference host of the verifier (\<open>keylix-verifier/src/main.rs\<close>), first part: the command
  line, and the newline-delimited frames on the Unix socket with their absolute deadline.

  A connected socket is a record of operations on a state \<open>'s\<close>: the monotonic clock, the two
  timeouts, and partial reads and writes, each of which may fail. The loops are total functions:
  every round of the reading loop adds at least one byte to a bounded frame, every round of the
  writing loop takes at least one byte off the rest.
\<close>

section \<open>Constants and configuration\<close>

definition MAX_FRAME_BYTES :: nat where
  "MAX_FRAME_BYTES = MAX_VERIFIER_PAYLOAD_BYTES * 2"

text \<open>Durations are in milliseconds.\<close>

definition IO_TIMEOUT :: nat where
  "IO_TIMEOUT = 2000"

definition DEFAULT_REPLAY_CAPACITY :: nat where
  "DEFAULT_REPLAY_CAPACITY = 4096"

definition DEFAULT_NONCE_CAPACITY :: nat where
  "DEFAULT_NONCE_CAPACITY = 64"

record Config =
  cfg_socket :: str
  cfg_peer_credentials :: str
  cfg_replay_dir :: str
  cfg_nonce_context :: "str option"
  cfg_socket_group_gid :: "32 word option"
  cfg_replay_capacity :: nat
  cfg_nonce_capacity :: nat

datatype ParsedArgs = Help | Version | Serve Config

text \<open>\<open>usize\<close> has 64 bits on the platforms of the host.\<close>

definition parse_positive_usize :: "str \<Rightarrow> unit + nat" where
  "parse_positive_usize v =
     (case parse_unsigned 10 (2 ^ 64 - 1) v of
        None \<Rightarrow> Inl ()
      | Some parsed \<Rightarrow> if parsed > 0 then Inr parsed else Inl ())"

definition parse_positive_u32 :: "str \<Rightarrow> unit + 32 word" where
  "parse_positive_u32 v =
     (case parse_unsigned 10 (2 ^ 32 - 1) v of
        None \<Rightarrow> Inl ()
      | Some parsed \<Rightarrow> if parsed > 0 then Inr (word_of_nat parsed) else Inl ())"

text \<open>The local variables of \<open>parse_args\<close>.\<close>

record args_state =
  as_socket :: "str option"
  as_peer_credentials :: "str option"
  as_replay_dir :: "str option"
  as_nonce_context :: "str option"
  as_socket_group_gid :: "32 word option"
  as_replay_capacity :: nat
  as_nonce_capacity :: nat

definition args_initial :: args_state where
  "args_initial =
     \<lparr>as_socket = None, as_peer_credentials = None, as_replay_dir = None, as_nonce_context = None,
      as_socket_group_gid = None, as_replay_capacity = DEFAULT_REPLAY_CAPACITY,
      as_nonce_capacity = DEFAULT_NONCE_CAPACITY\<rparr>"

definition args_finish :: "args_state \<Rightarrow> unit + ParsedArgs" where
  "args_finish st =
     bindE (ok_or () (as_socket st)) (\<lambda>socket.
     bindE (ok_or () (as_peer_credentials st)) (\<lambda>peer_credentials.
     bindE (ok_or () (as_replay_dir st)) (\<lambda>replay_dir.
       Inr (Serve
         \<lparr>cfg_socket = socket, cfg_peer_credentials = peer_credentials, cfg_replay_dir = replay_dir,
          cfg_nonce_context = as_nonce_context st, cfg_socket_group_gid = as_socket_group_gid st,
          cfg_replay_capacity = as_replay_capacity st, cfg_nonce_capacity = as_nonce_capacity st\<rparr>))))"

text \<open>The loop over \<open>env::args().skip(1)\<close>; an option takes the next argument as its value.\<close>

fun args_loop :: "args_state \<Rightarrow> str list \<Rightarrow> unit + ParsedArgs" where
  "args_loop st [] = args_finish st"
| "args_loop st (argument # args) =
     (if argument = ''--help'' \<or> argument = ''-h'' then Inr Help
      else if argument = ''--version'' \<or> argument = ''-V'' then Inr Version
      else if argument = ''--socket'' then
        (case args of [] \<Rightarrow> Inl () | v # rest \<Rightarrow> args_loop (st\<lparr>as_socket := Some v\<rparr>) rest)
      else if argument = ''--peer-credentials'' then
        (case args of [] \<Rightarrow> Inl () | v # rest \<Rightarrow> args_loop (st\<lparr>as_peer_credentials := Some v\<rparr>) rest)
      else if argument = ''--replay-dir'' then
        (case args of [] \<Rightarrow> Inl () | v # rest \<Rightarrow> args_loop (st\<lparr>as_replay_dir := Some v\<rparr>) rest)
      else if argument = ''--require-nonce-context'' then
        (case args of [] \<Rightarrow> Inl () | v # rest \<Rightarrow> args_loop (st\<lparr>as_nonce_context := Some v\<rparr>) rest)
      else if argument = ''--socket-group-gid'' then
        (case args of
           [] \<Rightarrow> Inl ()
         | v # rest \<Rightarrow>
             (case parse_positive_u32 v of
                Inl e \<Rightarrow> Inl e
              | Inr gid \<Rightarrow> args_loop (st\<lparr>as_socket_group_gid := Some gid\<rparr>) rest))
      else if argument = ''--replay-capacity'' then
        (case args of
           [] \<Rightarrow> Inl ()
         | v # rest \<Rightarrow>
             (case parse_positive_usize v of
                Inl e \<Rightarrow> Inl e
              | Inr n \<Rightarrow> args_loop (st\<lparr>as_replay_capacity := n\<rparr>) rest))
      else if argument = ''--nonce-capacity'' then
        (case args of
           [] \<Rightarrow> Inl ()
         | v # rest \<Rightarrow>
             (case parse_positive_usize v of
                Inl e \<Rightarrow> Inl e
              | Inr n \<Rightarrow> args_loop (st\<lparr>as_nonce_capacity := n\<rparr>) rest))
      else Inl ())"

definition parse_args :: "str list \<Rightarrow> unit + ParsedArgs" where
  "parse_args args = args_loop args_initial args"

section \<open>Frames\<close>

text \<open>\<open>Instant\<close> is a number of milliseconds up to \<open>so_instant_max\<close>.\<close>

record 's sock_ops =
  so_instant_max :: nat
  so_now :: "'s \<Rightarrow> nat \<times> 's"
  so_set_read_timeout :: "nat \<Rightarrow> ('s, unit, unit) io"
  so_set_write_timeout :: "nat \<Rightarrow> ('s, unit, unit) io"
  so_read :: "nat \<Rightarrow> ('s, unit, bytes) io"
  so_write :: "bytes \<Rightarrow> ('s, unit, nat) io"
  so_flush :: "('s, unit, unit) io"

definition NEWLINE :: u8 where
  "NEWLINE = 0x0A"

definition CARRIAGE_RETURN :: u8 where
  "CARRIAGE_RETURN = 0x0D"

definition deadline_from :: "'s sock_ops \<Rightarrow> nat \<Rightarrow> nat \<Rightarrow> unit + nat" where
  "deadline_from so now timeout =
     (if now + timeout \<le> so_instant_max so then Inr (now + timeout) else Inl ())"

text \<open>What the reading loop does with a chunk that has a newline at position \<open>n\<close>.\<close>

definition trim_line :: "bytes \<Rightarrow> unit + bytes" where
  "trim_line line =
     (let frame = (if line \<noteq> [] \<and> last line = CARRIAGE_RETURN then butlast line else line)
      in if frame \<noteq> [] then Inr frame else Inl ())"

definition finish_frame :: "bytes \<Rightarrow> bytes \<Rightarrow> nat \<Rightarrow> unit + bytes" where
  "finish_frame frame chunk n =
     (if n + 1 \<noteq> length chunk then Inl () else trim_line (frame @ take n chunk))"

definition newline_position :: "bytes \<Rightarrow> nat option" where
  "newline_position chunk =
     (let n = length (takeWhile (\<lambda>b. b \<noteq> NEWLINE) chunk) in if n < length chunk then Some n else None)"

text \<open>One round: \<open>Inl\<close> ends the loop with its result, \<open>Inr\<close> goes on with a longer frame.\<close>

definition read_round :: "'s sock_ops \<Rightarrow> nat \<Rightarrow> bytes \<Rightarrow> 's \<Rightarrow> ((unit + bytes) + bytes) \<times> 's" where
  "read_round so deadline frame s =
     (case so_now so s of
        (now, s) \<Rightarrow>
      if deadline < now \<or> deadline - now = 0 then (Inl (Inl ()), s)
      else
      (case so_set_read_timeout so (deadline - now) s of
         (Inl _, s) \<Rightarrow> (Inl (Inl ()), s)
       | (Inr _, s) \<Rightarrow>
      if MAX_FRAME_BYTES \<le> length frame then (Inl (Inl ()), s)
      else
      (let chunk_len = min 4096 (MAX_FRAME_BYTES - length frame) in
       case so_read so chunk_len s of
         (Inl _, s) \<Rightarrow> (Inl (Inl ()), s)
       | (Inr bs, s) \<Rightarrow>
      (let chunk = take chunk_len bs in
       if chunk = [] then (Inl (Inl ()), s)
       else
         (case newline_position chunk of
            Some n \<Rightarrow> (Inl (finish_frame frame chunk n), s)
          | None \<Rightarrow> (Inr (frame @ chunk), s))))))"

lemma read_round_grows:
  "read_round so deadline frame s = (Inr frame', s') \<Longrightarrow>
   length frame < length frame' \<and> length frame' \<le> MAX_FRAME_BYTES"
  by (auto simp: read_round_def Let_def split: prod.splits if_splits sum.splits option.splits)

function read_frame_loop :: "'s sock_ops \<Rightarrow> nat \<Rightarrow> bytes \<Rightarrow> 's \<Rightarrow> (unit + bytes) \<times> 's" where
  "read_frame_loop so deadline frame s =
     (case read_round so deadline frame s of
        (Inl r, s) \<Rightarrow> (r, s)
      | (Inr frame, s) \<Rightarrow> read_frame_loop so deadline frame s)"
  by pat_completeness auto

termination
  by (relation "measure (\<lambda>(so, deadline, frame, s). MAX_FRAME_BYTES - length frame)")
    (auto dest!: read_round_grows [OF sym])

declare read_frame_loop.simps [simp del]

definition read_frame_with_timeout :: "'s sock_ops \<Rightarrow> nat \<Rightarrow> 's \<Rightarrow> (unit + bytes) \<times> 's" where
  "read_frame_with_timeout so timeout s =
     (case so_now so s of
        (now, s) \<Rightarrow>
      (case deadline_from so now timeout of
         Inl e \<Rightarrow> (Inl e, s)
       | Inr deadline \<Rightarrow> read_frame_loop so deadline [] s))"

definition read_frame :: "'s sock_ops \<Rightarrow> 's \<Rightarrow> (unit + bytes) \<times> 's" where
  "read_frame so s = read_frame_with_timeout so IO_TIMEOUT s"

function write_before_deadline :: "'s sock_ops \<Rightarrow> bytes \<Rightarrow> nat \<Rightarrow> 's \<Rightarrow> (unit + unit) \<times> 's" where
  "write_before_deadline so bs deadline s =
     (if bs = [] then (Inr (), s)
      else
        (case so_now so s of
           (now, s) \<Rightarrow>
         if deadline < now \<or> deadline - now = 0 then (Inl (), s)
         else
         (case so_set_write_timeout so (deadline - now) s of
            (Inl _, s) \<Rightarrow> (Inl (), s)
          | (Inr _, s) \<Rightarrow>
         (case so_write so bs s of
            (Inl _, s) \<Rightarrow> (Inl (), s)
          | (Inr written, s) \<Rightarrow>
              if written = 0 then (Inl (), s)
              else write_before_deadline so (drop written bs) deadline s))))"
  by pat_completeness auto

termination
  by (relation "measure (\<lambda>(so, bs, deadline, s). length bs)") auto

declare write_before_deadline.simps [simp del]

definition write_frame :: "'s sock_ops \<Rightarrow> bytes \<Rightarrow> 's \<Rightarrow> (unit + unit) \<times> 's" where
  "write_frame so frame s =
     (if frame = [] \<or> length frame > MAX_FRAME_BYTES then (Inl (), s)
      else
      (case so_now so s of
         (now, s) \<Rightarrow>
      (case deadline_from so now IO_TIMEOUT of
         Inl e \<Rightarrow> (Inl e, s)
       | Inr deadline \<Rightarrow>
      bindM (write_before_deadline so frame deadline) (\<lambda>_.
      bindM (write_before_deadline so [NEWLINE] deadline) (\<lambda>_.
        so_flush so)) s)))"

section \<open>The command line as options with values\<close>

text \<open>The loop takes one option with its value at a time.\<close>

definition option_value :: "str \<Rightarrow> str \<Rightarrow> (args_state \<Rightarrow> args_state) option" where
  "option_value name v =
     (if name = ''--socket'' then Some (\<lambda>st. st\<lparr>as_socket := Some v\<rparr>)
      else if name = ''--peer-credentials'' then Some (\<lambda>st. st\<lparr>as_peer_credentials := Some v\<rparr>)
      else if name = ''--replay-dir'' then Some (\<lambda>st. st\<lparr>as_replay_dir := Some v\<rparr>)
      else if name = ''--require-nonce-context'' then Some (\<lambda>st. st\<lparr>as_nonce_context := Some v\<rparr>)
      else if name = ''--socket-group-gid'' then
        (case parse_positive_u32 v of Inl _ \<Rightarrow> None | Inr gid \<Rightarrow> Some (\<lambda>st. st\<lparr>as_socket_group_gid := Some gid\<rparr>))
      else if name = ''--replay-capacity'' then
        (case parse_positive_usize v of Inl _ \<Rightarrow> None | Inr n \<Rightarrow> Some (\<lambda>st. st\<lparr>as_replay_capacity := n\<rparr>))
      else if name = ''--nonce-capacity'' then
        (case parse_positive_usize v of Inl _ \<Rightarrow> None | Inr n \<Rightarrow> Some (\<lambda>st. st\<lparr>as_nonce_capacity := n\<rparr>))
      else None)"

fun apply_options :: "(str \<times> str) list \<Rightarrow> args_state \<Rightarrow> args_state option" where
  "apply_options [] st = Some st"
| "apply_options ((name, v) # rest) st =
     (case option_value name v of None \<Rightarrow> None | Some f \<Rightarrow> apply_options rest (f st))"

fun command_line :: "(str \<times> str) list \<Rightarrow> str list" where
  "command_line [] = []"
| "command_line ((name, v) # rest) = name # v # command_line rest"

definition asks_help :: "str \<Rightarrow> bool" where
  "asks_help a \<longleftrightarrow> a = ''--help'' \<or> a = ''-h'' \<or> a = ''--version'' \<or> a = ''-V''"

lemma args_loop_option:
  "\<not> asks_help name \<Longrightarrow> args_loop st (name # v # rest) =
     (case option_value name v of None \<Rightarrow> Inl () | Some f \<Rightarrow> args_loop (f st) rest)"
  by (simp add: asks_help_def option_value_def split: sum.split)

lemma args_loop_last: "\<not> asks_help name \<Longrightarrow> args_loop st [name] = Inl ()"
  by (simp add: asks_help_def)

lemma option_value_help: "asks_help name \<Longrightarrow> option_value name v = None"
  by (auto simp: asks_help_def option_value_def)

lemma args_loop_Serve:
  "args_loop st args = Inr (Serve c) \<longleftrightarrow>
     (\<exists>opts st'. args = command_line opts \<and> apply_options opts st = Some st' \<and> args_finish st' = Inr (Serve c))"
proof (induction "length args" arbitrary: args st rule: less_induct)
  case less
  show ?case
  proof (cases args)
    case Nil
    have "command_line opts = [] \<longleftrightarrow> opts = []" for opts by (cases opts) auto
    then show ?thesis using Nil by (auto simp: eq_commute [of "[]"])
  next
    case (Cons name args')
    have shape: "args = command_line opts \<longleftrightarrow> (\<exists>v rest opts'. args' = v # rest \<and> opts = (name, v) # opts' \<and> rest = command_line opts')"
      for opts using Cons by (cases opts rule: command_line.cases) auto
    show ?thesis
    proof (cases "asks_help name")
      case True
      then have "args_loop st args \<noteq> Inr (Serve c)" using Cons by (auto simp: asks_help_def)
      moreover have "apply_options ((name, v) # opts) st = None" for v opts
        using True by (simp add: option_value_help)
      ultimately show ?thesis by (auto simp: shape)
    next
      case False
      show ?thesis
      proof (cases args')
        case Nil
        then have "args_loop st args = Inl ()" using Cons args_loop_last [OF False] by (simp only:)
        then show ?thesis unfolding shape Nil by simp
      next
        case (Cons v rest)
        have eq: "args_loop st args = (case option_value name v of None \<Rightarrow> Inl () | Some f \<Rightarrow> args_loop (f st) rest)"
          using \<open>args = name # args'\<close> Cons args_loop_option [OF False] by simp
        have IH: "args_loop st'' rest = Inr (Serve c) \<longleftrightarrow>
            (\<exists>opts st'. rest = command_line opts \<and> apply_options opts st'' = Some st' \<and> args_finish st' = Inr (Serve c))" for st''
          using less [of rest st''] \<open>args = name # args'\<close> Cons by simp
        show ?thesis
          unfolding eq shape Cons by (auto simp: IH split: option.split)
      qed
    qed
  qed
qed

subsection \<open>Numbers and the values that count\<close>

lemma radix_digits_value:
  assumes "2 \<le> b"
  shows "ds \<noteq> [] \<Longrightarrow> hd ds \<noteq> 0 \<Longrightarrow> list_all (\<lambda>d. d < b) ds \<Longrightarrow> radix_digits b (radix_value b ds) = ds"
proof (induction ds rule: rev_induct)
  case (snoc d ds)
  show ?case
  proof (cases "ds = []")
    case True
    then show ?thesis using snoc.prems(3) by (simp add: radix_digits.simps [of b d] radix_value_def)
  next
    case False
    then have IH: "radix_digits b (radix_value b ds) = ds" using snoc by simp
    have "ds = [0]" if "radix_value b ds = 0"
      using IH assms unfolding that by (simp add: radix_digits.simps [of b 0])
    then have "radix_value b ds \<noteq> 0" using snoc.prems(2) by (metis False hd_append2 list.sel(1))
    then have "b \<le> radix_value b ds * b + d" by (simp add: trans_le_add1)
    moreover have "(radix_value b ds * b + d) div b = radix_value b ds" "(radix_value b ds * b + d) mod b = d"
      using snoc.prems(3) by simp_all
    ultimately show ?thesis
      using IH assms unfolding radix_value_snoc by (simp add: radix_digits.simps [of b "radix_value b ds * b + d"])
  qed
qed simp

text \<open>The text of a positive number: an optional plus sign and leading zeros before its decimal digits.\<close>

definition denotes :: "str \<Rightarrow> nat \<Rightarrow> bool" where
  "denotes v n \<longleftrightarrow> 0 < n \<and>
     dropWhile (\<lambda>ch. ch = CHR ''0'') (if take 1 v = ''+'' then tl v else v) = nat_to_string n"

lemma digit_char_to_digit: "is_digit_of 10 ch \<Longrightarrow> digit_char (the (to_digit 10 ch)) = ch \<and> the (to_digit 10 ch) < 10"
  by (auto simp: is_digit_of_def to_digit_def digit_char_def Let_def split: if_splits)

lemma digits_value_zero: "digits_value 10 (CHR ''0'' # s) = digits_value 10 s"
proof -
  have "to_digit 10 (CHR ''0'') = Some 0" by code_simp
  then show ?thesis by (simp add: digits_value_def radix_value_def)
qed

lemma digits_value_drop_zeros: "digits_value 10 (dropWhile (\<lambda>ch. ch = CHR ''0'') s) = digits_value 10 s"
  by (induction s) (simp_all add: digits_value_zero)

lemma fmt_digits_value:
  assumes "s \<noteq> []" "hd s \<noteq> CHR ''0''" "list_all (is_digit_of 10) s"
  shows "nat_to_string (digits_value 10 s) = s"
proof -
  let ?ds = "map (\<lambda>ch. the (to_digit 10 ch)) s"
  have same: "map digit_char ?ds = s"
    using assms(3) digit_char_to_digit by (auto simp: list_all_iff intro!: map_idI)
  have "digit_char (hd ?ds) = hd s" using assms(1) same by (metis hd_map map_is_Nil_conv)
  then have "hd ?ds \<noteq> 0" using assms(2) digit_char_zero [of 0] by (metis zero_less_numeral)
  then have "radix_digits 10 (radix_value 10 ?ds) = ?ds"
    using assms(1,3) digit_char_to_digit by (intro radix_digits_value) (auto simp: list_all_iff)
  then show ?thesis using same by (simp only: fmt_radix_def digits_value_def)
qed

lemma digits_denote:
  "s \<noteq> [] \<and> list_all (is_digit_of 10) s \<and> digits_value 10 s = n \<and> 0 < n \<longleftrightarrow>
   0 < n \<and> dropWhile (\<lambda>ch. ch = CHR ''0'') s = nat_to_string n"
proof -
  let ?t = "dropWhile (\<lambda>ch. ch = CHR ''0'') s"
  have zero: "is_digit_of 10 (CHR ''0'')" by code_simp
  have digits: "list_all (is_digit_of 10) s \<longleftrightarrow> list_all (is_digit_of 10) ?t"
    by (induction s) (simp_all add: zero)
  have empty: "digits_value 10 [] = 0" by (simp add: digits_value_def radix_value_def)
  show ?thesis
  proof (intro iffI conjI; elim conjE)
    assume s: "list_all (is_digit_of 10) s" "digits_value 10 s = n" "0 < n"
    then have "?t \<noteq> []" using digits_value_drop_zeros [of s] empty by (metis less_irrefl)
    moreover from this have "hd ?t \<noteq> CHR ''0''" using hd_dropWhile [of "\<lambda>ch. ch = CHR ''0''" s] by simp
    ultimately have "nat_to_string (digits_value 10 ?t) = ?t" using s(1) digits by (intro fmt_digits_value) simp_all
    then show "?t = nat_to_string n" using s(2) by (simp only: digits_value_drop_zeros)
  next
    assume t: "0 < n" "?t = nat_to_string n"
    then show "list_all (is_digit_of 10) s" "digits_value 10 s = n" "s \<noteq> []"
      using digits fmt_radix_digits [of 10 _ n] digits_value_drop_zeros [of s] digits_value_fmt [of 10 n]
        fmt_radix_nonempty [of 10 n] empty
      by (auto simp: list_all_iff)
  qed simp_all
qed

lemma parse_unsigned_denotes:
  "parse_unsigned 10 bound v = Some n \<and> 0 < n \<longleftrightarrow> denotes v n \<and> n \<le> bound"
proof -
  define s where "s = (if take 1 v = ''+'' then tl v else v)"
  have "(case v of c # cs \<Rightarrow> if c = CHR ''+'' then cs else v | [] \<Rightarrow> []) = s"
    by (cases v) (simp_all add: s_def)
  then show ?thesis
    using digits_denote [of s n] unfolding parse_unsigned_def Let_def denotes_def s_def [symmetric]
    by (auto split: if_splits)
qed

lemma parse_positive_usize_iff: "parse_positive_usize v = Inr n \<longleftrightarrow> denotes v n \<and> n < 2 ^ 64"
  using parse_unsigned_denotes [of "2 ^ 64 - 1" v n]
  by (auto simp: parse_positive_usize_def split: option.splits)

lemma parse_positive_u32_iff: "parse_positive_u32 v = Inr g \<longleftrightarrow> denotes v (unat g)"
proof -
  have max: "unat h \<le> 2 ^ 32 - 1" for h :: "32 word" using unsigned_less [of h, where 'a = nat] by simp
  have "parse_positive_u32 v = Inr g \<longleftrightarrow> parse_unsigned 10 (2 ^ 32 - 1) v = Some (unat g) \<and> 0 < unat g"
  proof (cases "parse_unsigned 10 (2 ^ 32 - 1) v")
    case (Some n)
    then have "n \<le> 2 ^ 32 - 1" by (auto simp: parse_unsigned_def Let_def split: if_splits)
    then have "unat (word_of_nat n :: 32 word) = n" by (simp add: unat_of_nat take_bit_eq_mod)
    then show ?thesis using Some by (auto simp: parse_positive_u32_def)
  qed (simp add: parse_positive_u32_def)
  then show ?thesis using parse_unsigned_denotes [of "2 ^ 32 - 1" v "unat g"] max [of g] by simp
qed

lemma denotes_inj: "denotes v m \<Longrightarrow> denotes v n \<Longrightarrow> m = n"
proof -
  assume "denotes v m" "denotes v n"
  then have "nat_to_string m = nat_to_string n" by (simp only: denotes_def)
  then have "digits_value 10 (nat_to_string m) = digits_value 10 (nat_to_string n)" by (rule arg_cong)
  then show ?thesis by (simp add: digits_value_fmt)
qed

text \<open>The known options with their values, and the last value that is given for an option.\<close>

definition valid_option :: "str \<times> str \<Rightarrow> bool" where
  "valid_option opt \<longleftrightarrow>
     (case opt of (name, v) \<Rightarrow>
        name \<in> {''--socket'', ''--peer-credentials'', ''--replay-dir'', ''--require-nonce-context''} \<or>
        name = ''--socket-group-gid'' \<and> (\<exists>n < 2 ^ 32. denotes v n) \<or>
        name \<in> {''--replay-capacity'', ''--nonce-capacity''} \<and> (\<exists>n < 2 ^ 64. denotes v n))"

definition given :: "(str \<times> str) list \<Rightarrow> str \<Rightarrow> str option" where
  "given opts name = map_of (rev opts) name"

lemma given_simps [simp]:
  "given [] name = None"
  "name \<noteq> m \<Longrightarrow> given ((m, v) # opts) name = given opts name"
  by (simp_all add: given_def map_add_def split: option.split)

lemma option_value_valid: "option_value name v \<noteq> None \<longleftrightarrow> valid_option (name, v)"
proof -
  have gid: "(\<exists>g. parse_positive_u32 v = Inr g) \<longleftrightarrow> (\<exists>n < 2 ^ 32. denotes v n)"
  proof
    assume "\<exists>n < 2 ^ 32. denotes v n"
    then obtain n where "n < 2 ^ 32" "denotes v n" by blast
    then have "denotes v (unat (word_of_nat n :: 32 word))" by (simp add: unat_of_nat take_bit_eq_mod)
    then show "\<exists>g. parse_positive_u32 v = Inr g" unfolding parse_positive_u32_iff by blast
  next
    assume "\<exists>g. parse_positive_u32 v = Inr g"
    then obtain g :: "32 word" where "denotes v (unat g)" unfolding parse_positive_u32_iff by blast
    then show "\<exists>n < 2 ^ 32. denotes v n" using unsigned_less [of g, where 'a = nat] by auto
  qed
  have number: "(\<exists>n. parse_positive_usize v = Inr n) \<longleftrightarrow> (\<exists>n < 2 ^ 64. denotes v n)"
    by (auto simp: parse_positive_usize_iff)
  show ?thesis
    unfolding valid_option_def prod.case gid [symmetric] number [symmetric]
    by (auto simp: option_value_def split: sum.splits)
qed

text \<open>The variables after the loop: the last value, read by \<open>f\<close>, or what the variable was before.\<close>

definition value_or :: "'a \<Rightarrow> (str \<Rightarrow> 'a) \<Rightarrow> str option \<Rightarrow> 'a" where
  "value_or d f x = (case x of None \<Rightarrow> d | Some v \<Rightarrow> f v)"

definition gid_of :: "str \<Rightarrow> 32 word option" where
  "gid_of v = (case parse_positive_u32 v of Inr g \<Rightarrow> Some g | Inl _ \<Rightarrow> None)"

definition number_of :: "str \<Rightarrow> nat" where
  "number_of v = (case parse_positive_usize v of Inr n \<Rightarrow> n | Inl _ \<Rightarrow> 0)"

lemma value_or_given [simp]:
  "value_or d f None = d"
  "value_or d f (given ((name, v) # opts) name) = value_or (f v) f (given opts name)"
  by (simp_all add: value_or_def given_def map_add_def split: option.split)

lemma apply_options_iff:
  "apply_options opts st = Some st' \<longleftrightarrow> list_all valid_option opts \<and>
     st' = \<lparr>as_socket = value_or (as_socket st) Some (given opts ''--socket''),
       as_peer_credentials = value_or (as_peer_credentials st) Some (given opts ''--peer-credentials''),
       as_replay_dir = value_or (as_replay_dir st) Some (given opts ''--replay-dir''),
       as_nonce_context = value_or (as_nonce_context st) Some (given opts ''--require-nonce-context''),
       as_socket_group_gid = value_or (as_socket_group_gid st) gid_of (given opts ''--socket-group-gid''),
       as_replay_capacity = value_or (as_replay_capacity st) number_of (given opts ''--replay-capacity''),
       as_nonce_capacity = value_or (as_nonce_capacity st) number_of (given opts ''--nonce-capacity'')\<rparr>"
proof (induction opts arbitrary: st)
  case Nil
  then show ?case by auto
next
  case (Cons opt opts)
  obtain name v where opt: "opt = (name, v)" by fastforce
  show ?case
  proof (cases "option_value name v")
    case None
    then show ?thesis using option_value_valid [of name v] by (simp add: opt)
  next
    case (Some f)
    then have "valid_option opt" using option_value_valid [of name v] by (simp add: opt)
    have "name \<in> {''--socket'', ''--peer-credentials'', ''--replay-dir'', ''--require-nonce-context'',
        ''--socket-group-gid'', ''--replay-capacity'', ''--nonce-capacity''}"
      using \<open>valid_option opt\<close> by (auto simp: opt valid_option_def)
    then show ?thesis
      using Some \<open>valid_option opt\<close>
      by (elim insertE emptyE)
        (auto simp: opt Cons.IH gid_of_def number_of_def option_value_def split: sum.splits)
  qed
qed

lemma given_valid: "list_all valid_option opts \<Longrightarrow> given opts name = Some v \<Longrightarrow> valid_option (name, v)"
  by (auto simp: given_def list_all_iff dest: map_of_SomeD)

lemma given_gid:
  assumes "list_all valid_option opts"
  shows "value_or None gid_of (given opts ''--socket-group-gid'') = gid \<longleftrightarrow>
    (case given opts ''--socket-group-gid'' of None \<Rightarrow> gid = None | Some v \<Rightarrow> (\<exists>g. gid = Some g \<and> denotes v (unat g)))"
proof (cases "given opts ''--socket-group-gid''")
  case (Some v)
  then have "option_value ''--socket-group-gid'' v \<noteq> None" using given_valid [OF assms] option_value_valid by blast
  then obtain g where g: "parse_positive_u32 v = Inr g" by (auto simp: option_value_def split: sum.splits)
  then have "denotes v (unat h) \<longleftrightarrow> h = g" for h by (metis Inr_inject parse_positive_u32_iff)
  then show ?thesis using Some g by (auto simp: value_or_def gid_of_def)
qed (auto simp: value_or_def)

lemma given_number:
  assumes "list_all valid_option opts" "name = ''--replay-capacity'' \<or> name = ''--nonce-capacity''"
  shows "value_or d number_of (given opts name) = n \<longleftrightarrow>
    (case given opts name of None \<Rightarrow> n = d | Some v \<Rightarrow> denotes v n)"
proof (cases "given opts name")
  case (Some v)
  then have "valid_option (name, v)" using given_valid [OF assms(1)] by blast
  then obtain m where m: "denotes v m" "m < 2 ^ 64" using assms(2) by (auto simp: valid_option_def)
  then have "parse_positive_usize v = Inr m" by (simp add: parse_positive_usize_iff)
  then show ?thesis using Some m(1) denotes_inj [of v] by (auto simp: value_or_def number_of_def)
qed (auto simp: value_or_def)

section \<open>Frames that were read and written\<close>

lemma newline_position_None: "newline_position chunk = None \<longleftrightarrow> NEWLINE \<notin> set chunk"
proof -
  have "length (takeWhile (\<lambda>b. b \<noteq> NEWLINE) chunk) < length chunk \<longleftrightarrow> NEWLINE \<in> set chunk"
    by (induction chunk) auto
  then show ?thesis by (simp add: newline_position_def Let_def)
qed

lemma newline_position_Some:
  assumes "newline_position chunk = Some n"
  shows "n < length chunk" "NEWLINE \<notin> set (take n chunk)" "chunk ! n = NEWLINE"
proof -
  have n: "n = length (takeWhile (\<lambda>b. b \<noteq> NEWLINE) chunk)" "n < length chunk"
    using assms by (auto simp: newline_position_def Let_def split: if_splits)
  then show "n < length chunk" by simp
  have "take n chunk = takeWhile (\<lambda>b. b \<noteq> NEWLINE) chunk"
    unfolding n(1) by (rule takeWhile_eq_take [symmetric])
  then show "NEWLINE \<notin> set (take n chunk)" by (auto dest: set_takeWhileD)
  show "chunk ! n = NEWLINE"
    using nth_length_takeWhile [of "\<lambda>b. b \<noteq> NEWLINE" chunk] n by simp
qed

lemma finish_frame_Inr:
  assumes "finish_frame frame chunk n = Inr f" "newline_position chunk = Some n" "NEWLINE \<notin> set frame"
    "length frame + length chunk \<le> MAX_FRAME_BYTES"
  shows "f \<noteq> [] \<and> length f < MAX_FRAME_BYTES \<and> NEWLINE \<notin> set f"
proof -
  let ?line = "frame @ take n chunk"
  have f: "f = (if ?line \<noteq> [] \<and> last ?line = CARRIAGE_RETURN then butlast ?line else ?line)" "f \<noteq> []"
    using assms(1) by (auto simp: finish_frame_def trim_line_def Let_def split: if_splits)
  have "NEWLINE \<notin> set ?line" "length ?line < MAX_FRAME_BYTES"
    using newline_position_Some [OF assms(2)] assms(3,4) by auto
  moreover have "set f \<subseteq> set ?line" "length f \<le> length ?line"
    unfolding f(1) by (auto dest: in_set_butlastD)
  ultimately show ?thesis using f(2) by (meson le_less_trans subsetD)
qed

lemma read_frame_loop_Inr:
  assumes "read_frame_loop so deadline frame s = (Inr f, s')" "NEWLINE \<notin> set frame"
  shows "f \<noteq> [] \<and> length f < MAX_FRAME_BYTES \<and> NEWLINE \<notin> set f"
  using assms
proof (induction so deadline frame s rule: read_frame_loop.induct)
  case (1 so deadline frame s)
  obtain r s1 where r: "read_round so deadline frame s = (r, s1)" by fastforce
  show ?case
  proof (cases r)
    case (Inl q)
    then have "q = Inr f" using 1(2) r by (subst (asm) read_frame_loop.simps) simp
    then obtain chunk n where "finish_frame frame chunk n = Inr f" "newline_position chunk = Some n"
      "length frame + length chunk \<le> MAX_FRAME_BYTES"
      using r Inl by (auto simp: read_round_def Let_def split: prod.splits if_splits sum.splits option.splits)
    then show ?thesis using finish_frame_Inr 1(3) by blast
  next
    case (Inr frame')
    have "NEWLINE \<notin> set frame'"
      using r Inr 1(3) newline_position_None
      by (auto simp: read_round_def Let_def split: prod.splits if_splits sum.splits option.splits)
    moreover have "read_frame_loop so deadline frame' s1 = (Inr f, s')"
      using 1(2) r Inr by (subst (asm) read_frame_loop.simps) simp
    ultimately show ?thesis using 1(1) [OF r [symmetric] Inr] by blast
  qed
qed

lemma read_frame_Inr:
  assumes "read_frame so s = (Inr f, s')"
  shows "f \<noteq> [] \<and> length f < MAX_FRAME_BYTES \<and> NEWLINE \<notin> set f"
  using assms read_frame_loop_Inr [of so _ "[]" _ f s']
  by (auto simp: read_frame_def read_frame_with_timeout_def split: prod.splits sum.splits)

text \<open>\<open>out s\<close> is what was sent so far; a write that fails may have sent a part.\<close>

locale byte_sink =
  fixes so :: "'s sock_ops" and out :: "'s \<Rightarrow> bytes"
  assumes now_law: "out (snd (so_now so s)) = out s"
    and timeout_law: "out (snd (so_set_write_timeout so t s)) = out s"
    and write_law: "so_write so bs s = (r, s') \<Longrightarrow>
      \<exists>n \<le> length bs. out s' = out s @ take n bs \<and> (\<forall>m. r = Inr m \<longrightarrow> m = n)"
    and flush_law: "out (snd (so_flush so s)) = out s"
begin

text \<open>A prefix is sent, and everything when it succeeds.\<close>

lemma write_before_deadline_sends:
  "write_before_deadline so bs deadline s = (r, s') \<Longrightarrow>
   \<exists>n \<le> length bs. out s' = out s @ take n bs \<and> (r = Inr () \<longrightarrow> n = length bs)"
proof (induction "length bs" arbitrary: bs s rule: less_induct)
  case less
  obtain now s1 where s1: "so_now so s = (now, s1)" by fastforce
  obtain q s2 where s2: "so_set_write_timeout so (deadline - now) s1 = (q, s2)" by fastforce
  obtain w s3 where s3: "so_write so bs s2 = (w, s3)" by fastforce
  have out: "out s1 = out s" "out s2 = out s"
    using now_law [of s] timeout_law [of "deadline - now" s1] s1 s2 by simp_all
  obtain n where n: "n \<le> length bs" "out s3 = out s @ take n bs" "\<forall>m. w = Inr m \<longrightarrow> m = n"
    using write_law [OF s3] out by auto
  show ?case
  proof (cases "bs = []")
    case True
    then show ?thesis using less.prems by (subst (asm) write_before_deadline.simps) auto
  next
    case False
    note step = less.prems [unfolded write_before_deadline.simps [of so bs], simplified s1 s2 s3 False]
    show ?thesis
    proof (cases "\<exists>m. w = Inr m \<and> m \<noteq> 0 \<and> \<not> (deadline < now \<or> deadline - now = 0) \<and> (\<exists>u. q = Inr u)")
      case True
      then have rec: "write_before_deadline so (drop n bs) deadline s3 = (r, s')" "0 < n"
        using step n(3) s2 s3 by (auto split: if_splits)
      then obtain k where k: "k \<le> length (drop n bs)" "out s' = out s3 @ take k (drop n bs)"
        "r = Inr () \<longrightarrow> k = length (drop n bs)"
        using less.hyps [of "drop n bs" s3] False by auto
      then show ?thesis
        using n by (intro exI [of _ "n + k"]) (auto simp: take_add)
    next
      case stop: False
      then have "r = Inl () \<and> (s' = s1 \<or> s' = s2 \<or> s' = s3)"
        using step s2 s3 by (auto split: if_splits sum.splits)
      then show ?thesis
        using out n by (auto intro: exI [of _ 0] exI [of _ n])
    qed
  qed
qed

lemma write_frame_sends:
  assumes "write_frame so f s = (r, s')"
  shows "\<exists>n \<le> length f + 1. out s' = out s @ take n (f @ [NEWLINE]) \<and> (r = Inr () \<longrightarrow> n = length f + 1)"
proof (cases "f = [] \<or> length f > MAX_FRAME_BYTES")
  case True
  then show ?thesis using assms by (auto simp: write_frame_def)
next
  case False
  obtain now s0 where s0: "so_now so s = (now, s0)" by fastforce
  have out0: "out s0 = out s" using now_law [of s] s0 by simp
  show ?thesis
  proof (cases "deadline_from so now IO_TIMEOUT")
    case (Inl e)
    then have "s' = s0 \<and> r = Inl e" using assms False s0 by (simp add: write_frame_def)
    then show ?thesis using out0 by auto
  next
    case (Inr deadline)
    obtain r1 s1 where s1: "write_before_deadline so f deadline s0 = (r1, s1)" by fastforce
    obtain n where n: "n \<le> length f" "out s1 = out s @ take n f" "r1 = Inr () \<longrightarrow> n = length f"
      using write_before_deadline_sends [OF s1] out0 by auto
    show ?thesis
    proof (cases r1)
      case (Inl e)
      then have "s' = s1 \<and> r = Inl e" using assms False s0 Inr s1 by (simp add: write_frame_def bindM_def)
      then show ?thesis using n by (intro exI [of _ n]) simp
    next
      case first: (Inr u)
      obtain r2 s2 where s2: "write_before_deadline so [NEWLINE] deadline s1 = (r2, s2)" by fastforce
      obtain m where m: "m \<le> 1" "out s2 = out s1 @ take m [NEWLINE]" "r2 = Inr () \<longrightarrow> m = 1"
        using write_before_deadline_sends [OF s2] by auto
      have "out s' = out s2" "r = Inr () \<longrightarrow> r2 = Inr ()"
        using assms False s0 Inr s1 first s2 flush_law [of s2]
        by (cases r2; auto simp: write_frame_def bindM_def)+
      then show ?thesis
        using n m first by (intro exI [of _ "length f + m"]) (cases m; auto)
    qed
  qed
qed

end

section \<open>A pipe\<close>

text \<open>A connected socket: the chunks that will arrive, the bytes sent, and the readings of the clock.
  A write takes at most \<open>pi_window\<close> bytes.\<close>

record pipe =
  pi_in :: "bytes list"
  pi_out :: bytes
  pi_clock :: "nat list"
  pi_window :: nat

definition pipe_now :: "pipe \<Rightarrow> nat \<times> pipe" where
  "pipe_now s = (case pi_clock s of [] \<Rightarrow> (0, s) | t # ts \<Rightarrow> (t, s\<lparr>pi_clock := ts\<rparr>))"

definition pipe_read :: "nat \<Rightarrow> (pipe, unit, bytes) io" where
  "pipe_read k s =
     (case pi_in s of
        [] \<Rightarrow> (Inr [], s)
      | c # cs \<Rightarrow>
          if length c \<le> k then (Inr c, s\<lparr>pi_in := cs\<rparr>) else (Inr (take k c), s\<lparr>pi_in := drop k c # cs\<rparr>))"

definition pipe_write :: "bytes \<Rightarrow> (pipe, unit, nat) io" where
  "pipe_write bs s =
     (let n = min (pi_window s) (length bs) in (Inr n, s\<lparr>pi_out := pi_out s @ take n bs\<rparr>))"

definition pipe_ops :: "pipe sock_ops" where
  "pipe_ops = \<lparr>so_instant_max = 2 ^ 63, so_now = pipe_now, so_set_read_timeout = (\<lambda>_. ret ()),
     so_set_write_timeout = (\<lambda>_. ret ()), so_read = pipe_read, so_write = pipe_write, so_flush = ret ()\<rparr>"

interpretation pipe: byte_sink pipe_ops pi_out
  by unfold_locales
    (auto simp: pipe_ops_def pipe_now_def pipe_write_def ret_def Let_def split: list.splits)

text \<open>The other end: \<open>pending s\<close> is what is still to arrive, and while \<open>prompt deadline s\<close> holds, the clock has not
  reached the deadline and reads do not fail. A read takes any non-empty prefix of what is pending.\<close>

locale byte_source =
  fixes so :: "'s sock_ops" and pending :: "'s \<Rightarrow> bytes" and prompt :: "nat \<Rightarrow> 's \<Rightarrow> bool"
  assumes clock_law: "prompt d s \<Longrightarrow> so_now so s = (t, s') \<Longrightarrow> t < d \<and> prompt d s' \<and> pending s' = pending s"
    and read_timeout_law: "prompt d s \<Longrightarrow> 0 < t \<Longrightarrow> so_set_read_timeout so t s = (q, s') \<Longrightarrow>
      q = Inr () \<and> prompt d s' \<and> pending s' = pending s"
    and read_law: "prompt d s \<Longrightarrow> pending s \<noteq> [] \<Longrightarrow> 0 < k \<Longrightarrow> so_read so k s = (r, s') \<Longrightarrow>
      \<exists>c. r = Inr c \<and> c \<noteq> [] \<and> length c \<le> k \<and> pending s = c @ pending s' \<and> prompt d s'"
begin

text \<open>One round: nothing but the length of the frame can stop it.\<close>

lemma source_round:
  assumes "prompt deadline s" "pending s \<noteq> []"
  shows "\<exists>s'. MAX_FRAME_BYTES \<le> length frame \<and> read_round so deadline frame s = (Inl (Inl ()), s') \<or>
    (\<exists>c. c \<noteq> [] \<and> length frame + length c \<le> MAX_FRAME_BYTES \<and> pending s = c @ pending s' \<and> prompt deadline s' \<and>
       read_round so deadline frame s =
         (case newline_position c of Some n \<Rightarrow> Inl (finish_frame frame c n) | None \<Rightarrow> Inr (frame @ c), s'))"
proof -
  obtain now s1 where s1: "so_now so s = (now, s1)" by fastforce
  note now = clock_law [OF assms(1) s1]
  obtain q s2 where s2: "so_set_read_timeout so (deadline - now) s1 = (q, s2)" by fastforce
  have q: "q = Inr ()" "prompt deadline s2" "pending s2 = pending s"
    using read_timeout_law [OF _ _ s2] now by auto
  show ?thesis
  proof (cases "MAX_FRAME_BYTES \<le> length frame")
    case True
    then show ?thesis using s1 s2 now q(1) by (auto simp: read_round_def)
  next
    case False
    define k where "k = min 4096 (MAX_FRAME_BYTES - length frame)"
    obtain r s3 where s3: "so_read so k s2 = (r, s3)" by fastforce
    obtain c where c: "r = Inr c" "c \<noteq> []" "length c \<le> k" "pending s = c @ pending s3" "prompt deadline s3"
      using read_law [OF q(2) _ _ s3] assms(2) q(3) False unfolding k_def by auto
    have "read_round so deadline frame s =
        (case newline_position c of Some n \<Rightarrow> Inl (finish_frame frame c n) | None \<Rightarrow> Inr (frame @ c), s3)"
      using s1 s2 s3 c(1-3) now q(1) False unfolding k_def
      by (simp add: read_round_def Let_def split: option.split)
    moreover have "length frame + length c \<le> MAX_FRAME_BYTES" using c(3) False unfolding k_def by linarith
    ultimately show ?thesis using c by blast
  qed
qed

text \<open>A line that is too long is refused; otherwise the loop ends with the line.\<close>

lemma source_loop:
  assumes "prompt deadline s" "frame @ pending s = line @ [NEWLINE]" "NEWLINE \<notin> set line" "NEWLINE \<notin> set frame"
  shows "fst (read_frame_loop so deadline frame s) = (if length line < MAX_FRAME_BYTES then trim_line line else Inl ())"
  using assms
proof (induction "length (pending s)" arbitrary: frame s rule: less_induct)
  case less
  have "pending s \<noteq> []" using less.prems(2,4) by auto
  then have len: "length frame \<le> length line" using arg_cong [OF less.prems(2), of length] by (cases "pending s") auto
  from source_round [OF less.prems(1) \<open>pending s \<noteq> []\<close>, of frame] obtain s' where
    "MAX_FRAME_BYTES \<le> length frame \<and> read_round so deadline frame s = (Inl (Inl ()), s') \<or>
    (\<exists>c. c \<noteq> [] \<and> length frame + length c \<le> MAX_FRAME_BYTES \<and> pending s = c @ pending s' \<and> prompt deadline s' \<and>
       read_round so deadline frame s =
         (case newline_position c of Some n \<Rightarrow> Inl (finish_frame frame c n) | None \<Rightarrow> Inr (frame @ c), s'))" ..
  then show ?case
  proof (elim disjE exE conjE)
    assume "MAX_FRAME_BYTES \<le> length frame" "read_round so deadline frame s = (Inl (Inl ()), s')"
    then show ?thesis using len by (subst read_frame_loop.simps) simp
  next
    fix c
    assume c: "c \<noteq> []" "length frame + length c \<le> MAX_FRAME_BYTES" "pending s = c @ pending s'" "prompt deadline s'"
      and round: "read_round so deadline frame s =
        (case newline_position c of Some n \<Rightarrow> Inl (finish_frame frame c n) | None \<Rightarrow> Inr (frame @ c), s')"
    show ?thesis
    proof (cases "newline_position c")
      case None
      then have "NEWLINE \<notin> set c" using newline_position_None [of c] by simp
      then have "fst (read_frame_loop so deadline (frame @ c) s') = (if length line < MAX_FRAME_BYTES then trim_line line else Inl ())"
        using c less.prems by (intro less.hyps) auto
      then show ?thesis using round None by (subst read_frame_loop.simps) simp
    next
      case (Some n)
      note n = newline_position_Some [OF Some]
      have "c = take n c @ NEWLINE # drop (Suc n) c" using n by (metis id_take_nth_drop)
      then have "(frame @ take n c) @ NEWLINE # (drop (Suc n) c @ pending s') = line @ NEWLINE # []"
        using less.prems(2) c(3) by (metis append.assoc append_Cons)
      then have "frame @ take n c = line \<and> drop (Suc n) c @ pending s' = []"
        using append_sep_inj [of NEWLINE "frame @ take n c" line] less.prems(3,4) n(2) by auto
      then have *: "n + 1 = length c" "frame @ take n c = line" using n(1) by auto
      then have "length line < MAX_FRAME_BYTES" using c(2) by auto
      then show ?thesis using round Some * by (subst read_frame_loop.simps) (simp add: finish_frame_def)
    qed
  qed
qed

lemma source_read_frame:
  assumes "so_now so s = (t, s1)" "t + IO_TIMEOUT \<le> so_instant_max so" "prompt (t + IO_TIMEOUT) s1"
    and "pending s1 = line @ [NEWLINE]" "NEWLINE \<notin> set line"
  shows "fst (read_frame so s) = (if length line < MAX_FRAME_BYTES then trim_line line else Inl ())"
  using source_loop [OF assms(3), of "[]" line] assms
  by (simp add: read_frame_def read_frame_with_timeout_def deadline_from_def)

end

text \<open>A pipe is prompt when no chunk is empty and every reading of the clock is before the deadline.\<close>

definition pipe_prompt :: "nat \<Rightarrow> pipe \<Rightarrow> bool" where
  "pipe_prompt deadline s \<longleftrightarrow> 0 < deadline \<and> list_all (\<lambda>t. t < deadline) (pi_clock s) \<and> list_all (\<lambda>c. c \<noteq> []) (pi_in s)"

interpretation pipe_in: byte_source pipe_ops "\<lambda>s. concat (pi_in s)" pipe_prompt
proof (unfold_locales, goal_cases)
  case (1 d s t s')
  then show ?case by (auto simp: pipe_ops_def pipe_now_def pipe_prompt_def split: list.splits)
next
  case (2 d s t r s')
  then show ?case by (simp add: pipe_ops_def ret_def)
next
  case (3 d s k r s')
  then show ?case
    by (cases "pi_in s") (auto simp: pipe_ops_def pipe_read_def pipe_prompt_def split: if_splits)
qed

lemma pipe_read_frame:
  assumes "concat (pi_in s) = line @ [NEWLINE]" "[] \<notin> set (pi_in s)" "NEWLINE \<notin> set line"
    and "length line < MAX_FRAME_BYTES" "pi_clock s = t # ts" "\<forall>u \<in> set ts. u < t + IO_TIMEOUT" "t + IO_TIMEOUT \<le> 2 ^ 63"
  shows "fst (read_frame pipe_ops s) = trim_line line"
proof -
  have "so_now pipe_ops s = (t, s\<lparr>pi_clock := ts\<rparr>)" "t + IO_TIMEOUT \<le> so_instant_max pipe_ops"
    using assms(5,7) by (simp_all add: pipe_ops_def pipe_now_def)
  moreover have "pipe_prompt (t + IO_TIMEOUT) (s\<lparr>pi_clock := ts\<rparr>)"
    using assms(2,6) by (auto simp: pipe_prompt_def list_all_iff IO_TIMEOUT_def)
  ultimately show ?thesis using pipe_in.source_read_frame [of s t _ line] assms(1,3,4) by simp
qed

text \<open>A pipe with room takes every frame that \<open>write_frame\<close> allows.\<close>

lemma pipe_write_frame:
  assumes "f \<noteq> []" "length f \<le> MAX_FRAME_BYTES" "pi_clock s = []" "length f \<le> pi_window s"
  shows "write_frame pipe_ops f s = (Inr (), s\<lparr>pi_out := pi_out s @ f @ [NEWLINE]\<rparr>)"
proof -
  have "0 < length f" using assms(1) by simp
  then have "0 < pi_window s" using assms(4) by linarith
  then have "write_before_deadline pipe_ops f IO_TIMEOUT s = (Inr (), s\<lparr>pi_out := pi_out s @ f\<rparr>)"
    "write_before_deadline pipe_ops [NEWLINE] IO_TIMEOUT (s\<lparr>pi_out := pi_out s @ f\<rparr>) = (Inr (), s\<lparr>pi_out := pi_out s @ f @ [NEWLINE]\<rparr>)"
    using assms by (simp_all add: pipe_ops_def pipe_now_def pipe_write_def IO_TIMEOUT_def ret_def write_before_deadline.simps)
  moreover have "pipe_now s = (0, s)" using assms(3) by (simp add: pipe_now_def)
  ultimately show ?thesis
    using assms(1,2) by (simp add: write_frame_def bindM_def deadline_from_def pipe_ops_def ret_def IO_TIMEOUT_def)
qed

section \<open>Properties\<close>

text \<open>The first \<open>k\<close> rounds of the reading loop; \<open>None\<close> when the loop is still running.\<close>

fun read_rounds :: "nat \<Rightarrow> 's sock_ops \<Rightarrow> nat \<Rightarrow> bytes \<Rightarrow> 's \<Rightarrow> ((unit + bytes) \<times> 's) option" where
  "read_rounds 0 so deadline frame s = None"
| "read_rounds (Suc k) so deadline frame s =
     (case read_round so deadline frame s of
        (Inl r, s) \<Rightarrow> Some (r, s)
      | (Inr frame, s) \<Rightarrow> read_rounds k so deadline frame s)"

lemma read_rounds_enough:
  "MAX_FRAME_BYTES - length frame < k \<Longrightarrow>
   read_rounds k so deadline frame s = Some (read_frame_loop so deadline frame s)"
proof (induction k arbitrary: frame s)
  case (Suc k)
  obtain r s1 where r: "read_round so deadline frame s = (r, s1)" by fastforce
  show ?case
  proof (cases r)
    case (Inl q)
    then show ?thesis using r by (subst read_frame_loop.simps) simp
  next
    case (Inr frame')
    have "MAX_FRAME_BYTES - length frame' < k"
      using read_round_grows [OF r [unfolded Inr]] Suc.prems by arith
    then show ?thesis using Suc.IH [of frame' s1] r Inr by (subst read_frame_loop.simps) simp
  qed
qed simp

text \<open>C25. The reading loop ends whatever the peer does: after at most 65537 rounds, each with one read,
  every socket has given a frame or an error.\<close>

theorem read_frame_terminates:
  "read_rounds (MAX_FRAME_BYTES + 1) so deadline [] s = Some (read_frame_loop so deadline [] s)"
  by (rule read_rounds_enough) simp

text \<open>C26. A frame that was read, from any socket, is not empty, is shorter than the frame bound and
  contains no newline.\<close>

theorem read_frame_bounded:
  assumes "read_frame so s = (Inr f, s')"
  shows "f \<noteq> [] \<and> length f < MAX_FRAME_BYTES \<and> NEWLINE \<notin> set f"
  using assms by (rule read_frame_Inr)

theorem read_frame_bounded_witness:
  "fst (read_frame pipe_ops \<lparr>pi_in = [[0x61], [0x62, 0x0D, 0x0A]], pi_out = [], pi_clock = [5, 6, 7], pi_window = 1\<rparr>) =
     Inr [0x61, 0x62] \<and> NEWLINE \<notin> set [0x61, 0x62]"
proof -
  let ?s = "\<lparr>pi_in = [[0x61], [0x62, 0x0D, 0x0A]], pi_out = [], pi_clock = [5, 6, 7], pi_window = 1\<rparr>"
  have eval: "fst (read_frame pipe_ops ?s) = Inr [0x61, 0x62]"
    using pipe_read_frame [of ?s "[0x61, 0x62, 0x0D]" 5 "[6, 7]"]
    by (simp add: NEWLINE_def IO_TIMEOUT_def MAX_FRAME_BYTES_def MAX_VERIFIER_PAYLOAD_BYTES_def trim_line_def
        CARRIAGE_RETURN_def)
  moreover have "read_frame pipe_ops ?s = (fst (read_frame pipe_ops ?s), snd (read_frame pipe_ops ?s))" by simp
  ultimately have "NEWLINE \<notin> set [0x61, 0x62]"
    using read_frame_bounded [of pipe_ops ?s "[0x61, 0x62]" "snd (read_frame pipe_ops ?s)"] by simp
  with eval show ?thesis by blast
qed

text \<open>C24. Which frames framing carries. A frame that \<open>write_frame\<close> has written to one socket, and whose bytes
  arrive at another socket before the deadline, however they are cut into writes on one side and into
  reads on the other, is read back as the same frame exactly when it has no newline, does not end in a
  carriage return and is shorter than \<open>MAX_FRAME_BYTES\<close>. A frame of \<open>MAX_FRAME_BYTES\<close> bytes,
  which \<open>write_frame\<close> accepts, is lost; longer and empty ones are never written.\<close>

theorem frame_roundtrip:
  assumes sender: "byte_sink so out" "out s = []" "write_frame so f s = (Inr (), s')"
    and reader: "byte_source ro pending prompt" "so_now ro r = (t, r')" "t + IO_TIMEOUT \<le> so_instant_max ro"
      "prompt (t + IO_TIMEOUT) r'"
    and sent: "pending r' = out s'"
  shows "f \<noteq> [] \<and> length f \<le> MAX_FRAME_BYTES \<and>
    (fst (read_frame ro r) = Inr f \<longleftrightarrow> NEWLINE \<notin> set f \<and> last f \<noteq> CARRIAGE_RETURN \<and> length f < MAX_FRAME_BYTES)"
proof -
  have f: "f \<noteq> []" "length f \<le> MAX_FRAME_BYTES" using sender(3) by (auto simp: write_frame_def split: if_splits)
  have "out s' = f @ [NEWLINE]" using byte_sink.write_frame_sends [OF sender(1,3)] sender(2) by auto
  then have line: "fst (read_frame ro r) = (if length f < MAX_FRAME_BYTES then trim_line f else Inl ())" if "NEWLINE \<notin> set f"
    using byte_source.source_read_frame [OF reader, of f] sent that by simp
  have "butlast f \<noteq> f" using f(1) by (metis append_butlast_last_id append_self_conv list.distinct(1))
  then have same: "trim_line f = Inr f \<longleftrightarrow> last f \<noteq> CARRIAGE_RETURN"
    using f(1) by (auto simp: trim_line_def Let_def)
  show ?thesis
  proof (cases "NEWLINE \<in> set f")
    case True
    then show ?thesis using read_frame_Inr [of ro r f] f by (cases "read_frame ro r") auto
  next
    case False
    then show ?thesis using line same f by simp
  qed
qed

theorem frame_roundtrip_witness:
  "fst (read_frame pipe_ops \<lparr>pi_in = [[1, 2], [3, NEWLINE]], pi_out = [], pi_clock = [7, 8, 9], pi_window = 0\<rparr>) = Inr [1, 2, 3]"
proof -
  let ?s = "\<lparr>pi_in = [], pi_out = [], pi_clock = [], pi_window = 2\<rparr>"
  let ?r = "\<lparr>pi_in = [[1, 2], [3, NEWLINE]], pi_out = [], pi_clock = [7, 8, 9], pi_window = 0\<rparr>"
  have "write_frame pipe_ops [1, 2, 3] ?s = (Inr (), ?s\<lparr>pi_out := [1, 2, 3, NEWLINE]\<rparr>)"
    by (simp add: write_frame_def pipe_ops_def pipe_now_def pipe_write_def deadline_from_def IO_TIMEOUT_def bindM_def
        ret_def MAX_FRAME_BYTES_def MAX_VERIFIER_PAYLOAD_BYTES_def write_before_deadline.simps)
  moreover have "so_now pipe_ops ?r = (7, ?r\<lparr>pi_clock := [8, 9]\<rparr>)" "so_instant_max pipe_ops = 2 ^ 63"
    by (simp_all add: pipe_ops_def pipe_now_def)
  ultimately show ?thesis
    using frame_roundtrip [OF pipe.byte_sink_axioms _ _ pipe_in.byte_source_axioms, of ?s "[1, 2, 3]" "?s\<lparr>pi_out := [1, 2, 3, NEWLINE]\<rparr>" ?r 7 "?r\<lparr>pi_clock := [8, 9]\<rparr>"]
    by (simp add: NEWLINE_def CARRIAGE_RETURN_def IO_TIMEOUT_def MAX_FRAME_BYTES_def MAX_VERIFIER_PAYLOAD_BYTES_def pipe_prompt_def)
qed

text \<open>The two sides disagree on the longest frame: it is written, and then refused by the reader.\<close>

lemma longest_frame_lost:
  assumes "length f = MAX_FRAME_BYTES" "NEWLINE \<notin> set f"
  shows "\<exists>s'. write_frame pipe_ops f \<lparr>pi_in = [], pi_out = [], pi_clock = [], pi_window = length f\<rparr> = (Inr (), s') \<and>
    fst (read_frame pipe_ops \<lparr>pi_in = [pi_out s'], pi_out = [], pi_clock = [], pi_window = 0\<rparr>) = Inl ()"
proof -
  let ?s = "\<lparr>pi_in = [], pi_out = [], pi_clock = [], pi_window = length f\<rparr>"
  let ?r = "\<lparr>pi_in = [f @ [NEWLINE]], pi_out = [], pi_clock = [], pi_window = 0\<rparr>"
  have "f \<noteq> []" using assms(1) by (auto simp: MAX_FRAME_BYTES_def MAX_VERIFIER_PAYLOAD_BYTES_def)
  then have "write_frame pipe_ops f ?s = (Inr (), ?s\<lparr>pi_out := f @ [NEWLINE]\<rparr>)"
    using pipe_write_frame [of f ?s] assms(1) by simp
  moreover have "fst (read_frame pipe_ops ?r) = Inl ()"
    using pipe_in.source_read_frame [of ?r 0 ?r f] assms
    by (simp add: pipe_ops_def pipe_now_def pipe_prompt_def IO_TIMEOUT_def)
  ultimately show ?thesis by auto
qed

text \<open>C38. The host serves exactly on command lines that are a sequence of known options, each with a value
  and no help or version flag among them, where every group is the text of a number from 1 to
  4294967295 and every capacity the text of a number from 1 to 18446744073709551615, an optional plus
  sign and leading zeros allowed. The socket, the credentials and the replay directory must be given,
  and the last value of an option counts; without one, the capacities are 4096 and 64 and there is no
  nonce context and no group.\<close>

theorem parse_args_serve_iff:
  "parse_args args = Inr (Serve c) \<longleftrightarrow>
     (\<exists>opts. args = command_line opts \<and> list_all valid_option opts \<and>
        given opts ''--socket'' = Some (cfg_socket c) \<and> given opts ''--peer-credentials'' = Some (cfg_peer_credentials c) \<and>
        given opts ''--replay-dir'' = Some (cfg_replay_dir c) \<and>
        given opts ''--require-nonce-context'' = cfg_nonce_context c \<and>
        (case given opts ''--socket-group-gid'' of
           None \<Rightarrow> cfg_socket_group_gid c = None
         | Some v \<Rightarrow> (\<exists>g. cfg_socket_group_gid c = Some g \<and> denotes v (unat g))) \<and>
        (case given opts ''--replay-capacity'' of
           None \<Rightarrow> cfg_replay_capacity c = 4096 | Some v \<Rightarrow> denotes v (cfg_replay_capacity c)) \<and>
        (case given opts ''--nonce-capacity'' of
           None \<Rightarrow> cfg_nonce_capacity c = 64 | Some v \<Rightarrow> denotes v (cfg_nonce_capacity c)))"
proof -
  have finish: "args_finish st = Inr (Serve c) \<longleftrightarrow>
      as_socket st = Some (cfg_socket c) \<and> as_peer_credentials st = Some (cfg_peer_credentials c) \<and>
      as_replay_dir st = Some (cfg_replay_dir c) \<and> as_nonce_context st = cfg_nonce_context c \<and>
      as_socket_group_gid st = cfg_socket_group_gid c \<and> as_replay_capacity st = cfg_replay_capacity c \<and>
      as_nonce_capacity st = cfg_nonce_capacity c" for st
    by (cases c) (auto simp: args_finish_def result_simps)
  have path: "value_or None Some x = y \<longleftrightarrow> x = y" for x y by (simp add: value_or_def split: option.split)
  show ?thesis
    unfolding parse_args_def args_loop_Serve apply_options_iff
    by (intro ex_cong1) (auto simp: finish args_initial_def path given_gid given_number
        DEFAULT_REPLAY_CAPACITY_def DEFAULT_NONCE_CAPACITY_def)
qed

end
