(* ===== verification/Secure_Paths.thy ===== *)
theory Secure_Paths
  imports Secure_Fs
begin

unbundle bit_operations_syntax

text \<open>
  What the checks of \<^theory_text>\<open>Secure_Fs\<close> establish: which paths are accepted, and that every
  directory between the root and an opened directory is under the control of root or of the
  trusted user. The operating system is an interface, \<open>dir_tree\<close>: handles refer to the nodes of a
  tree of real directories.
\<close>

section \<open>Paths\<close>

lemma normal_components_Inr:
  "normal_components ps acc = Inr cs \<longleftrightarrow>
     list_all (\<lambda>c. c = RootDir \<or> (\<exists>v. c = Normal v)) ps \<and>
     cs = acc @ concat (map (\<lambda>c. case c of Normal v \<Rightarrow> [v] | _ \<Rightarrow> []) ps)"
  by (induction ps arbitrary: acc) (auto split: Component.splits)

lemma concat_normals:
  "concat (map (\<lambda>c. case c of Normal v \<Rightarrow> [v] | _ \<Rightarrow> [])
     (map (\<lambda>s. if s = ''..'' then ParentDir else Normal s) ss)) = filter (\<lambda>s. s \<noteq> ''..'') ss"
  by (induction ss) auto

text \<open>The segments of a path.\<close>

definition path_segments :: "str \<Rightarrow> str list" where
  "path_segments p = filter (\<lambda>s. s \<noteq> [] \<and> s \<noteq> ''.'') (str_split (CHR ''/'') p)"

lemma normalized_components_iff:
  "normalized_absolute_components (path_components p) = Inr cs \<longleftrightarrow>
     path_is_absolute p \<and> ''..'' \<notin> set (path_segments p) \<and> cs = path_segments p"
proof (cases "path_is_absolute p")
  case True
  then have comps: "path_components p =
      RootDir # map (\<lambda>s. if s = ''..'' then ParentDir else Normal s) (path_segments p)"
    by (simp add: path_components_def path_segments_def Let_def)
  have "list_all (\<lambda>c. c = RootDir \<or> (\<exists>v. c = Normal v))
      (map (\<lambda>s. if s = ''..'' then ParentDir else Normal s) ss) \<longleftrightarrow> ''..'' \<notin> set ss" for ss
    by (induction ss) auto
  moreover have "''..'' \<notin> set ss \<Longrightarrow> filter (\<lambda>s. s \<noteq> ''..'') ss = ss" for ss :: "str list"
    by (induction ss) auto
  ultimately show ?thesis
    using True unfolding comps normalized_absolute_components_def
    by (auto simp: normal_components_Inr concat_normals simp del: map_map)
next
  case False
  then show ?thesis
    by (auto simp: path_components_def normalized_absolute_components_def Let_def
        split: list.splits Component.splits if_splits)
qed

lemma path_segments_single:
  assumes "s \<in> set (path_segments p)" "s \<noteq> ''..''"
  shows "validate_single_component s = Inr ()"
proof -
  have "CHR ''/'' \<notin> set s" "s \<noteq> []" "s \<noteq> ''.''"
    using assms str_split_pieces_no_sep by (auto simp: path_segments_def)
  then show ?thesis using assms(2) by (rule single_component)
qed

section \<open>Directory trees\<close>

text \<open>The nodes on the way down a tree, the starting point included.\<close>

fun walk :: "('n \<Rightarrow> str \<Rightarrow> 'n option) \<Rightarrow> 'n \<Rightarrow> str list \<Rightarrow> 'n list option" where
  "walk child n [] = Some [n]"
| "walk child n (c # cs) = Option.bind (child n c) (\<lambda>m. map_option (\<lambda>ns. n # ns) (walk child m cs))"

lemma walk_snoc:
  assumes "walk child n cs = Some (ns @ [m])" "child m c = Some m'"
  shows "walk child n (cs @ [c]) = Some (ns @ [m, m'])"
  using assms
proof (induction cs arbitrary: n ns)
  case (Cons a cs)
  then obtain k ks where k: "child n a = Some k" "walk child k cs = Some ks" "ns @ [m] = n # ks"
    by (auto simp: bind_eq_Some_conv)
  from k(2) have "ks \<noteq> []" by (cases cs) (auto simp: bind_eq_Some_conv)
  then obtain ns' where "ns = n # ns'" "ks = ns' @ [m]"
    using k(3) by (cases ns) auto
  then show ?case using Cons.IH [of k ns'] Cons.prems(2) k by simp
qed simp

text \<open>A directory that only root or the trusted user can change.\<close>

definition trusted_dir :: "u32 \<Rightarrow> Stat \<Rightarrow> bool" where
  "trusted_dir uid st \<longleftrightarrow> (st_uid st = 0 \<or> st_uid st = uid) \<and> not_shared_writable st"

text \<open>The two masks of the socket directory together ask for mode \<open>0o2710\<close>.\<close>

lemma socket_leaf_mode:
  "validate_socket_leaf_metadata owner gid file_uid file_gid mode = Inr () \<longleftrightarrow>
     file_uid = owner \<and> file_gid = gid \<and> mode AND 0xFFF = 0x5C8"
proof -
  have "mode AND 0x1FF = 0x1C8 \<and> mode AND 0xE00 = 0x400 \<longleftrightarrow> mode AND 0xFFF = 0x5C8" for mode :: u32
  proof
    assume m: "mode AND 0x1FF = 0x1C8 \<and> mode AND 0xE00 = 0x400"
    have "mode AND 0xFFF = (mode AND 0x1FF) OR (mode AND 0xE00)"
      by (simp flip: bit.conj_disj_distrib)
    then show "mode AND 0xFFF = 0x5C8" using m by simp
  next
    assume m: "mode AND 0xFFF = 0x5C8"
    have "mode AND 0x1FF = (mode AND 0xFFF) AND 0x1FF" "mode AND 0xE00 = (mode AND 0xFFF) AND 0xE00"
      by (simp_all add: and.assoc)
    then show "mode AND 0x1FF = 0x1C8 \<and> mode AND 0xE00 = 0x400" using m by simp
  qed
  then show ?thesis by (auto simp: validate_socket_leaf_metadata_def Let_def)
qed

locale dir_tree =
  fixes sys :: "('h, 'f, 'w) fs_ops"
    and node :: "'h \<Rightarrow> 'n"
    and root :: 'n
    and child :: "'n \<Rightarrow> str \<Rightarrow> 'n option"
    and attr :: "'n \<Rightarrow> Stat"
    and xattr :: "'n \<Rightarrow> str \<Rightarrow> bytes option"
  assumes root_law: "op_open_root sys w = (Inr h, w') \<Longrightarrow> node h = root"
    and clone_law: "op_try_clone sys h w = (Inr h', w') \<Longrightarrow> node h' = node h"
    and sub_dir_law: "op_sub_dir sys h c w = (Inr h', w') \<Longrightarrow> child (node h) c = Some (node h')"
    and self_metadata_law: "op_self_metadata sys h w = (Inr st, w') \<Longrightarrow> st = attr (node h)"
    and xattr_law: "op_open_file sys h ''.'' w = (Inr f, w') \<Longrightarrow> op_get_xattr sys f name u = (Inr v, u') \<Longrightarrow>
      v = xattr (node h) name"
begin

lemma wp_open_absolute_directory:
  "wp (open_absolute_directory sys p) (\<lambda>r _. \<forall>dirs final. r = Inr (dirs, final) \<longrightarrow>
     (\<exists>cs. normalized_absolute_components p = Inr cs \<and> walk child root cs = Some (map node dirs) \<and>
        dirs \<noteq> [] \<and> node (last dirs) = node final)) w"
proof -
  let ?I = "\<lambda>(dirs, current) seen (_ :: 'w). walk child root seen = Some (map node dirs) \<and> dirs \<noteq> [] \<and> node (last dirs) = node current"
  have root: "wp (op_open_root sys) (\<lambda>r _. \<forall>h. r = Inr h \<longrightarrow> node h = root) u" for u
    by (rule wpI) (auto dest: root_law)
  have clone: "wp (op_try_clone sys h) (\<lambda>r _. \<forall>h'. r = Inr h' \<longrightarrow> node h' = node h) u" for h u
    by (rule wpI) (auto dest: clone_law)
  have sub: "wp (op_sub_dir sys h c) (\<lambda>r _. \<forall>h'. r = Inr h' \<longrightarrow> child (node h) c = Some (node h')) u" for h c u
    by (rule wpI) (auto dest: sub_dir_law)
  have step: "wp ((\<lambda>(ancestors, current) component. bindM (op_sub_dir sys current component) (\<lambda>next.
      bindM (op_try_clone sys next) (\<lambda>copy. ret (ancestors @ [copy], next)))) acc c)
      (\<lambda>r u'. case r of Inl e \<Rightarrow> True | Inr acc' \<Rightarrow> ?I acc' (seen @ [c]) u') u"
    if "?I acc seen u" for acc seen c u
  proof (cases acc)
    case (Pair dirs current)
    then obtain ds l where dirs: "dirs = ds @ [l]" "walk child root seen = Some (map node ds @ [node l])" "node l = node current"
      using \<open>?I acc seen u\<close> by (cases dirs rule: rev_cases) auto
    have "walk child root (seen @ [c]) = Some (map node (dirs @ [h']))" if "child (node current) c = Some (node h')" for h'
      using walk_snoc [OF dirs(2)] that dirs by simp
    then show ?thesis
      unfolding Pair case_prod_conv
      by (intro wp_bindI [OF sub] wp_bindI [OF clone]) (auto simp: wp_ret)
  qed
  have loop: "wp (foldM (\<lambda>(ancestors, current) component. bindM (op_sub_dir sys current component) (\<lambda>next.
      bindM (op_try_clone sys next) (\<lambda>copy. ret (ancestors @ [copy], next)))) ([f], h) cs)
      (\<lambda>r u'. case r of Inl e \<Rightarrow> True | Inr acc' \<Rightarrow> ?I acc' cs u') u" if "node f = root" "node h = root" for f h cs u
    by (rule wp_foldM) (use that in simp, rule step)
  show ?thesis
    unfolding open_absolute_directory_def
  proof (cases "normalized_absolute_components p")
    case (Inr cs)
    then show "wp (bindM (lift (normalized_absolute_components p)) (\<lambda>components.
       bindM (op_open_root sys) (\<lambda>root. bindM (op_try_clone sys root) (\<lambda>first.
         foldM (\<lambda>(ancestors, current) component. bindM (op_sub_dir sys current component) (\<lambda>next.
           bindM (op_try_clone sys next) (\<lambda>copy. ret (ancestors @ [copy], next)))) ([first], root) components))))
       (\<lambda>r _. \<forall>dirs final. r = Inr (dirs, final) \<longrightarrow>
         (\<exists>cs. normalized_absolute_components p = Inr cs \<and> walk child root cs = Some (map node dirs) \<and>
            dirs \<noteq> [] \<and> node (last dirs) = node final)) w"
      unfolding Inr wp_bindM [of "lift _"] wp_lift sum.case
      by (intro wp_bindI [OF root] wp_bindI [OF clone] wp_mono [OF loop]) auto
  qed (simp add: wp_simps)
qed

lemma wp_self_metadata: "wp (op_self_metadata sys h) (\<lambda>r _. \<forall>st. r = Inr st \<longrightarrow> st = attr (node h)) w"
  by (rule wpI) (auto dest: self_metadata_law)

lemma wp_validate_directory_chain:
  "wp (validate_directory_chain sys dirs uid) (\<lambda>r _. r = Inr () \<longrightarrow> list_all (\<lambda>h. trusted_dir uid (attr (node h))) dirs) w"
proof -
  let ?check = "\<lambda>(_ :: unit) dir. bindM (op_self_metadata sys dir) (\<lambda>st.
      if st_uid st \<noteq> 0 \<and> st_uid st \<noteq> uid then raise PermissionDenied
      else if \<not> not_shared_writable st then raise PermissionDenied else ret ())"
  have step: "wp (?check u h) (\<lambda>r _. r = Inr () \<longrightarrow> trusted_dir uid (attr (node h))) v" for u h v
    by (rule wp_bindI [OF wp_self_metadata]) (auto simp: wp_ret wp_raise trusted_dir_def)
  have "wp (foldM ?check () dirs)
      (\<lambda>r _. case r of Inl e \<Rightarrow> True | Inr (_ :: unit) \<Rightarrow> list_all (\<lambda>h. trusted_dir uid (attr (node h))) dirs) w"
    by (rule wp_foldM [where I = "\<lambda>_ seen _. list_all (\<lambda>h. trusted_dir uid (attr (node h))) seen"], simp,
        rule wp_mono [OF step]) (simp split: sum.split)
  then show ?thesis unfolding validate_directory_chain_def by (rule wp_mono) auto
qed

lemma wp_validate_service_leaf:
  "wp (validate_service_leaf sys h uid) (\<lambda>r _. r = Inr () \<longrightarrow>
     st_uid (attr (node h)) = uid \<and> private_mode (attr (node h))) w"
  unfolding validate_service_leaf_def
  by (rule wp_bindI [OF wp_self_metadata]) (auto simp: wp_ret wp_raise)

lemma wp_open_service_owned:
  "wp (open_service_owned sys p expected) (\<lambda>r _. \<forall>d. r = Inr d \<longrightarrow>
     (\<exists>cs ns. normalized_absolute_components p = Inr cs \<and> walk child root cs = Some ns \<and>
        list_all (\<lambda>n. trusted_dir (sd_owner_uid d) (attr n)) ns \<and> node (sd_dir d) = last ns \<and>
        st_uid (attr (last ns)) = sd_owner_uid d \<and> private_mode (attr (last ns)) \<and>
        (\<forall>uid. expected = Some uid \<longrightarrow> sd_owner_uid d = uid))) w"
  unfolding open_service_owned_def
proof (rule wp_bindI [OF wp_open_absolute_directory], goal_cases)
  case (2 df u)
  obtain dirs final where df: "df = (dirs, final)" by fastforce
  from 2 obtain cs where cs: "normalized_absolute_components p = Inr cs" "walk child root cs = Some (map node dirs)"
    "dirs \<noteq> []" "node (last dirs) = node final" unfolding df by blast
  have uid: "wp (case expected of Some uid \<Rightarrow> ret uid | None \<Rightarrow> probe_directory_owner_uid sys final)
      (\<lambda>r _. \<forall>uid. expected = Some uid \<longrightarrow> r = Inr uid) u'" for u'
    by (cases expected) (auto simp: wp_ret, simp add: wp_def split: prod.splits)
  show ?case
    unfolding df case_prod_conv
    using cs by (intro wp_bindI [OF uid] wp_bindI [OF wp_validate_directory_chain] wp_bindI [OF wp_validate_service_leaf])
      (auto simp: wp_ret last_map list_all_iff)
qed simp

lemma wp_reject_posix_acl:
  "wp (reject_posix_acl sys h) (\<lambda>r _. r = Inr () \<longrightarrow> xattr (node h) ''system.posix_acl_access'' = None \<and>
     xattr (node h) ''system.posix_acl_default'' = None) w"
proof -
  have opened: "wp (op_open_file sys h ''.'') (\<lambda>r _. \<forall>f. r = Inr f \<longrightarrow>
      (\<forall>name u v u'. op_get_xattr sys f name u = (Inr v, u') \<longrightarrow> v = xattr (node h) name)) w"
    by (rule wpI) (metis xattr_law)
  have get: "wp (op_get_xattr sys f name) (\<lambda>r _. \<forall>v. r = Inr v \<longrightarrow> v = xattr (node h) name) u"
    if "\<forall>name u v u'. op_get_xattr sys f name u = (Inr v, u') \<longrightarrow> v = xattr (node h) name" for f name u
    by (rule wpI) (use that in blast)
  show ?thesis
    unfolding reject_posix_acl_def foldM.simps
  proof (rule wp_bindI [OF opened], goal_cases)
    case (2 f u)
    then have f: "\<forall>name u v u'. op_get_xattr sys f name u = (Inr v, u') \<longrightarrow> v = xattr (node h) name" by blast
    have one: "wp (bindM (op_get_xattr sys f name) (\<lambda>v. if v \<noteq> None then raise PermissionDenied else ret ()))
        (\<lambda>r _. r = Inr () \<longrightarrow> xattr (node h) name = None) v" for name v
      by (rule wp_bindI [OF get [OF f]]) (auto simp: wp_ret wp_raise)
    show ?case
      by (intro wp_bindI [OF one]) (auto simp: wp_ret)
  qed simp
qed

lemma wp_validate_socket_leaf:
  "wp (validate_socket_leaf sys h uid gid) (\<lambda>r _. r = Inr () \<longrightarrow>
     st_uid (attr (node h)) = uid \<and> st_gid (attr (node h)) = gid \<and> st_mode (attr (node h)) AND 0xFFF = 0x5C8) w"
  unfolding validate_socket_leaf_def
  by (rule wp_bindI [OF wp_self_metadata]) (auto simp: wp_lift socket_leaf_mode)

text \<open>Both ways to open a directory, and a trusted file, go through a checked chain.\<close>

definition checked_dir :: "path \<Rightarrow> u32 \<Rightarrow> 'n \<Rightarrow> bool" where
  "checked_dir p uid leaf \<longleftrightarrow> (\<exists>cs ns. normalized_absolute_components p = Inr cs \<and> walk child root cs = Some ns \<and>
     list_all (\<lambda>n. trusted_dir uid (attr n)) ns \<and> leaf = last ns)"

lemma wp_open_socket_parent:
  "wp (open_socket_parent sys p trusted_gid) (\<lambda>r _. \<forall>d. r = Inr d \<longrightarrow>
     checked_dir p (sd_owner_uid d) (node (sd_dir d)) \<and> st_uid (attr (node (sd_dir d))) = sd_owner_uid d \<and>
     (case trusted_gid of
        None \<Rightarrow> private_mode (attr (node (sd_dir d)))
      | Some gid \<Rightarrow> st_gid (attr (node (sd_dir d))) = gid \<and> st_mode (attr (node (sd_dir d))) AND 0xFFF = 0x5C8 \<and>
          xattr (node (sd_dir d)) ''system.posix_acl_access'' = None \<and>
          xattr (node (sd_dir d)) ''system.posix_acl_default'' = None)) w"
  unfolding open_socket_parent_def
proof (rule wp_bindI [OF wp_open_absolute_directory], goal_cases)
  case (2 df u)
  obtain dirs final where df: "df = (dirs, final)" by fastforce
  have checked: "list_all (\<lambda>h. trusted_dir uid (attr (node h))) dirs \<Longrightarrow> checked_dir p uid (node final)" for uid
    using 2 unfolding df checked_dir_def by (auto simp: last_map list_all_iff)
  have probe: "wp (probe_directory_owner_uid sys final) (\<lambda>_ _. True) u" by (simp add: wp_def split: prod.splits)
  have leaf: "wp (case trusted_gid of
        Some gid \<Rightarrow> bindM (validate_socket_leaf sys final uid gid) (\<lambda>_. reject_posix_acl sys final)
      | None \<Rightarrow> validate_service_leaf sys final uid) (\<lambda>r _. r = Inr () \<longrightarrow> st_uid (attr (node final)) = uid \<and>
        (case trusted_gid of None \<Rightarrow> private_mode (attr (node final))
         | Some gid \<Rightarrow> st_gid (attr (node final)) = gid \<and> st_mode (attr (node final)) AND 0xFFF = 0x5C8 \<and>
             xattr (node final) ''system.posix_acl_access'' = None \<and>
             xattr (node final) ''system.posix_acl_default'' = None)) v" for uid v
  proof (cases trusted_gid)
    case None
    then show ?thesis by (auto intro: wp_mono [OF wp_validate_service_leaf])
  next
    case (Some gid)
    then show ?thesis
      by (auto intro!: wp_bindI [OF wp_validate_socket_leaf] wp_mono [OF wp_reject_posix_acl])
  qed
  show ?case
    unfolding df case_prod_conv
    using checked by (intro wp_bindI [OF probe] wp_bindI [OF wp_validate_directory_chain] wp_bindI [OF leaf])
      (auto simp: wp_ret split: option.splits)
qed simp

text \<open>A trusted file is read from a checked directory, after its own metadata was checked.\<close>

definition checked_file :: "path \<Rightarrow> u32 \<Rightarrow> nat \<Rightarrow> bool" where
  "checked_file p uid max_bytes \<longleftrightarrow> (\<exists>parent leaf f st u u'. path_parent p = Some parent \<and> checked_dir parent uid leaf \<and>
     op_file_metadata sys f u = (Inr st, u') \<and> is_file st \<and> (st_uid st = 0 \<or> st_uid st = uid) \<and> private_mode st \<and>
     st_size st \<noteq> 0 \<and> st_size st \<le> int max_bytes)"

lemma wp_read_trusted_file:
  "wp (read_trusted_file sys p uid max_bytes) (\<lambda>r _. \<forall>bs. r = Inr bs \<longrightarrow>
     bs \<noteq> [] \<and> length bs \<le> max_bytes \<and> checked_file p uid max_bytes) w"
proof (cases "path_parent p")
  case (Some parent)
  let ?Q = "\<lambda>r (_ :: 'c). \<forall>bs. r = Inr bs \<longrightarrow> bs \<noteq> [] \<and> length bs \<le> max_bytes \<and> checked_file p uid max_bytes"
  have any: "wp m (\<lambda>_ _. True) u" for m :: "('c, ErrorKind, 'x) io" and u by (simp add: wp_def split: prod.splits)
  have meta: "wp (op_file_metadata sys f) (\<lambda>r u'. \<forall>st. r = Inr st \<longrightarrow> op_file_metadata sys f u = (Inr st, u')) u" for f u
    by (rule wpI) simp
  have read: "wp (bindM (op_file_read sys f (max_bytes + 1)) (\<lambda>bytes.
       if bytes = [] \<or> length bytes > max_bytes then raise InvalidData else ret bytes)) ?Q u"
    if "checked_file p uid max_bytes" for f u
    using that by (intro wp_bindI [OF any]) (auto simp: wp_ret wp_raise)
  have inspected: "wp (bindM (op_file_metadata sys f) (\<lambda>st.
     bindM (lift (validate_trusted_file_metadata st uid max_bytes)) (\<lambda>_.
     bindM (op_file_read sys f (max_bytes + 1)) (\<lambda>bytes.
       if bytes = [] \<or> length bytes > max_bytes then raise InvalidData else ret bytes)))) ?Q u"
    if leaf: "checked_dir parent uid leaf" for leaf f u
  proof (rule wp_bindI [OF meta], goal_cases)
    case (2 st u')
    have "checked_file p uid max_bytes" if "validate_trusted_file_metadata st uid max_bytes = Inr ()"
    proof -
      have "is_file st \<and> (st_uid st = 0 \<or> st_uid st = uid) \<and> private_mode st \<and> st_size st \<noteq> 0 \<and> st_size st \<le> int max_bytes"
        using that by (simp add: validate_trusted_file_metadata_def split: if_splits)
      then show ?thesis using leaf Some 2 unfolding checked_file_def by blast
    qed
    then have "wp (bindM (op_file_read sys f (max_bytes + 1)) (\<lambda>bytes.
        if bytes = [] \<or> length bytes > max_bytes then raise InvalidData else ret bytes)) ?Q u'"
      if "validate_trusted_file_metadata st uid max_bytes = Inr ()"
      using that read by blast
    then show ?case
      unfolding wp_bindM [of "lift _"] wp_lift by (cases "validate_trusted_file_metadata st uid max_bytes") simp_all
  qed simp
  have checked: "checked_dir parent uid (node final)" if "list_all (\<lambda>h. trusted_dir uid (attr (node h))) dirs"
    "normalized_absolute_components parent = Inr cs" "walk child root cs = Some (map node dirs)" "dirs \<noteq> []"
    "node (last dirs) = node final" for dirs final cs
    using that unfolding checked_dir_def by (auto simp: last_map list_all_iff)
  have "wp (bindM (open_absolute_directory sys parent) (\<lambda>(dirs, final_dir).
     bindM (validate_directory_chain sys dirs uid) (\<lambda>_.
     bindM (op_open_file sys final_dir name) (\<lambda>file.
     bindM (op_file_metadata sys file) (\<lambda>st.
     bindM (lift (validate_trusted_file_metadata st uid max_bytes)) (\<lambda>_.
     bindM (op_file_read sys file (max_bytes + 1)) (\<lambda>bytes.
       if bytes = [] \<or> length bytes > max_bytes then raise InvalidData
       else ret bytes))))))) ?Q u" for name u
  proof (rule wp_bindI [OF wp_open_absolute_directory], goal_cases)
    case (2 df u')
    obtain dirs final where df: "df = (dirs, final)" by fastforce
    from 2 obtain cs where cs: "normalized_absolute_components parent = Inr cs" "walk child root cs = Some (map node dirs)"
      "dirs \<noteq> []" "node (last dirs) = node final" unfolding df by blast
    show ?case
      unfolding df case_prod_conv
      by (rule wp_bindI [OF wp_validate_directory_chain], simp, rule wp_bindI [OF any], simp,
          rule inspected [OF checked [OF _ cs]]) simp
  qed simp
  then show ?thesis
    using Some unfolding read_trusted_file_def
    by (simp add: wp_bindM [of "lift _"] wp_lift ok_or_def split: sum.split option.split)
qed (simp add: read_trusted_file_def wp_simps ok_or_def)

end

section \<open>A tree\<close>

text \<open>A private service directory, and a socket directory of mode \<open>0o2710\<close> for group 2000; a file with
  the name \<open>peers\<close> has one byte.\<close>

definition sample_nodes :: "(str list \<times> Stat) list" where
  "sample_nodes =
     [([], \<lparr>st_mode = 0x41ED, st_uid = 0, st_gid = 0, st_size = 0\<rparr>),
      ([''run''], \<lparr>st_mode = 0x41ED, st_uid = 0, st_gid = 0, st_size = 0\<rparr>),
      ([''run'', ''replay''], \<lparr>st_mode = 0x41C0, st_uid = 1000, st_gid = 1000, st_size = 0\<rparr>),
      ([''run'', ''socket''], \<lparr>st_mode = 0x45C8, st_uid = 1000, st_gid = 2000, st_size = 0\<rparr>)]"

definition tree_child :: "str list \<Rightarrow> str \<Rightarrow> str list option" where
  "tree_child n c = (if map_of sample_nodes (n @ [c]) = None then None else Some (n @ [c]))"

definition tree_attr :: "str list \<Rightarrow> Stat" where
  "tree_attr n = (case map_of sample_nodes n of
     Some st \<Rightarrow> st | None \<Rightarrow> \<lparr>st_mode = 0, st_uid = 0, st_gid = 0, st_size = 0\<rparr>)"

definition tree_ops :: "(str list, str list, 'w) fs_ops" where
  "tree_ops = \<lparr>
     op_open_root = ret [],
     op_try_clone = ret,
     op_sub_dir = (\<lambda>h c. case tree_child h c of None \<Rightarrow> raise NotFound | Some n \<Rightarrow> ret n),
     op_self_metadata = (\<lambda>h. ret (tree_attr h)),
     op_list_dir = (\<lambda>_. ret []),
     op_metadata = (\<lambda>_ _. raise NotFound),
     op_open_file = (\<lambda>h n. ret (h @ [n])),
     op_new_file = (\<lambda>h n _. ret (h @ [n])),
     op_remove_file = (\<lambda>_ _. ret ()),
     op_hardlink = (\<lambda>_ _ _. ret ()),
     op_file_metadata = (\<lambda>f. ret \<lparr>st_mode = 0x8180, st_uid = 1000, st_gid = 1000,
       st_size = (if last f = ''peers'' then 1 else 0)\<rparr>),
     op_file_read = (\<lambda>_ k. ret (take k [3])),
     op_file_write = (\<lambda>_ _. ret ()),
     op_file_sync = (\<lambda>_. ret ()),
     op_file_lock = (\<lambda>_. ret ()),
     op_get_xattr = (\<lambda>_ _. ret None),
     op_random = (\<lambda>k. ret (replicate k 0)),
     op_read_path = (\<lambda>_. raise NotFound)\<rparr>"

interpretation sample_tree: dir_tree "tree_ops :: (str list, str list, unit) fs_ops" id "[]" tree_child tree_attr "\<lambda>_ _. None"
  by unfold_locales (auto simp: tree_ops_def ret_def raise_def split: option.splits)

section \<open>Properties\<close>

text \<open>A path is accepted exactly when it is absolute and has no \<open>..\<close> segment, and then it stands for
  its non-empty segments other than \<open>.\<close>, each of which is a plain name.\<close>

lemma normalized_path_accepts_iff:
  "(normalized_absolute_components (path_components p) = Inr cs \<longleftrightarrow>
      path_is_absolute p \<and> ''..'' \<notin> set (path_segments p) \<and> cs = path_segments p) \<and>
   (''..'' \<in> set (path_segments p) \<or> list_all (\<lambda>c. validate_single_component c = Inr ()) (path_segments p))"
  using normalized_components_iff path_segments_single by (auto simp: list_all_iff)

text \<open>C27. A service directory that was opened is under the control of root and the service user alone:
  its path is absolute without \<open>..\<close>, every directory from the root down to it belongs to root or to
  the owner and is not writable for group or others, and the directory itself belongs to the owner
  and is closed to everyone else.\<close>

theorem service_directory_trusted:
  assumes "dir_tree sys node root child attr xattr"
    and "open_service_owned sys (path_components p) expected w = (Inr d, w')"
  shows "path_is_absolute p \<and> ''..'' \<notin> set (path_segments p) \<and>
    (\<exists>ns. walk child root (path_segments p) = Some ns \<and> node (sd_dir d) = last ns \<and>
       list_all (\<lambda>n. trusted_dir (sd_owner_uid d) (attr n)) ns) \<and>
    st_uid (attr (node (sd_dir d))) = sd_owner_uid d \<and> private_mode (attr (node (sd_dir d))) \<and>
    (expected = None \<or> expected = Some (sd_owner_uid d))"
  using wpD [OF dir_tree.wp_open_service_owned [OF assms(1)] assms(2)]
  by (cases expected) (auto simp: normalized_components_iff)

theorem service_directory_trusted_witness:
  "\<exists>d. open_service_owned tree_ops (path_components ''/run//./replay'') (Some 1000) () = (Inr d, ()) \<and>
     walk tree_child [] (path_segments ''/run//./replay'') = Some [[], [''run''], [''run'', ''replay'']] \<and>
     private_mode (tree_attr (sd_dir d))"
proof -
  have opened: "open_service_owned tree_ops (path_components ''/run//./replay'') (Some 1000) () =
      (Inr \<lparr>sd_dir = [''run'', ''replay''], sd_owner_uid = 1000\<rparr>, ())"
    by code_simp
  have "walk tree_child [] (path_segments ''/run//./replay'') = Some [[], [''run''], [''run'', ''replay'']]"
    by code_simp
  then show ?thesis
    using service_directory_trusted [OF sample_tree.dir_tree_axioms opened] opened by simp
qed

text \<open>C28. The directory of the socket is reached through such a chain as well, and it is either private
  or, when a transport group is configured, has exactly mode \<open>0o2710\<close>, that group, and no access
  control list that could grant more.\<close>

theorem socket_parent_trusted:
  assumes "dir_tree sys node root child attr xattr"
    and "open_socket_parent sys (path_components p) trusted_gid w = (Inr d, w')"
  shows "(\<exists>ns. walk child root (path_segments p) = Some ns \<and> node (sd_dir d) = last ns \<and>
       list_all (\<lambda>n. trusted_dir (sd_owner_uid d) (attr n)) ns) \<and>
    st_uid (attr (node (sd_dir d))) = sd_owner_uid d \<and>
    (case trusted_gid of
       None \<Rightarrow> private_mode (attr (node (sd_dir d)))
     | Some gid \<Rightarrow> st_gid (attr (node (sd_dir d))) = gid \<and> st_mode (attr (node (sd_dir d))) AND 0xFFF = 0x5C8 \<and>
         xattr (node (sd_dir d)) ''system.posix_acl_access'' = None \<and>
         xattr (node (sd_dir d)) ''system.posix_acl_default'' = None)"
proof -
  have "dir_tree.checked_dir root child attr (path_components p) (sd_owner_uid d) (node (sd_dir d)) \<Longrightarrow>
      \<exists>ns. walk child root (path_segments p) = Some ns \<and> node (sd_dir d) = last ns \<and>
        list_all (\<lambda>n. trusted_dir (sd_owner_uid d) (attr n)) ns"
    by (auto simp: dir_tree.checked_dir_def [OF assms(1)] normalized_components_iff)
  then show ?thesis
    using wpD [OF dir_tree.wp_open_socket_parent [OF assms(1)] assms(2)] by blast
qed

theorem socket_parent_trusted_witness:
  "\<exists>d. open_socket_parent tree_ops (path_components ''/run/socket'') (Some 2000) () = (Inr d, ()) \<and>
     st_mode (tree_attr (sd_dir d)) AND 0xFFF = 0x5C8"
proof -
  have opened: "open_socket_parent tree_ops (path_components ''/run/socket'') (Some 2000) () =
      (Inr \<lparr>sd_dir = [''run'', ''socket''], sd_owner_uid = 1000\<rparr>, ())"
    by code_simp
  then show ?thesis
    using socket_parent_trusted [OF sample_tree.dir_tree_axioms opened] by simp
qed

end
