(* ===== verification/Verifier_Host.thy ===== *)
theory Verifier_Host
  imports Host_Framing Disk_Model Secure_Paths
begin

unbundle bit_operations_syntax

text \<open>
  The reference host of the verifier (\<open>keylix-verifier/src/main.rs\<close>), second part: one connection
  (\<open>handle_connection\<close>), the loop over connections, and the start of the service (\<open>serve\<close> up to the
  loop).

  A connection works on its own socket and on the two stores of the application; the answer that
  was sent is kept beside the result, which in the source is only success or failure.
\<close>

section \<open>Connections\<close>

datatype reply =
    Unsealed FailureClass
  | Sealed AuthenticatedIpcRequest VerifierResult

definition answer_frame ::
  "externs \<Rightarrow> VerificationPolicy \<Rightarrow> NoncePolicy \<Rightarrow> DpopPortError + i64 \<Rightarrow> 'r replay_op
   \<Rightarrow> 'n expected_op \<Rightarrow> 'n issue_op \<Rightarrow> PeerCredentialSet \<Rightarrow> bytes \<Rightarrow> 'r \<times> 'n \<Rightarrow> reply \<times> 'r \<times> 'n" where
  "answer_frame X policy np clock check_and_record expected issue peers frame st =
     (case open_request X peers frame of
        Inl e \<Rightarrow>
          (Unsealed (if e = UnauthorizedPeer \<or> e = MalformedEnvelope then FC_MalformedRequest else FC_InternalFailure), st)
      | Inr authenticated \<Rightarrow>
          (case Option.bind (js_parse X (ar_payload authenticated)) verifier_request_deserialize of
             None \<Rightarrow> (Sealed authenticated (rejected FC_MalformedRequest), st)
           | Some request \<Rightarrow>
               (case verifier_verify X policy np clock check_and_record expected issue request st of
                  (res, st') \<Rightarrow> (Sealed authenticated res, st'))))"

text \<open>\<open>write_unsealed_rejection\<close> and the two calls of \<open>seal_response\<close>: the bytes of the answer.\<close>

definition reply_bytes :: "externs \<Rightarrow> PeerCredentialSet \<Rightarrow> reply \<Rightarrow> unit + bytes" where
  "reply_bytes X peers reply =
     (case reply of
        Unsealed failure \<Rightarrow> Inr (js_print X (verifier_result_serialize (rejected failure)))
      | Sealed authenticated res \<Rightarrow>
          map_err (\<lambda>_. ()) (seal_response X peers authenticated (js_print X (verifier_result_serialize res))))"

definition handle_connection ::
  "'s sock_ops \<Rightarrow> externs \<Rightarrow> VerificationPolicy \<Rightarrow> NoncePolicy \<Rightarrow> DpopPortError + i64 \<Rightarrow> 'r replay_op
   \<Rightarrow> 'n expected_op \<Rightarrow> 'n issue_op \<Rightarrow> PeerCredentialSet \<Rightarrow> 's \<Rightarrow> 'r \<times> 'n
   \<Rightarrow> (unit + unit) \<times> reply option \<times> 's \<times> 'r \<times> 'n" where
  "handle_connection so X policy np clock check_and_record expected issue peers s st =
     (case read_frame so s of
        (Inl e, s) \<Rightarrow> (Inl e, None, s, st)
      | (Inr frame, s) \<Rightarrow>
          (case answer_frame X policy np clock check_and_record expected issue peers frame st of
             (reply, st) \<Rightarrow>
               (case reply_bytes X peers reply of
                  Inl e \<Rightarrow> (Inl e, Some reply, s, st)
                | Inr bs \<Rightarrow> (case write_frame so bs s of (r, s) \<Rightarrow> (r, Some reply, s, st)))))"

text \<open>A connection that was accepted, with the readings taken while it is handled.\<close>

record 's connection =
  cn_ops :: "'s sock_ops"
  cn_stream :: 's
  cn_clock :: "DpopPortError + i64"
  cn_time :: i64
  cn_generated :: "DpopPortError + DpopNonce"

text \<open>One round of the loop over \<open>listener.incoming()\<close>: the result of the connection is dropped.\<close>

definition host_step ::
  "externs \<Rightarrow> VerificationPolicy \<Rightarrow> NoncePolicy \<Rightarrow> ('h, 'f, 'w) fs_ops \<Rightarrow> ('h, 'f) FileReplayStore
   \<Rightarrow> PeerCredentialSet \<Rightarrow> 'w \<times> InMemoryNonceStore \<Rightarrow> 's connection \<Rightarrow> reply option \<times> 'w \<times> InMemoryNonceStore" where
  "host_step X policy np sys store peers st c =
     (case handle_connection (cn_ops c) X policy np (cn_clock c) (file_check_and_record sys store (Inr (cn_time c)))
             expected_nonce (issue_nonce (cn_generated c)) peers (cn_stream c) st of
        (_, reply, _, st') \<Rightarrow> (reply, st'))"

section \<open>Start\<close>

record ('h, 'f, 'w) host_ops =
  ho_fs :: "('h, 'f, 'w) fs_ops"
  ho_connect :: "str \<Rightarrow> ('w, unit) sysop"
  ho_bind :: "str \<Rightarrow> ('w, unit) sysop"
  ho_set_permissions :: "str \<Rightarrow> u32 \<Rightarrow> ('w, unit) sysop"

text \<open>\<open>map_err(|_| ())\<close>.\<close>

definition fails :: "('w, 'e, 'a) io \<Rightarrow> ('w, unit, 'a) io" where
  "fails m = map_errM (\<lambda>_. ()) m"

definition validate_socket_identity ::
  "('h, 'f, 'w) fs_ops \<Rightarrow> 'h SecureDir \<Rightarrow> str \<Rightarrow> u32 option \<Rightarrow> ('w, unit, unit) io" where
  "validate_socket_identity sys parent name trusted_gid =
     bindM (fails (sd_metadata sys parent name)) (\<lambda>st.
       if st_uid st \<noteq> sd_owner_uid parent \<or> st_mode st AND S_IFMT \<noteq> S_IFSOCK \<or>
          (case trusted_gid of Some gid \<Rightarrow> st_gid st \<noteq> gid | None \<Rightarrow> False)
       then raise () else ret ())"

definition validate_socket_metadata ::
  "('h, 'f, 'w) fs_ops \<Rightarrow> 'h SecureDir \<Rightarrow> str \<Rightarrow> u32 \<Rightarrow> u32 option \<Rightarrow> ('w, unit, unit) io" where
  "validate_socket_metadata sys parent name socket_mode trusted_gid =
     bindM (validate_socket_identity sys parent name trusted_gid) (\<lambda>_.
     bindM (fails (sd_metadata sys parent name)) (\<lambda>st.
       if st_mode st AND 0xFFF \<noteq> socket_mode then raise () else ret ()))"

definition prepare_socket_path ::
  "('h, 'f, 'w) host_ops \<Rightarrow> 'h SecureDir \<Rightarrow> str \<Rightarrow> str \<Rightarrow> u32 option \<Rightarrow> ('w, unit, unit) io" where
  "prepare_socket_path ho parent name full_path trusted_gid =
     bindM (attempt (sd_metadata (ho_fs ho) parent name)) (\<lambda>m.
       case m of
         Inl e \<Rightarrow> if e = NotFound then ret () else raise ()
       | Inr _ \<Rightarrow>
           bindM (validate_socket_identity (ho_fs ho) parent name trusted_gid) (\<lambda>_.
           bindM (attempt (ho_connect ho full_path)) (\<lambda>c.
             case c of
               Inl e \<Rightarrow>
                 if e = ConnectionRefused then fails (sd_remove_file (ho_fs ho) parent name)
                 else if e = NotFound then ret ()
                 else raise ()
             | Inr _ \<Rightarrow> raise ())))"

text \<open>\<open>SocketPathGuard\<close>: when a later step fails, the socket is removed on the way out.\<close>

definition with_socket_guard ::
  "('h, 'f, 'w) fs_ops \<Rightarrow> 'h SecureDir \<Rightarrow> str \<Rightarrow> ('w, unit, 'a) io \<Rightarrow> ('w, unit, 'a) io" where
  "with_socket_guard sys parent name m =
     bindM (attempt m) (\<lambda>r.
       case r of
         Inr x \<Rightarrow> ret x
       | Inl e \<Rightarrow> bindM (attempt (sd_remove_file sys parent name)) (\<lambda>_. raise e))"

definition config_nonce_policy :: "str option \<Rightarrow> unit + NoncePolicy" where
  "config_nonce_policy nonce_context =
     (case nonce_context of
        Some context \<Rightarrow> bindE (map_err (\<lambda>_. ()) (nonce_context_new ResourceServer context)) (\<lambda>ctx. Inr (Required ctx))
      | None \<Rightarrow> Inr Optional)"

record ('h, 'f) host =
  h_parent :: "'h SecureDir"
  h_socket_name :: str
  h_peers :: PeerCredentialSet
  h_replay :: "('h, 'f) FileReplayStore"
  h_nonces :: InMemoryNonceStore
  h_nonce_policy :: NoncePolicy

definition socket_mode_for :: "u32 option \<Rightarrow> u32" where
  "socket_mode_for gid = (if gid \<noteq> None then 0x1B0 else 0x180)"

text \<open>The socket of the service: path prepared, bound, hardened and checked.\<close>

definition open_listener ::
  "('h, 'f, 'w) host_ops \<Rightarrow> Config \<Rightarrow> 'h SecureDir \<Rightarrow> str \<Rightarrow> ('w, unit, unit) io" where
  "open_listener ho config parent name =
     bindM (prepare_socket_path ho parent name (cfg_socket config) (cfg_socket_group_gid config)) (\<lambda>_.
     bindM (fails (ho_bind ho (cfg_socket config))) (\<lambda>_.
       with_socket_guard (ho_fs ho) parent name
         (bindM (if cfg_socket_group_gid config = None
                 then fails (ho_set_permissions ho (cfg_socket config) (socket_mode_for (cfg_socket_group_gid config)))
                 else ret ()) (\<lambda>_.
            validate_socket_metadata (ho_fs ho) parent name (socket_mode_for (cfg_socket_group_gid config))
              (cfg_socket_group_gid config)))))"

definition serve_start ::
  "externs \<Rightarrow> ('h, 'f, 'w) host_ops \<Rightarrow> Config \<Rightarrow> ('w, unit, ('h, 'f) host) io" where
  "serve_start X ho config =
     bindM (lift (ok_or () (path_parent (path_components (cfg_socket config))))) (\<lambda>parent_path.
     bindM (lift (ok_or () (path_file_name (path_components (cfg_socket config))))) (\<lambda>socket_name.
     bindM (case cfg_socket_group_gid config of
              Some gid \<Rightarrow> fails (validate_group_transport_process (ho_fs ho) gid)
            | None \<Rightarrow> ret ()) (\<lambda>_.
     bindM (fails (open_socket_parent (ho_fs ho) parent_path (cfg_socket_group_gid config))) (\<lambda>socket_parent.
     bindM (fails (acquire_exclusive_lock (ho_fs ho) socket_parent ''.keylix-verifier.lock'')) (\<lambda>_.
     bindM (fails (read_trusted_file (ho_fs ho) (path_components (cfg_peer_credentials config))
                     (sd_owner_uid socket_parent) (16 * 1024))) (\<lambda>credential_bytes.
     bindM (lift (map_err (\<lambda>_. ()) (credentials_from_json X credential_bytes))) (\<lambda>peers.
     bindM (fails (file_replay_store_new (ho_fs ho) (path_components (cfg_replay_dir config))
                     (sd_owner_uid socket_parent) (cfg_replay_capacity config))) (\<lambda>replay.
     bindM (lift (map_err (\<lambda>_. ()) (server_nonce_store_new (cfg_nonce_capacity config)))) (\<lambda>nonces.
     bindM (lift (config_nonce_policy (cfg_nonce_context config))) (\<lambda>nonce_policy.
     bindM (open_listener ho config socket_parent socket_name) (\<lambda>_.
       ret \<lparr>h_parent = socket_parent, h_socket_name = socket_name, h_peers = peers, h_replay = replay,
            h_nonces = nonces, h_nonce_policy = nonce_policy\<rparr>)))))))))))"

section \<open>The host is an adapter of the verifier\<close>

text \<open>The request and the proof that a connection carries.\<close>

definition frame_request :: "externs \<Rightarrow> PeerCredentialSet \<Rightarrow> bytes \<Rightarrow> VerifierRequest option" where
  "frame_request X peers frame =
     (case open_request X peers frame of
        Inl _ \<Rightarrow> None
      | Inr a \<Rightarrow> Option.bind (js_parse X (ar_payload a)) verifier_request_deserialize)"

definition connection_proof :: "externs \<Rightarrow> PeerCredentialSet \<Rightarrow> 's connection \<Rightarrow> UnverifiedDpopProof option" where
  "connection_proof X peers c =
     (case fst (read_frame (cn_ops c) (cn_stream c)) of
        Inl _ \<Rightarrow> None
      | Inr frame \<Rightarrow>
          Option.bind (frame_request X peers frame) (\<lambda>request.
            case parse_dpop_header_values X [vr_dpop_proof request] of Inl _ \<Rightarrow> None | Inr p \<Rightarrow> Some p))"

fun is_verified_reply :: "reply option \<Rightarrow> bool" where
  "is_verified_reply (Some (Sealed a res)) = is_verified res"
| "is_verified_reply _ = False"

lemma answer_frame_cases:
  assumes "answer_frame X policy np clock car expected issue peers frame st = (reply, st')"
  obtains (refused) "st' = st" "\<not> is_verified_reply (Some reply)"
  | (asked) a request res where "open_request X peers frame = Inr a" "frame_request X peers frame = Some request"
      "verifier_verify X policy np clock car expected issue request st = (res, st')" "reply = Sealed a res"
proof (cases "open_request X peers frame")
  case (Inl e)
  then show ?thesis using assms refused by (auto simp: answer_frame_def)
next
  case (Inr a)
  show ?thesis
  proof (cases "Option.bind (js_parse X (ar_payload a)) verifier_request_deserialize")
    case None
    then show ?thesis using assms refused Inr by (auto simp: answer_frame_def rejected_def)
  next
    case (Some request)
    moreover obtain res st1 where "verifier_verify X policy np clock car expected issue request st = (res, st1)"
      by (meson surj_pair)
    ultimately show ?thesis
      using assms Inr asked [of a request res] by (simp add: answer_frame_def frame_request_def)
  qed
qed

lemma host_step_cases:
  assumes "host_step X policy np sys store peers st c = (reply, st')"
  obtains (unread) "st' = st" "reply = None"
  | (answered) frame rep where "fst (read_frame (cn_ops c) (cn_stream c)) = Inr frame" "reply = Some rep"
      "answer_frame X policy np (cn_clock c) (file_check_and_record sys store (Inr (cn_time c)))
         expected_nonce (issue_nonce (cn_generated c)) peers frame st = (rep, st')"
  using assms
  by (auto simp: host_step_def handle_connection_def split: prod.splits sum.splits)

lemma host_adapter:
  assumes server: "verifying_server (\<lambda>t. file_check_and_record sys store (Inr t)) J recorded"
  shows "dpop_adapter (\<lambda>t. file_check_and_record sys store (Inr t)) J recorded X policy
    (host_step X policy np sys store peers) fst cn_time (connection_proof X peers) is_verified_reply"
proof -
  have "dpop_adapter_axioms (\<lambda>t. file_check_and_record sys store (Inr t)) X policy
    (host_step X policy np sys store peers) fst cn_time (connection_proof X peers) is_verified_reply"
  proof (unfold_locales, goal_cases)
    case (1 t c r t')
    then show ?case
    proof (cases rule: host_step_cases)
      case (answered frame rep)
      obtain w ns w' ns' where t: "t = (w, ns)" "t' = (w', ns')" by fastforce
      from answered(3) show ?thesis
      proof (cases rule: answer_frame_cases)
        case (asked a request res)
        note verified = verifier_verify_store [OF asked(3) [unfolded t]]
        show ?thesis
        proof (cases "w' = w \<and> \<not> is_verified res")
          case False
          then obtain p q target nonce where p: "parse_dpop_header_values X [vr_dpop_proof request] = Inr p"
            and q: "dpop_verify X policy (cn_clock c) (file_check_and_record sys store (Inr (cn_time c))) p
              (service_request request target nonce) w = (q, w')" "is_verified res \<longrightarrow> is_ok q"
            using verified by blast
          let ?c = "\<lparr>vc_clock = cn_clock c, vc_time = cn_time c, vc_proof = p,
            vc_request = service_request request target nonce\<rparr>"
          have "connection_proof X peers c = Some p"
            using answered(1) asked(2) p by (simp add: connection_proof_def)
          then show ?thesis
            using q t asked(4) answered(2) by (intro disjI2 exI [of _ ?c] exI [of _ q]) simp
        qed (use t asked(4) answered(2) in simp)
      qed (use answered(2) in simp)
    qed simp
  qed
  with server show ?thesis by (rule dpop_adapter.intro)
qed

text \<open>The answer to a request whose proof passes every check is the answer of the replay store.\<close>

definition store_answer :: "VerifiedBinding \<Rightarrow> DpopPortError + ReplayStatus \<Rightarrow> VerifierResult" where
  "store_answer b r =
     (case r of
        Inl _ \<Rightarrow> rejected FC_ReplayStoreUnavailable
      | Inr Replay \<Rightarrow> rejected FC_Replay
      | Inr Fresh \<Rightarrow> Verified VERIFIER_PROTOCOL_VERSION b)"

lemma valid_request_answered:
  assumes laws: "b64_law X" "sha256_law X"
    and asked: "vr_version request = VERIFIER_PROTOCOL_VERSION" "vr_access_token request \<noteq> []"
      "target_parse (vr_target request) = Inr target" "validate_method (vr_method request) = Inr ()"
      "required_nonce np expected issue ns = (Inr nonce, ns')"
      "parse_dpop_header_values X [vr_dpop_proof request] = Inr p"
    and valid: "clock = Inr now" "proof_checks X policy now p (service_request request target nonce)"
      "vr_confirmation_jkt request = Some (to_base64url X (thumbprint X (up_public_jwk p)))"
      "derive_replay_key X (thumbprint X (up_public_jwk p)) (vr_method request) target (clm_jti (up_claims p)) = Inr key"
      "in_i64 (clm_iat (up_claims p) + max_proof_age_seconds policy)"
    and store: "car rs key (clm_iat (up_claims p) + max_proof_age_seconds policy) = (r, rs')"
  shows "verifier_verify X policy np clock car expected issue request (rs, ns) =
    (store_answer \<lparr>vb_key_thumbprint = to_base64url X (thumbprint X (up_public_jwk p)),
       vb_proof_issued_at_unix = clm_iat (up_claims p), vb_nonce_enforced = (np \<noteq> Optional), vb_replay_checked = True\<rparr> r,
     rs', ns')"
proof -
  let ?e = "clm_iat (up_claims p) + max_proof_age_seconds policy"
  let ?v = "\<lparr>vp_key_thumbprint = thumbprint X (up_public_jwk p), vp_issued_at_unix = clm_iat (up_claims p),
    vp_nonce_enforced = (np \<noteq> Optional), vp_replay_checked = True, vp_access_token_hash_verified = True\<rparr>"
  have before: "verify_before_replay X policy clock p (service_request request target nonce) =
      Inr (thumbprint X (up_public_jwk p), key, ?e, True)"
    using valid by (simp add: verify_before_replay_Inr_iff service_request_def)
  have nonempty: "vr_dpop_proof request \<noteq> []"
    using asked(6) by (auto simp: parse_dpop_header_values_Inr_iff unverified_parse_def)
  have nonce: "(nonce \<noteq> None) = (np \<noteq> Optional)"
    using required_nonce_enforced [OF asked(5)] by simp
  have bound: "bind_verified X request ?v = Verified VERIFIER_PROTOCOL_VERSION
      \<lparr>vb_key_thumbprint = to_base64url X (thumbprint X (up_public_jwk p)),
       vb_proof_issued_at_unix = clm_iat (up_claims p), vb_nonce_enforced = (np \<noteq> Optional), vb_replay_checked = True\<rparr>"
    unfolding bind_verified_iff
    using valid(3) parse_jkt_thumbprint [OF laws]
    by (intro exI [of _ "\<lparr>hv_fingerprint = from_token_bytes X (as_bytes (vr_access_token request)),
        hv_confirmation = Some (thumbprint X (up_public_jwk p)), hv_source = EquivalentHostValidator\<rparr>"])
      (simp add: host_validated_new_Inr_iff)
  have dpop: "dpop_verify X policy clock car p (service_request request target nonce) rs =
      (case r of Inl _ \<Rightarrow> Inl ReplayStoreUnavailable | Inr Replay \<Rightarrow> Inl ReplayDetected | Inr Fresh \<Rightarrow> Inr ?v, rs')"
    using before store nonce by (simp add: dpop_verify_def service_request_def split: sum.splits ReplayStatus.splits)
  show ?thesis
    using asked nonempty bound
    by (cases r) (auto simp: verifier_verify_def dpop_request_new_def service_request_eq dpop Let_def store_answer_def
        rejected_def rejected_with_nonce_def split: ReplayStatus.splits)
qed

section \<open>Properties\<close>

definition host_docs :: "(json \<times> bytes) list" where
  "host_docs = sample_docs @
     [(verifier_request_serialize (svc_request (sample_call 1010)), [4]),
      (wire_envelope_serialize (sample_envelope REQUEST_DOMAIN [4]), [5]),
      (JObj [(''schema_version'', JInt 1),
             (''peers'', JArr [JObj [(''id'', JStr ''p''), (''secret_base64url'', JStr (real_b64_encode (replicate 32 5)))]])],
       [6])]"

abbreviation host_X :: externs where
  "host_X \<equiv> sample_externs host_docs"

definition sample_connection :: "i64 \<Rightarrow> pipe connection" where
  "sample_connection t =
     \<lparr>cn_ops = pipe_ops, cn_stream = \<lparr>pi_in = [[5], [NEWLINE]], pi_out = [], pi_clock = [0], pi_window = 4\<rparr>,
      cn_clock = Inr t, cn_time = t, cn_generated = Inl DpopPortError\<rparr>"

lemma host_docs_proof: "proof_docs host_docs"
  using sample_docs_proof unfolding proof_docs_def host_docs_def
  by (auto simp: map_of_append map_add_Some_iff) (simp_all add: sample_docs_def)

lemma host_docs_lookup:
  "map_of host_docs (verifier_request_serialize (svc_request (sample_call 1010))) = Some [4]"
  "map_of host_docs (wire_envelope_serialize (sample_envelope REQUEST_DOMAIN [4])) = Some [5]"
  by (simp_all add: host_docs_def sample_docs_def verifier_request_serialize_def wire_envelope_serialize_def
      header_build_def built_claims_def claims_build_def jwk_serialize_def)

lemma docs_printed:
  assumes "distinct (map snd docs)" "js_print (sample_externs docs) j \<noteq> []"
  shows "json_roundtrips (sample_externs docs) j"
  using assms by (auto simp: sample_externs_sel(4) split: option.splits intro: sample_json_roundtrips)

text \<open>Opening a frame that was sealed for one of the documents.\<close>

lemma docs_opens:
  assumes "distinct (map snd docs)" "map_of docs (wire_envelope_serialize (sample_envelope domain body)) = Some out"
    and "body \<noteq> []" "length body \<le> 10" "out \<noteq> []" "length out \<le> 10"
  shows "open_frame (sample_externs docs) sample_peers out domain =
    Inr \<lparr>ar_peer_id = ''p'', ar_correlation = replicate 32 9, ar_payload = body\<rparr>"
proof -
  have "seal_frame (sample_externs docs) sample_peers ''p'' (replicate 32 9) body domain = Inr out"
    using sample_seal [OF assms(3,4)] assms(2) by (simp add: sample_externs_sel(4))
  moreover have "\<forall>e. js_print (sample_externs docs) (wire_envelope_serialize e) = out \<longrightarrow>
      json_roundtrips (sample_externs docs) (wire_envelope_serialize e)"
    using docs_printed [OF assms(1)] assms(5) by blast
  ultimately show ?thesis
    using assms(5,6)
    by (intro open_sealed_frame [OF sample_b64_law sample_hmac_law sample_peers_wf])
      (simp_all add: IPC_CORRELATION_BYTES_def MAX_VERIFIER_PAYLOAD_BYTES_def)
qed

lemma sample_connection_read: "fst (read_frame (cn_ops (sample_connection t)) (cn_stream (sample_connection t))) = Inr [5]"
proof -
  have "fst (read_frame pipe_ops \<lparr>pi_in = [[5], [NEWLINE]], pi_out = [], pi_clock = [0], pi_window = 4\<rparr>) = trim_line [5]"
    by (rule pipe_read_frame [where t = 0 and ts = "[]"])
      (simp_all add: NEWLINE_def IO_TIMEOUT_def MAX_FRAME_BYTES_def MAX_VERIFIER_PAYLOAD_BYTES_def)
  then show ?thesis by (simp add: sample_connection_def trim_line_def CARRIAGE_RETURN_def)
qed

lemma host_frame:
  "open_request host_X sample_peers [5] = Inr \<lparr>ar_peer_id = ''p'', ar_correlation = replicate 32 9, ar_payload = [4]\<rparr>"
  "Option.bind (js_parse host_X [4]) verifier_request_deserialize = Some (svc_request (sample_call 1010))"
proof -
  have d: "distinct (map snd host_docs)" using host_docs_proof by (simp add: proof_docs_def)
  show "open_request host_X sample_peers [5] = Inr \<lparr>ar_peer_id = ''p'', ar_correlation = replicate 32 9, ar_payload = [4]\<rparr>"
    unfolding open_request_def by (rule docs_opens [OF d host_docs_lookup(2)]) simp_all
  have "js_print host_X (verifier_request_serialize (svc_request (sample_call 1010))) = [4]"
    by (simp add: sample_externs_sel(4) host_docs_lookup(1))
  then have "js_parse host_X [4] = Some (verifier_request_serialize (svc_request (sample_call 1010)))"
    using docs_printed [OF d, of "verifier_request_serialize (svc_request (sample_call 1010))"]
    by (auto simp: json_roundtrips_def)
  then show "Option.bind (js_parse host_X [4]) verifier_request_deserialize = Some (svc_request (sample_call 1010))"
    by (simp add: request_roundtrip)
qed

text \<open>Over a working replay directory, a connection that brings a request whose proof passes every check
  and whose token is bound to the proof key is answered as the records say.\<close>

lemma connection_answered:
  assumes laws: "b64_law X" "sha256_law X"
    and dir: "reliable_directory sys (sd_dir (fr_directory store)) file_at opened created healthy uid" "healthy w"
      "tidy (sd_owner_uid (fr_directory store)) (file_at w)" "\<not> fr_poisoned store"
    and asked: "fst (read_frame (cn_ops c) (cn_stream c)) = Inr frame" "open_request X peers frame = Inr a"
      "frame_request X peers frame = Some request" "vr_version request = 1" "vr_access_token request \<noteq> []"
      "target_parse (vr_target request) = Inr target" "validate_method (vr_method request) = Inr ()"
      "required_nonce np expected_nonce (issue_nonce (cn_generated c)) ns = (Inr nonce, ns')"
      "parse_dpop_header_values X [vr_dpop_proof request] = Inr p"
    and valid: "cn_clock c = Inr now" "proof_checks X policy now p (service_request request target nonce)"
      "vr_confirmation_jkt request = Some (to_base64url X (thumbprint X (up_public_jwk p)))"
      "derive_replay_key X (thumbprint X (up_public_jwk p)) (vr_method request) target (clm_jti (up_claims p)) = Inr key"
      "in_i64 (clm_iat (up_claims p) + max_proof_age_seconds policy)"
      "cn_time c \<le> clm_iat (up_claims p) + max_proof_age_seconds policy"
  shows "fst (host_step X policy np sys store peers (w, ns) c) = Some (Sealed a
    (if name_for key \<in> live_records (cn_time c) (file_at w) then rejected FC_Replay
     else if card (live_records (cn_time c) (file_at w)) < fr_capacity store
     then Verified 1 \<lparr>vb_key_thumbprint = to_base64url X (thumbprint X (up_public_jwk p)),
       vb_proof_issued_at_unix = clm_iat (up_claims p), vb_nonce_enforced = (np \<noteq> Optional), vb_replay_checked = True\<rparr>
     else rejected FC_ReplayStoreUnavailable))"
proof -
  let ?e = "clm_iat (up_claims p) + max_proof_age_seconds policy"
  let ?r = "if name_for key \<in> live_records (cn_time c) (file_at w) then Inr Replay
    else if card (live_records (cn_time c) (file_at w)) < fr_capacity store then Inr Fresh else Inl DpopPortError"
  have "length (replay_key_bytes key) = 32"
    using valid(4) laws(2) by (auto simp: derive_replay_key_def bindE_Inr_iff sha256_length simp del: replay_material.simps)
  from working_store_answers [OF dir(1-3) this valid(6) dir(4)]
  obtain w' where car: "file_check_and_record sys store (Inr (cn_time c)) w key ?e = (?r, w')"
    by (cases "file_check_and_record sys store (Inr (cn_time c)) w key ?e") simp
  have "vr_version request = VERIFIER_PROTOCOL_VERSION"
    using asked(4) by (simp add: VERIFIER_PROTOCOL_VERSION_def)
  from valid_request_answered [OF laws this asked(5-9) valid(1-5), where car = "file_check_and_record sys store (Inr (cn_time c))", OF car]
  show ?thesis
    using asked(1-3)
    by (auto simp: host_step_def handle_connection_def answer_frame_def frame_request_def store_answer_def
        VERIFIER_PROTOCOL_VERSION_def split: prod.splits sum.splits)
qed

text \<open>The sample connection brings a valid request.\<close>

lemma sample_asked:
  "frame_request host_X sample_peers [5] = Some (svc_request (sample_call 1010))"
  "vr_version (svc_request (sample_call 1010)) = 1" "vr_access_token (svc_request (sample_call 1010)) \<noteq> []"
  "target_parse (vr_target (svc_request (sample_call 1010))) = Inr (EffectiveRequestTarget ''http://a/b'')"
  "validate_method (vr_method (svc_request (sample_call 1010))) = Inr ()"
proof -
  show "target_parse (vr_target (svc_request (sample_call 1010))) = Inr (EffectiveRequestTarget ''http://a/b'')"
    "validate_method (vr_method (svc_request (sample_call 1010))) = Inr ()"
    unfolding sample_call_def by code_simp+
qed (use host_frame in \<open>simp_all add: frame_request_def sample_call_def from_bytes_def\<close>)

lemma sample_valid:
  fixes req target
  defines "req \<equiv> svc_request (sample_call 1010)" and "target \<equiv> EffectiveRequestTarget ''http://a/b''"
  obtains p key where "parse_dpop_header_values host_X [vr_dpop_proof req] = Inr p" "clm_iat (up_claims p) = 1000"
    "\<And>nonce. nonce = None \<or> nonce = Some (DpopNonce ''n1'') \<Longrightarrow>
      proof_checks host_X policy_default 1010 p (service_request req target nonce)"
    "vr_confirmation_jkt req = Some (to_base64url host_X (thumbprint host_X (up_public_jwk p)))"
    "derive_replay_key host_X (thumbprint host_X (up_public_jwk p)) (vr_method req) target (clm_jti (up_claims p)) = Inr key"
proof -
  obtain p where p: "parse_dpop_header_values host_X [proof_header_value sample_proof] = Inr p"
    "up_public_jwk p = sample_jwk" "clm_jti (up_claims p) = ''id''" "clm_iat (up_claims p) = 1000"
    "proof_checks host_X policy_default 1010 p sample_request"
    using docs_parse [OF host_docs_proof] by blast
  obtain key where "derive_replay_key host_X (thumbprint host_X (up_public_jwk p)) (vr_method req) target (clm_jti (up_claims p)) = Inr key"
    using replay_key_exists [OF sample_request_wf(1) sample_sha256_law, of "clm_jti (up_claims p)" host_docs "up_public_jwk p"] p(3)
    by (auto simp: sample_request_def sample_call_def MAX_PROOF_ID_BYTES_def req_def target_def)
  then show ?thesis
    using p by (intro that [of p])
      (auto simp: req_def target_def sample_call_def service_request_def sample_request_def to_base64url_def thumbprint_def
        canonical_thumbprint_input_def sample_externs_sel proof_checks_def)
qed

text \<open>C30. A connection that does not authenticate gets one fixed answer and has no effect: whether the
  frame is malformed, from an unknown peer or with a wrong tag, the answer is an unsealed
  \<open>malformed_request\<close>, and neither store is touched.\<close>

theorem unauthenticated_connection_refused:
  assumes "read_frame so s = (Inr frame, s1)" "open_request X peers frame = Inl e"
    and "write_frame so (js_print X (verifier_result_serialize (rejected FC_MalformedRequest))) s1 = (r, s2)"
  shows "handle_connection so X policy np clock car expected issue peers s st =
    (r, Some (Unsealed FC_MalformedRequest), s2, st)"
proof -
  have "e = MalformedEnvelope \<or> e = UnauthorizedPeer"
    using assms(2) by (auto simp: open_request_def open_frame_def ok_or_def result_simps Let_def
        split: if_splits option.splits)
  then show ?thesis
    using assms by (auto simp: handle_connection_def answer_frame_def reply_bytes_def)
qed

text \<open>C20. The answer reaches the client that asked: when the sealed request of a client was read and the
  connection succeeded, what was written is one frame that opens at the client as the response to
  that very request, and its payload is the answer the application gave to the request.\<close>

theorem sealed_answer_reaches_client:
  assumes env: "b64_law X" "hmac_law X" "wf_credentials peers" "byte_sink so out"
    and json: "\<forall>e. js_print X (wire_envelope_serialize e) \<noteq> [] \<longrightarrow> json_roundtrips X (wire_envelope_serialize e)"
      "json_roundtrips X (verifier_request_serialize request)"
    and sealed: "seal_request X peers (Some correlation) peer_id (js_print X (verifier_request_serialize request)) = Inr sealed"
      "length correlation = IPC_CORRELATION_BYTES"
    and read: "read_frame so s = (Inr (sr_frame sealed), s1)"
    and handled: "handle_connection so X policy np clock car expected issue peers s st = (Inr (), reply, s2, st')"
  shows "\<exists>res response. verifier_verify X policy np clock car expected issue request st = (res, st') \<and>
    out s2 = out s1 @ response @ [NEWLINE] \<and>
    open_response_for_request X peers sealed response =
      Inr \<lparr>ar_peer_id = peer_id, ar_correlation = correlation, ar_payload = js_print X (verifier_result_serialize res)\<rparr>"
proof -
  let ?a = "\<lparr>ar_peer_id = peer_id, ar_correlation = correlation, ar_payload = js_print X (verifier_request_serialize request)\<rparr>"
  have s: "seal_frame X peers peer_id correlation (js_print X (verifier_request_serialize request)) REQUEST_DOMAIN =
      Inr (sr_frame sealed)" "sr_peer_id sealed = peer_id" "sr_correlation sealed = correlation"
    using sealed(1) by (simp_all add: seal_request_Inr_iff)
  have bounds: "sr_frame sealed \<noteq> []" "length (sr_frame sealed) \<le> MAX_VERIFIER_PAYLOAD_BYTES * 2"
    using read_frame_Inr [OF read] by (auto simp: MAX_FRAME_BYTES_def)
  have readable: "\<forall>e. js_print X (wire_envelope_serialize e) = bs \<longrightarrow> json_roundtrips X (wire_envelope_serialize e)"
    if "bs \<noteq> []" for bs using json(1) that by blast
  have opened: "open_request X peers (sr_frame sealed) = Inr ?a"
    unfolding open_request_def using open_sealed_frame [OF env(1-3) sealed(2) s(1) readable bounds] bounds by blast
  obtain res st1 where res: "verifier_verify X policy np clock car expected issue request st = (res, st1)"
    by (meson surj_pair)
  have "Option.bind (js_parse X (ar_payload ?a)) verifier_request_deserialize = Some request"
    using json(2) by (simp add: json_roundtrips_def request_roundtrip)
  then have answer: "answer_frame X policy np clock car expected issue peers (sr_frame sealed) st = (Sealed ?a res, st1)"
    using opened res by (simp add: answer_frame_def)
  obtain response where response: "seal_response X peers ?a (js_print X (verifier_result_serialize res)) = Inr response"
    and written: "write_frame so response s1 = (Inr (), s2)" "st' = st1"
    using handled read answer
    by (auto simp: handle_connection_def reply_bytes_def map_err_def split: sum.splits prod.splits)
  have "response \<noteq> []" "length response \<le> MAX_VERIFIER_PAYLOAD_BYTES * 2"
    using written(1) by (auto simp: write_frame_def MAX_FRAME_BYTES_def split: if_splits)
  then have "open_frame X peers response RESPONSE_DOMAIN =
      Inr \<lparr>ar_peer_id = peer_id, ar_correlation = correlation, ar_payload = js_print X (verifier_result_serialize res)\<rparr>"
    using response readable
    by (intro open_sealed_frame [OF env(1-3) sealed(2)]) (simp_all add: seal_response_def)
  moreover have "out s2 = out s1 @ response @ [NEWLINE]"
    using byte_sink.write_frame_sends [OF env(4) written(1)] by auto
  ultimately show ?thesis
    using res written(2) s(2,3) by (intro exI [of _ res] exI [of _ response]) (simp add: open_response_for_request_def)
qed

definition old_request :: VerifierRequest where
  "old_request = \<lparr>vr_version = 2, vr_method = ''GET'', vr_target = ''http://a/b'', vr_access_token = ''t'',
     vr_dpop_proof = ''p'', vr_confirmation_jkt = None\<rparr>"

definition client_docs :: "(json \<times> bytes) list" where
  "client_docs =
     [(verifier_request_serialize old_request, [4]),
      (wire_envelope_serialize (sample_envelope REQUEST_DOMAIN [4]), [5]),
      (verifier_result_serialize (rejected FC_UnsupportedVersion), [6]),
      (wire_envelope_serialize (sample_envelope RESPONSE_DOMAIN [6]), [7]),
      (verifier_result_serialize (rejected FC_MalformedRequest), [8])]"

abbreviation client_X :: externs where
  "client_X \<equiv> sample_externs client_docs"

definition line_pipe :: "bytes \<Rightarrow> pipe" where
  "line_pipe line = \<lparr>pi_in = [line @ [NEWLINE]], pi_out = [], pi_clock = [], pi_window = 4\<rparr>"

lemma line_pipe_read:
  assumes "b \<noteq> NEWLINE" "b \<noteq> CARRIAGE_RETURN"
  shows "read_frame pipe_ops (line_pipe [b]) = (Inr [b], (line_pipe [b])\<lparr>pi_in := []\<rparr>)"
proof -
  have "newline_position [b, NEWLINE] = Some 1"
    using assms(1) by (simp add: newline_position_def)
  then show ?thesis
    using assms(2)
    by (simp add: read_frame_def read_frame_with_timeout_def pipe_ops_def pipe_now_def deadline_from_def IO_TIMEOUT_def
        line_pipe_def read_frame_loop.simps read_round_def ret_def pipe_read_def finish_frame_def trim_line_def Let_def
        MAX_FRAME_BYTES_def MAX_VERIFIER_PAYLOAD_BYTES_def)
qed

lemma pipe_write_byte:
  assumes "pi_clock s = []" "pi_window s = 4"
  shows "write_frame pipe_ops [b] s = (Inr (), s\<lparr>pi_out := pi_out s @ [b, NEWLINE]\<rparr>)"
  using assms pipe_write_frame [of "[b]" s] by (simp add: MAX_FRAME_BYTES_def MAX_VERIFIER_PAYLOAD_BYTES_def)

lemma client_docs_lookup:
  "map_of client_docs (verifier_request_serialize old_request) = Some [4]"
  "map_of client_docs (wire_envelope_serialize (sample_envelope REQUEST_DOMAIN [4])) = Some [5]"
  "map_of client_docs (verifier_result_serialize (rejected FC_UnsupportedVersion)) = Some [6]"
  "map_of client_docs (wire_envelope_serialize (sample_envelope RESPONSE_DOMAIN [6])) = Some [7]"
  "map_of client_docs (verifier_result_serialize (rejected FC_MalformedRequest)) = Some [8]"
proof -
  have "real_b64_encode [4] \<noteq> real_b64_encode [6]" by code_simp
  then show "map_of client_docs (verifier_request_serialize old_request) = Some [4]"
    "map_of client_docs (wire_envelope_serialize (sample_envelope REQUEST_DOMAIN [4])) = Some [5]"
    "map_of client_docs (verifier_result_serialize (rejected FC_UnsupportedVersion)) = Some [6]"
    "map_of client_docs (wire_envelope_serialize (sample_envelope RESPONSE_DOMAIN [6])) = Some [7]"
    "map_of client_docs (verifier_result_serialize (rejected FC_MalformedRequest)) = Some [8]"
    by (simp_all add: client_docs_def verifier_request_serialize_def wire_envelope_serialize_def sample_envelope_def
        verifier_result_serialize_def rejected_def)
qed

theorem unauthenticated_connection_refused_witness:
  "handle_connection pipe_ops client_X policy_default Optional (Inr 0) (\<lambda>s k e. (Inr Fresh, s)) expected_nonce
     (issue_nonce (Inl DpopPortError)) [] (line_pipe [5]) ((), sample_nonces) =
   (Inr (), Some (Unsealed FC_MalformedRequest), (line_pipe [5])\<lparr>pi_in := [], pi_out := [8, NEWLINE]\<rparr>, (), sample_nonces)"
proof -
  obtain e where e: "open_request client_X [] [5] = Inl e"
    unfolding open_request_def by (cases "open_frame client_X [] [5] REQUEST_DOMAIN")
      (auto simp: open_frame_Inr_iff find_peer_def)
  have written: "write_frame pipe_ops (js_print client_X (verifier_result_serialize (rejected FC_MalformedRequest)))
      ((line_pipe [5])\<lparr>pi_in := []\<rparr>) = (Inr (), (line_pipe [5])\<lparr>pi_in := [], pi_out := [8, NEWLINE]\<rparr>)"
    using pipe_write_byte [of "(line_pipe [5])\<lparr>pi_in := []\<rparr>" 8]
    by (simp add: sample_externs_sel(4) client_docs_lookup line_pipe_def)
  have read: "read_frame pipe_ops (line_pipe [5]) = (Inr [5], (line_pipe [5])\<lparr>pi_in := []\<rparr>)"
    by (rule line_pipe_read) (simp_all add: NEWLINE_def CARRIAGE_RETURN_def)
  show ?thesis
    using unauthenticated_connection_refused [OF read e written] by simp
qed

theorem sealed_answer_reaches_client_witness:
  "\<exists>sealed reply s2. seal_request client_X sample_peers (Some (replicate 32 9)) ''p'' [4] = Inr sealed \<and>
     handle_connection pipe_ops client_X policy_default Optional (Inr 0) (\<lambda>s k e. (Inr Fresh, s)) expected_nonce
       (issue_nonce (Inl DpopPortError)) sample_peers (line_pipe (sr_frame sealed)) ((), sample_nonces) =
       (Inr (), reply, s2, (), sample_nonces) \<and>
     (\<exists>response. pi_out s2 = response @ [NEWLINE] \<and> open_response_for_request client_X sample_peers sealed response =
       Inr \<lparr>ar_peer_id = ''p'', ar_correlation = replicate 32 9, ar_payload = [6]\<rparr>)"
proof -
  let ?h = "handle_connection pipe_ops client_X policy_default Optional (Inr 0) (\<lambda>s k e. (Inr Fresh, s)) expected_nonce
       (issue_nonce (Inl DpopPortError)) sample_peers (line_pipe [5]) ((), sample_nonces)"
  let ?s1 = "(line_pipe [5])\<lparr>pi_in := []\<rparr>"
  let ?sealed = "\<lparr>sr_frame = [5], sr_peer_id = ''p'', sr_correlation = replicate 32 9\<rparr>"
  let ?a = "\<lparr>ar_peer_id = ''p'', ar_correlation = replicate 32 9, ar_payload = [4]\<rparr>"
  have d: "distinct (map snd client_docs)" by (simp add: client_docs_def)
  have print: "js_print client_X (verifier_request_serialize old_request) = [4]"
    "js_print client_X (verifier_result_serialize (rejected FC_UnsupportedVersion)) = [6]"
    by (simp_all add: sample_externs_sel(4) client_docs_lookup)
  have sealed: "seal_request client_X sample_peers (Some (replicate 32 9)) ''p'' [4] = Inr ?sealed"
    "seal_response client_X sample_peers ?a [6] = Inr [7]"
    using sample_seal [of "[4]" client_docs REQUEST_DOMAIN] sample_seal [of "[6]" client_docs RESPONSE_DOMAIN]
    by (simp_all add: seal_request_def seal_response_def sample_externs_sel(4) client_docs_lookup)
  have read: "read_frame pipe_ops (line_pipe [5]) = (Inr [5], ?s1)"
    by (rule line_pipe_read) (simp_all add: NEWLINE_def CARRIAGE_RETURN_def)
  have request: "json_roundtrips client_X (verifier_request_serialize old_request)"
    using docs_printed [OF d] print(1) by simp
  have opened: "open_request client_X sample_peers [5] = Inr ?a"
    unfolding open_request_def using client_docs_lookup(2) d by (intro docs_opens) simp_all
  have parsed: "Option.bind (js_parse client_X [4]) verifier_request_deserialize = Some old_request"
    using request print(1) by (simp add: json_roundtrips_def request_roundtrip)
  have verify: "verifier_verify client_X policy_default Optional (Inr 0) (\<lambda>s k e. (Inr Fresh, s)) expected_nonce
      (issue_nonce (Inl DpopPortError)) old_request ((), sample_nonces) = (rejected FC_UnsupportedVersion, (), sample_nonces)"
    by (simp add: verifier_verify_def old_request_def VERIFIER_PROTOCOL_VERSION_def)
  have "answer_frame client_X policy_default Optional (Inr 0) (\<lambda>s k e. (Inr Fresh, s)) expected_nonce
      (issue_nonce (Inl DpopPortError)) sample_peers [5] ((), sample_nonces) =
      (Sealed ?a (rejected FC_UnsupportedVersion), (), sample_nonces)"
    using opened parsed verify by (simp add: answer_frame_def)
  then have handled: "?h = (Inr (), Some (Sealed ?a (rejected FC_UnsupportedVersion)), ?s1\<lparr>pi_out := [7, NEWLINE]\<rparr>, (), sample_nonces)"
    using read sealed(2) print(2) pipe_write_byte [of ?s1 7]
    by (simp add: handle_connection_def reply_bytes_def line_pipe_def)
  have json: "\<forall>e. js_print client_X (wire_envelope_serialize e) \<noteq> [] \<longrightarrow> json_roundtrips client_X (wire_envelope_serialize e)"
    using docs_printed [OF d] by blast
  from sealed_answer_reaches_client [OF sample_b64_law sample_hmac_law sample_peers_wf pipe.byte_sink_axioms json request,
      of "replicate 32 9" "''p''" ?sealed "line_pipe [5]" ?s1, unfolded print] sealed(1) read handled verify
  have "\<exists>response. pi_out (?s1\<lparr>pi_out := [7, NEWLINE]\<rparr>) = pi_out ?s1 @ response @ [NEWLINE] \<and>
      open_response_for_request client_X sample_peers ?sealed response =
        Inr \<lparr>ar_peer_id = ''p'', ar_correlation = replicate 32 9, ar_payload = [6]\<rparr>"
    using print(2) by (fastforce simp: IPC_CORRELATION_BYTES_def)
  then show ?thesis
    using sealed(1) handled by (auto simp: line_pipe_def)
qed

lemma wp_bind_failsI:
  assumes "wp m P w" "\<And>e w'. P (Inl e) w' \<Longrightarrow> Q (Inl ()) w'" "\<And>x w'. P (Inr x) w' \<Longrightarrow> wp (f x) Q w'"
  shows "wp (bindM (fails m) f) Q w"
  unfolding fails_def wp_bindM wp_map_errM
  by (rule wp_mono [OF assms(1)]) (use assms(2,3) in \<open>auto simp: map_err_def split: sum.splits\<close>)

lemma wp_any: "wp m (\<lambda>_ _. True) w"
  by (simp add: wp_def split: prod.splits)

lemma wp_file_replay_store_new:
  assumes "dir_tree sys node root child attr xattr"
  shows "wp (file_replay_store_new sys p uid cap) (\<lambda>r _. \<forall>store. r = Inr store \<longrightarrow>
    0 < cap \<and> fr_capacity store = cap \<and> sd_owner_uid (fr_directory store) = uid \<and>
    (\<exists>cs ns. normalized_absolute_components p = Inr cs \<and> walk child root cs = Some ns \<and>
       list_all (\<lambda>n. trusted_dir uid (attr n)) ns \<and> node (sd_dir (fr_directory store)) = last ns \<and>
       private_mode (attr (last ns)))) w"
proof (cases "cap = 0")
  case False
  have opened: "wp (file_replay_store_open sys d cap) (\<lambda>r _. \<forall>store. r = Inr store \<longrightarrow>
      fr_directory store = d \<and> fr_capacity store = cap) u" for d u
    unfolding file_replay_store_open_def by (intro wp_bindI [OF wp_any]) (auto simp: wp_ret)
  show ?thesis
    using False unfolding file_replay_store_new_def
    by (simp, intro wp_bind_portI [OF dir_tree.wp_open_service_owned [OF assms]] wp_mono [OF opened]) auto
qed (simp add: file_replay_store_new_def wp_raise)

text \<open>C29. A host that started has what its configuration asks for: a non-empty allowlist of at most 16
  peers with distinct identifiers and 32-byte keys, the configured positive capacities, the nonce
  policy of the configured context, and a replay directory that only root and the owner of the
  socket directory control.\<close>

theorem started_host_checked:
  assumes tree: "dir_tree (ho_fs ho) node root child attr xattr"
    and started: "serve_start X ho config w = (Inr h, w')"
  shows "1 \<le> length (h_peers h) \<and> length (h_peers h) \<le> 16 \<and> distinct (map cred_id (h_peers h)) \<and>
    list_all (\<lambda>c. valid_peer_id (cred_id c) \<and> length (cred_key c) = 32) (h_peers h) \<and>
    0 < cfg_replay_capacity config \<and> fr_capacity (h_replay h) = cfg_replay_capacity config \<and>
    0 < cfg_nonce_capacity config \<and>
    h_nonces h = \<lparr>ns_capacity = cfg_nonce_capacity config, ns_entries = [], ns_poisoned = False\<rparr> \<and>
    (case cfg_nonce_context config of
       None \<Rightarrow> h_nonce_policy h = Optional
     | Some context \<Rightarrow> h_nonce_policy h = Required \<lparr>nc_namespace = ResourceServer, nc_server_id = context\<rparr>) \<and>
    (\<exists>ns. walk child root (path_segments (cfg_replay_dir config)) = Some ns \<and>
       list_all (\<lambda>n. trusted_dir (sd_owner_uid (h_parent h)) (attr n)) ns \<and>
       node (sd_dir (fr_directory (h_replay h))) = last ns \<and> private_mode (attr (last ns)))"
proof -
  let ?replay = "\<lambda>parent store. 0 < cfg_replay_capacity config \<and> fr_capacity store = cfg_replay_capacity config \<and>
    (\<exists>ns. walk child root (path_segments (cfg_replay_dir config)) = Some ns \<and>
       list_all (\<lambda>n. trusted_dir (sd_owner_uid parent) (attr n)) ns \<and>
       node (sd_dir (fr_directory store)) = last ns \<and> private_mode (attr (last ns)))"
  have replay: "wp (file_replay_store_new (ho_fs ho) (path_components (cfg_replay_dir config)) (sd_owner_uid parent)
      (cfg_replay_capacity config)) (\<lambda>r _. \<forall>store. r = Inr store \<longrightarrow> ?replay parent store) u" for parent u
    by (rule wp_mono [OF wp_file_replay_store_new [OF tree]]) (auto simp: normalized_components_iff)
  have lifted: "wp (lift r) (\<lambda>q _. q = r) u" for r :: "unit + 'x" and u by (simp add: wp_lift)
  have "wp (serve_start X ho config) (\<lambda>r _. \<forall>h. r = Inr h \<longrightarrow>
      (\<exists>input. credentials_from_json X input = Inr (h_peers h)) \<and> ?replay (h_parent h) (h_replay h) \<and>
      server_nonce_store_new (cfg_nonce_capacity config) = Inr (h_nonces h) \<and>
      config_nonce_policy (cfg_nonce_context config) = Inr (h_nonce_policy h)) w"
    unfolding serve_start_def
    by (rule wp_bindI [OF wp_any], simp, rule wp_bindI [OF wp_any], simp, rule wp_bindI [OF wp_any], simp,
        rule wp_bindI [OF wp_any], simp, rule wp_bindI [OF wp_any], simp, rule wp_bindI [OF wp_any], simp,
        rule wp_bindI [OF lifted], simp, rule wp_bind_failsI [OF replay], simp, rule wp_bindI [OF lifted], simp,
        rule wp_bindI [OF lifted], simp, rule wp_bindI [OF wp_any], simp)
      (auto simp: wp_ret map_err_def split: sum.splits)
  from wpD [OF this started] obtain input where input: "credentials_from_json X input = Inr (h_peers h)"
    and rest: "?replay (h_parent h) (h_replay h)" "server_nonce_store_new (cfg_nonce_capacity config) = Inr (h_nonces h)"
      "config_nonce_policy (cfg_nonce_context config) = Inr (h_nonce_policy h)" by auto
  have "0 < cfg_nonce_capacity config \<and>
      h_nonces h = \<lparr>ns_capacity = cfg_nonce_capacity config, ns_entries = [], ns_poisoned = False\<rparr>"
    using rest(2) by (auto simp: server_nonce_store_new_def split: if_splits)
  moreover have "case cfg_nonce_context config of
       None \<Rightarrow> h_nonce_policy h = Optional
     | Some context \<Rightarrow> h_nonce_policy h = Required \<lparr>nc_namespace = ResourceServer, nc_server_id = context\<rparr>"
    using rest(3) by (auto simp: config_nonce_policy_def nonce_context_new_def map_err_def result_simps
        split: option.splits if_splits sum.splits)
  ultimately show ?thesis
    using credentials_from_json_wf [OF input] rest(1) by (simp add: list_all_iff)
qed

definition host_tree :: "(str list, str list, bool) host_ops" where
  "host_tree = \<lparr>ho_fs = tree_ops\<lparr>op_metadata := (\<lambda>_ _ bound.
       (if bound then Inr \<lparr>st_mode = 0xC180, st_uid = 1000, st_gid = 1000, st_size = 0\<rparr> else Inl NotFound, bound))\<rparr>,
     ho_connect = (\<lambda>_. raise NotFound), ho_bind = (\<lambda>_ _. (Inr (), True)), ho_set_permissions = (\<lambda>_ _. ret ())\<rparr>"

definition sample_config :: Config where
  "sample_config = \<lparr>cfg_socket = ''/run/replay/socket'', cfg_peer_credentials = ''/run/replay/peers'',
     cfg_replay_dir = ''/run/replay'', cfg_nonce_context = Some ''rs'', cfg_socket_group_gid = None,
     cfg_replay_capacity = 3, cfg_nonce_capacity = 2\<rparr>"

interpretation host_tree: dir_tree "ho_fs host_tree" id "[]" tree_child tree_attr "\<lambda>_ _. None"
  by unfold_locales (auto simp: host_tree_def tree_ops_def ret_def raise_def split: option.splits)

theorem started_host_checked_witness:
  "\<exists>h. serve_start ipc_X host_tree sample_config False = (Inr h, True) \<and> 1 \<le> length (h_peers h) \<and>
     h_nonce_policy h = Required \<lparr>nc_namespace = ResourceServer, nc_server_id = ''rs''\<rparr>"
proof -
  have "case serve_start ipc_X host_tree sample_config False of (r, bound) \<Rightarrow> is_ok r \<and> bound"
    by code_simp
  then obtain h where h: "serve_start ipc_X host_tree sample_config False = (Inr h, True)"
    by (auto simp: result_simps split: prod.splits)
  from started_host_checked [OF host_tree.dir_tree_axioms h] h show ?thesis
    by (simp add: sample_config_def)
qed

end
