(* ===== verification/Host_Main.thy ===== *)
theory Host_Main
  imports Verifier_Host
begin

text \<open>
  The program \<open>keylix-verifier\<close> (\<open>main.rs\<close>: \<open>main\<close>, \<open>run\<close>, \<open>serve\<close>): what an invocation does, round by
  round of the loop over \<open>listener.incoming()\<close>, and what stays between invocations. A process may be
  killed at any moment between two rounds; then the nonces in memory are gone, the replay directory
  stays and the socket is not removed.

  The interface \<open>replay_world\<close> says what the program relies on: a tree of directories, a part of the
  world that holds the replay records and that calls elsewhere leave alone, and a replay store over
  it. A \<open>deployment\<close> has the records in a directory that keeps the POSIX laws.
\<close>

section \<open>Invocations\<close>

datatype ExitCode = SUCCESS | FAILURE

text \<open>\<open>println!\<close> of the help text; a backslash at the end of a source line also drops the indentation
  of the next one.\<close>

definition help_lines :: "str list" where
  "help_lines =
     [''keylix-verifier'',
      ''Bounded local sender-binding verifier reference host.'',
      [],
      ''Usage:'',
      ''keylix-verifier --socket PATH --peer-credentials PATH --replay-dir PATH [options]'',
      [],
      ''Required:'',
      ''--socket PATH                 absolute socket path in private runtime directory'',
      ''--peer-credentials PATH       absolute credential path under trusted owners'',
      ''--replay-dir PATH             absolute persistent replay directory'',
      [],
      ''Options:'',
      ''--require-nonce-context ID    require server-owned nonce for this RS context'',
      ''--socket-group-gid GID        use one pre-provisioned trusted local socket group'',
      ''--replay-capacity N           maximum active replay records (default 4096)'',
      ''--nonce-capacity N            process-local nonce contexts (default 64)'',
      ''-h, --help                    print this help'',
      ''-V, --version                 print version'',
      [],
      ''Runtime, credential, and replay paths are traversed descriptor-relative;'',
      ''every directory owner must be root or the verifier uid, and untrusted'',
      ''writable/symlinked path components fail closed. The reference deployment'',
      ''is single-instance. Replay state is durable; nonce state is process-local.'']"

definition print_help :: str where
  "print_help = concat (map (\<lambda>l. l @ [newline]) help_lines)"

text \<open>A process that serves has passed \<open>serve\<close> up to its loop. \<open>version\<close> is the package version that the
  build puts in.\<close>

datatype ('h, 'f) process = Absent | Serving "('h, 'f) host"

datatype 's host_event =
    Invoked "str list"
  | Incoming "unit + 's connection"
  | Listener_ended
  | Killed

datatype outcome =
    Started
  | Answered "reply option"
  | Exited ExitCode str str
  | Nothing

definition main_failure :: outcome where
  "main_failure = Exited FAILURE [] (''keylix-verifier: reference host failed closed'' @ [newline])"

definition main_start ::
  "externs \<Rightarrow> ('h, 'f, 'w) host_ops \<Rightarrow> str \<Rightarrow> str list \<Rightarrow> 'w \<Rightarrow> outcome \<times> 'w \<times> ('h, 'f) process" where
  "main_start X ho version args w =
     (case parse_args args of
        Inl _ \<Rightarrow> (main_failure, w, Absent)
      | Inr Help \<Rightarrow> (Exited SUCCESS print_help [], w, Absent)
      | Inr Version \<Rightarrow> (Exited SUCCESS (''keylix-verifier '' @ version @ [newline]) [], w, Absent)
      | Inr (Serve config) \<Rightarrow>
          (case serve_start X ho config w of
             (Inl _, w') \<Rightarrow> (main_failure, w', Absent)
           | (Inr h, w') \<Rightarrow> (Started, w', Serving h)))"

text \<open>One round of the loop. A connection that could not be accepted is skipped, and the result of the
  others is dropped.\<close>

definition serve_round ::
  "externs \<Rightarrow> ('h, 'f, 'w) host_ops \<Rightarrow> ('h, 'f) host \<Rightarrow> unit + 's connection \<Rightarrow> 'w
   \<Rightarrow> reply option \<times> 'w \<times> ('h, 'f) host" where
  "serve_round X ho h incoming w =
     (case incoming of
        Inl _ \<Rightarrow> (None, w, h)
      | Inr c \<Rightarrow>
          (case host_step X policy_default (h_nonce_policy h) (ho_fs ho) (h_replay h) (h_peers h) (w, h_nonces h) c of
             (reply, w', nonces) \<Rightarrow> (reply, w', h\<lparr>h_nonces := nonces\<rparr>)))"

text \<open>After the loop: \<open>drop(socket_guard)\<close>, whose error is ignored.\<close>

definition serve_end :: "('h, 'f, 'w) host_ops \<Rightarrow> ('h, 'f) host \<Rightarrow> 'w \<Rightarrow> 'w" where
  "serve_end ho h w = snd (sd_remove_file (ho_fs ho) (h_parent h) (h_socket_name h) w)"

text \<open>One process at a time: an event that does not fit the state has no effect.\<close>

fun program_step ::
  "externs \<Rightarrow> ('h, 'f, 'w) host_ops \<Rightarrow> str \<Rightarrow> 'w \<times> ('h, 'f) process \<Rightarrow> 's host_event \<Rightarrow> outcome \<times> 'w \<times> ('h, 'f) process" where
  "program_step X ho version (w, Absent) (Invoked args) = main_start X ho version args w"
| "program_step X ho version (w, Serving h) (Incoming incoming) =
     (case serve_round X ho h incoming w of (reply, w', h') \<Rightarrow> (Answered reply, w', Serving h'))"
| "program_step X ho version (w, Serving h) Listener_ended = (Exited SUCCESS [] [], serve_end ho h w, Absent)"
| "program_step X ho version (w, Serving h) Killed = (Nothing, w, Absent)"
| "program_step X ho version (w, proc) _ = (Nothing, w, proc)"


section \<open>What the program relies on\<close>

text \<open>Code that leaves the files of the replay directory alone.\<close>

lemma keeps_fails [keeps_intros]: "keeps file_at m \<Longrightarrow> keeps file_at (fails m)"
  by (simp add: fails_def keeps_intros)

text \<open>An absolute path that leads to a node.\<close>

definition leads_to :: "('n \<Rightarrow> str \<Rightarrow> 'n option) \<Rightarrow> 'n \<Rightarrow> path \<Rightarrow> 'n \<Rightarrow> bool" where
  "leads_to child root p n \<longleftrightarrow>
     (\<exists>cs ns. normalized_absolute_components p = Inr cs \<and> walk child root cs = Some ns \<and> last ns = n)"

text \<open>The configuration names the replay directory, and the socket lies elsewhere.\<close>

definition well_placed :: "('n \<Rightarrow> str \<Rightarrow> 'n option) \<Rightarrow> 'n \<Rightarrow> 'n \<Rightarrow> Config \<Rightarrow> bool" where
  "well_placed child root replay_node config \<longleftrightarrow>
     leads_to child root (path_components (cfg_replay_dir config)) replay_node \<and>
     (\<forall>q. path_parent (path_components (cfg_socket config)) = Some q \<longrightarrow> \<not> leads_to child root q replay_node)"

definition event_placed :: "('n \<Rightarrow> str \<Rightarrow> 'n option) \<Rightarrow> 'n \<Rightarrow> 'n \<Rightarrow> 's host_event \<Rightarrow> bool" where
  "event_placed child root replay_node ev \<longleftrightarrow>
     (case ev of
        Invoked args \<Rightarrow> (\<forall>config. parse_args args = Inr (Serve config) \<longrightarrow> well_placed child root replay_node config)
      | _ \<Rightarrow> True)"

text \<open>
  The part of the world that holds the replay records, which calls elsewhere leave alone; the
  changes that keep its records; and the record of each key, which opening the store keeps and with
  which \<open>check_and_record\<close> meets the contract of a replay store.
\<close>

locale replay_world = dir_tree "ho_fs ho" node root child attr xattr
  for ho :: "('h, 'f, 'w) host_ops" and node :: "'h \<Rightarrow> 'n" and root child attr xattr +
  fixes replay_node :: 'n
    and part :: "'w \<Rightarrow> 'p"
    and kept :: "'w \<Rightarrow> 'w \<Rightarrow> bool"
    and key_expiry :: "'w \<Rightarrow> ReplayKey \<Rightarrow> i64 option"
  assumes keeps_lookup: "keeps part (op_open_root (ho_fs ho))" "keeps part (op_try_clone (ho_fs ho) d)"
      "keeps part (op_sub_dir (ho_fs ho) d n)" "keeps part (op_self_metadata (ho_fs ho) d)"
      "keeps part (op_metadata (ho_fs ho) d n)" "keeps part (op_open_file (ho_fs ho) d n)"
    and keeps_file: "keeps part (op_file_metadata (ho_fs ho) f)" "keeps part (op_file_read (ho_fs ho) f k)"
      "keeps part (op_file_lock (ho_fs ho) f)" "keeps part (op_get_xattr (ho_fs ho) f n)"
    and keeps_process: "keeps part (op_random (ho_fs ho) k)" "keeps part (op_read_path (ho_fs ho) p)"
    and keeps_elsewhere: "node d \<noteq> replay_node \<Longrightarrow> keeps part (op_new_file (ho_fs ho) d n m)"
      "node d \<noteq> replay_node \<Longrightarrow> keeps part (op_remove_file (ho_fs ho) d n)"
    and keeps_socket: "(\<And>q. path_parent (path_components s) = Some q \<Longrightarrow> \<not> leads_to child root q replay_node) \<Longrightarrow>
      keeps part (ho_connect ho s) \<and> keeps part (ho_bind ho s) \<and> keeps part (ho_set_permissions ho s m)"
    and part_kept: "part w' = part w \<Longrightarrow> kept w w'"
    and kept_trans: "kept w u \<Longrightarrow> kept u w' \<Longrightarrow> kept w w'"
    and kept_expiry: "kept w w' \<Longrightarrow> key_expiry w key = Some e \<Longrightarrow> key_expiry w' key = Some e"
    and open_kept: "node (sd_dir sd) = replay_node \<Longrightarrow> wp (file_replay_store_open (ho_fs ho) sd cap) (\<lambda>r w'. kept w w' \<and>
      (\<forall>store. r = Inr store \<longrightarrow> fr_directory store = sd)) w"
    and replay_server: "node (sd_dir (fr_directory store)) = replay_node \<Longrightarrow>
      verifying_server (\<lambda>t. file_check_and_record (ho_fs ho) store (Inr t)) (\<lambda>_. True) key_expiry"
begin

lemma kept_refl: "kept w w"
  by (simp add: part_kept)

lemmas keeps_sys = keeps_intros keeps_lookup keeps_file keeps_process

lemma keeps_open_absolute: "keeps part (open_absolute_directory (ho_fs ho) p)"
  unfolding open_absolute_directory_def
  by (intro keeps_sys keeps_foldM) (auto split: prod.splits intro!: keeps_sys)

lemma keeps_chain: "keeps part (validate_directory_chain (ho_fs ho) dirs uid)"
  unfolding validate_directory_chain_def by (intro keeps_foldM keeps_sys)

lemma keeps_leaf: "keeps part (validate_service_leaf (ho_fs ho) d uid)"
  "keeps part (validate_socket_leaf (ho_fs ho) d uid gid)" "keeps part (reject_posix_acl (ho_fs ho) d)"
  unfolding validate_service_leaf_def validate_socket_leaf_def reject_posix_acl_def
  by (intro keeps_sys keeps_foldM)+

lemma keeps_probe: "node d \<noteq> replay_node \<Longrightarrow> keeps part (probe_directory_owner_uid (ho_fs ho) d)"
  unfolding probe_directory_owner_uid_def random_probe_name_def by (intro keeps_sys keeps_elsewhere)

lemma keeps_lock:
  "node (sd_dir d) \<noteq> replay_node \<Longrightarrow> keeps part (acquire_exclusive_lock (ho_fs ho) d name)"
  unfolding acquire_exclusive_lock_def create_or_open_def by (intro keeps_sys keeps_elsewhere)

lemma keeps_trusted_file: "keeps part (read_trusted_file (ho_fs ho) p uid k)"
  unfolding read_trusted_file_def
  by (intro keeps_sys keeps_open_absolute) (auto split: prod.splits intro!: keeps_sys keeps_chain)

lemma keeps_listener:
  assumes "node (sd_dir d) \<noteq> replay_node"
    and "\<And>q. path_parent (path_components (cfg_socket config)) = Some q \<Longrightarrow> \<not> leads_to child root q replay_node"
  shows "keeps part (open_listener ho config d name)"
proof -
  note socket = keeps_socket [of "cfg_socket config", OF assms(2)]
  show ?thesis
    unfolding open_listener_def prepare_socket_path_def with_socket_guard_def validate_socket_metadata_def
      validate_socket_identity_def sd_metadata_def sd_remove_file_def
    using socket by (intro keeps_sys keeps_elsewhere(2) [OF assms(1)]) blast+
qed

lemma keeps_kept: "keeps part m \<Longrightarrow> kept u w \<Longrightarrow> wp m (\<lambda>_ w'. kept u w') w"
  by (rule wp_mono [OF keepsD]) (auto intro: kept_trans part_kept)

lemma wp_socket_parent_elsewhere:
  assumes "\<not> leads_to child root p replay_node"
  shows "wp (open_socket_parent (ho_fs ho) p gid) (\<lambda>r w'. part w' = part w \<and>
    (\<forall>d. r = Inr d \<longrightarrow> node (sd_dir d) \<noteq> replay_node)) w"
  unfolding open_socket_parent_def
proof (rule wp_bindI [OF wp_conj [OF wp_open_absolute_directory keepsD [OF keeps_open_absolute]]], goal_cases)
  case (2 df u)
  obtain dirs final where df: "df = (dirs, final)" by fastforce
  have final: "node final \<noteq> replay_node"
    using 2 assms unfolding df leads_to_def by (metis last_map)
  let ?rest = "\<lambda>uid. bindM (validate_directory_chain (ho_fs ho) dirs uid) (\<lambda>_.
     bindM (case gid of
              Some gid \<Rightarrow> bindM (validate_socket_leaf (ho_fs ho) final uid gid) (\<lambda>_. reject_posix_acl (ho_fs ho) final)
            | None \<Rightarrow> validate_service_leaf (ho_fs ho) final uid) (\<lambda>_.
       ret \<lparr>sd_dir = final, sd_owner_uid = uid\<rparr>))"
  have rest: "keeps part (?rest uid)" for uid
    by (intro keeps_sys keeps_chain keeps_leaf)
  have dir: "wp (?rest uid) (\<lambda>r _. \<forall>d. r = Inr d \<longrightarrow> sd_dir d = final) v" for uid v
    by (intro wp_bindI [OF wp_any]) (auto simp: wp_ret)
  show ?case
    unfolding df case_prod_conv
    by (rule wp_bindI [OF keepsD [OF keeps_probe [OF final]]])
      (use 2 final in \<open>auto intro: wp_mono [OF wp_conj [OF dir keepsD [OF rest]]]\<close>)
qed simp

lemma wp_replay_store_new:
  assumes "leads_to child root p replay_node"
  shows "wp (file_replay_store_new (ho_fs ho) p uid cap) (\<lambda>r w'. kept w w' \<and>
    (\<forall>store. r = Inr store \<longrightarrow> node (sd_dir (fr_directory store)) = replay_node)) w"
proof (cases "cap = 0")
  case False
  have keeps: "keeps part (open_service_owned (ho_fs ho) p (Some uid))"
    unfolding open_service_owned_def
    by (intro keeps_sys keeps_open_absolute) (auto split: prod.splits intro!: keeps_sys keeps_chain keeps_leaf)
  have opened: "wp (file_replay_store_open (ho_fs ho) d cap) (\<lambda>r w'. kept w w' \<and>
      (\<forall>store. r = Inr store \<longrightarrow> node (sd_dir (fr_directory store)) = replay_node)) u"
    if "node (sd_dir d) = replay_node" "part u = part w" for d u
    by (rule wp_mono [OF open_kept [OF that(1)]]) (use that kept_trans [OF part_kept [OF that(2)]] in auto)
  show ?thesis
    using False assms unfolding file_replay_store_new_def
    by (simp, intro wp_bind_portI [OF wp_conj [OF wp_open_service_owned keepsD [OF keeps]]] opened)
      (auto simp: leads_to_def intro: part_kept)
qed (simp add: file_replay_store_new_def wp_raise kept_refl)

lemma wp_serve_start:
  assumes "well_placed child root replay_node config"
  shows "wp (serve_start X ho config) (\<lambda>r w'. kept w w' \<and> (\<forall>h. r = Inr h \<longrightarrow>
    node (sd_dir (fr_directory (h_replay h))) = replay_node \<and> node (sd_dir (h_parent h)) \<noteq> replay_node)) w"
proof -
  let ?Q = "\<lambda>r w'. kept w w' \<and> (\<forall>h. r = Inr h \<longrightarrow>
    node (sd_dir (fr_directory (h_replay h))) = replay_node \<and> node (sd_dir (h_parent h)) \<noteq> replay_node)"
  note placed = assms [unfolded well_placed_def]
  have elsewhere: "\<And>q. path_parent (path_components (cfg_socket config)) = Some q \<Longrightarrow> \<not> leads_to child root q replay_node"
    using placed by blast
  have last: "wp (bindM (open_listener ho config d name) (\<lambda>_. ret (h :: ('h, 'f) host))) ?Q u"
    if "node (sd_dir d) \<noteq> replay_node" "kept w u" "node (sd_dir (fr_directory (h_replay h))) = replay_node"
      "h_parent h = d" for d name h u
    by (rule wp_bindI [OF keeps_kept [OF keeps_listener [OF that(1) elsewhere] that(2)]]) (use that in \<open>auto simp: wp_ret\<close>)
  have store: "wp (file_replay_store_new (ho_fs ho) (path_components (cfg_replay_dir config)) uid cap) (\<lambda>r w'. kept w w' \<and>
    (\<forall>store. r = Inr store \<longrightarrow> node (sd_dir (fr_directory store)) = replay_node)) u" if "kept w u" for uid cap u
    by (rule wp_mono [OF wp_replay_store_new]) (use placed kept_trans [OF that] in auto)
  have parent: "wp (open_socket_parent (ho_fs ho) q gid) (\<lambda>r w'. kept w w' \<and>
    (\<forall>d. r = Inr d \<longrightarrow> node (sd_dir d) \<noteq> replay_node)) u"
    if "path_parent (path_components (cfg_socket config)) = Some q" "kept w u" for q gid u
    by (rule wp_mono [OF wp_socket_parent_elsewhere [OF elsewhere [OF that(1)]]]) (use kept_trans [OF that(2)] part_kept in auto)
  have lifted: "wp (lift r) (\<lambda>q u. q = r \<and> kept w u) u" if "kept w u" for r :: "unit + 'x" and u
    using that by (simp add: wp_lift)
  have group: "keeps part (case cfg_socket_group_gid config of
      Some gid \<Rightarrow> fails (validate_group_transport_process (ho_fs ho) gid) | None \<Rightarrow> ret ())"
    unfolding validate_group_transport_process_def by (intro keeps_sys)
  note kept = keeps_kept [where u = w]
  show ?thesis
    unfolding serve_start_def
    by (rule wp_bindI [OF lifted], simp add: kept_refl, simp, rule wp_bindI [OF lifted], simp, simp,
        rule wp_bindI [OF kept [OF group]], simp, simp,
        rule wp_bind_failsI [OF parent], simp add: ok_or_def split: option.splits, simp, simp,
        rule wp_bind_failsI [OF kept [OF keeps_lock]], simp, simp, simp,
        rule wp_bind_failsI [OF kept [OF keeps_trusted_file]], simp, simp,
        rule wp_bindI [OF lifted], simp, simp, rule wp_bind_failsI [OF store], simp, simp,
        rule wp_bindI [OF lifted], simp, simp, rule wp_bindI [OF lifted], simp, simp, rule last, simp_all)
qed

end

section \<open>The program over its lives\<close>

context dpop_adapter
begin

lemma adapter_one_shot: "one_shot step (\<lambda>t. inv (store t)) (\<lambda>t. recorded (store t)) time passed_record"
  by (rule requests.one_shot_axioms)

end

text \<open>The proof that an answer is about, read from the authenticated request inside it.\<close>

fun reply_proof :: "externs \<Rightarrow> reply option \<Rightarrow> UnverifiedDpopProof option" where
  "reply_proof X (Some (Sealed a res)) =
     Option.bind (Option.bind (js_parse X (ar_payload a)) verifier_request_deserialize) (\<lambda>request.
       case parse_dpop_header_values X [vr_dpop_proof request] of Inl _ \<Rightarrow> None | Inr p \<Rightarrow> Some p)"
| "reply_proof X _ = None"

fun outcome_reply :: "outcome \<Rightarrow> reply option" where
  "outcome_reply (Answered reply) = reply"
| "outcome_reply _ = None"

definition verified_record :: "externs \<Rightarrow> outcome \<Rightarrow> (ReplayKey \<times> i64) option" where
  "verified_record X out =
     (if is_verified_reply (outcome_reply out)
      then Option.bind (reply_proof X (outcome_reply out)) (proof_replay_record X policy_default) else None)"

lemma answered_proof:
  assumes "host_step X policy np sys store peers st c = (reply, st')" "is_verified_reply reply"
  shows "connection_proof X peers c = reply_proof X reply"
  using assms(1)
proof (cases rule: host_step_cases)
  case (answered frame rep)
  from answered(3) show ?thesis
  proof (cases rule: answer_frame_cases)
    case (asked a request res)
    then show ?thesis using answered(1,2) by (simp add: connection_proof_def frame_request_def)
  qed (use assms(2) answered(2) in simp)
qed (use assms(2) in simp)

text \<open>Events with a time; that of a connection is the reading of the store's clock.\<close>

fun timed :: "i64 \<times> 's host_event \<Rightarrow> i64" where
  "timed (t, Incoming (Inr c)) = cn_time c"
| "timed (t, _) = t"

text \<open>An event of the machine: one of the program, or an outage that ends the process and leaves what
  \<open>lose\<close> says of the world.\<close>

fun outage_step ::
  "externs \<Rightarrow> ('h, 'f, 'w) host_ops \<Rightarrow> str \<Rightarrow> ('c \<Rightarrow> 'w \<Rightarrow> 'w) \<Rightarrow> 'w \<times> ('h, 'f) process \<Rightarrow> 's host_event + 'c
   \<Rightarrow> outcome \<times> 'w \<times> ('h, 'f) process" where
  "outage_step X ho version lose s (Inl ev) = program_step X ho version s ev"
| "outage_step X ho version lose s (Inr c) = (Nothing, lose c (fst s), Absent)"

fun machine_time :: "i64 \<times> ('s host_event + 'c) \<Rightarrow> i64" where
  "machine_time (t, Inl ev) = timed (t, ev)"
| "machine_time (t, Inr c) = t"

definition machine_placed :: "('n \<Rightarrow> str \<Rightarrow> 'n option) \<Rightarrow> 'n \<Rightarrow> 'n \<Rightarrow> 's host_event + 'c \<Rightarrow> bool" where
  "machine_placed child root replay_node ev = (case ev of Inl e \<Rightarrow> event_placed child root replay_node e | Inr _ \<Rightarrow> True)"

locale deployed_program = replay_world ho node root child attr xattr replay_node part kept key_expiry
  for ho :: "('h, 'f, 'w) host_ops" and node :: "'h \<Rightarrow> 'n" and root child attr xattr replay_node
    and part :: "'w \<Rightarrow> 'p" and kept key_expiry +
  fixes lose :: "'c \<Rightarrow> 'w \<Rightarrow> 'w" and X :: externs and version :: str
  assumes lose_kept: "kept w (lose c w)"
begin

definition placed_step :: "'w \<times> ('h, 'f) process \<Rightarrow> i64 \<times> ('s host_event + 'c) \<Rightarrow> outcome \<times> 'w \<times> ('h, 'f) process" where
  "placed_step s op =
     (if machine_placed child root replay_node (snd op) then outage_step X ho version lose s (snd op) else (Nothing, s))"

definition placed_state :: "'w \<times> ('h, 'f) process \<Rightarrow> bool" where
  "placed_state s \<longleftrightarrow> (\<forall>h. snd s = Serving h \<longrightarrow>
     node (sd_dir (fr_directory (h_replay h))) = replay_node \<and> node (sd_dir (h_parent h)) \<noteq> replay_node)"

lemma main_start_kept:
  assumes "main_start X ho version args w = (r, s')" "event_placed child root replay_node (Invoked args)"
  shows "kept w (fst s') \<and> placed_state s' \<and> outcome_reply r = None"
proof -
  have start: "kept w w' \<and> (\<forall>h. q = Inr h \<longrightarrow>
      node (sd_dir (fr_directory (h_replay h))) = replay_node \<and> node (sd_dir (h_parent h)) \<noteq> replay_node)"
    if "parse_args args = Inr (Serve config)" "serve_start X ho config w = (q, w')" for config q w'
    using wpD [OF wp_serve_start that(2)] assms(2) that(1) by (simp add: event_placed_def)
  show ?thesis
  proof (cases "\<exists>config. parse_args args = Inr (Serve config)")
    case True
    then obtain config where config: "parse_args args = Inr (Serve config)" by blast
    obtain q w' where q: "serve_start X ho config w = (q, w')" by fastforce
    show ?thesis
      using assms(1) start [OF config q] config q
      by (cases q) (auto simp: main_start_def main_failure_def placed_state_def)
  qed (use assms(1) in \<open>auto simp: main_start_def main_failure_def kept_refl placed_state_def
      split: sum.splits ParsedArgs.splits\<close>)
qed

lemma serve_end_kept:
  assumes "placed_state (w, Serving h)"
  shows "kept w (serve_end ho h w)"
proof -
  have "keeps part (sd_remove_file (ho_fs ho) (h_parent h) (h_socket_name h))"
    using assms unfolding sd_remove_file_def placed_state_def by (intro keeps_sys keeps_elsewhere(2)) simp
  from keepsD [OF this, of w] show ?thesis
    by (auto simp: serve_end_def wp_def split: prod.splits intro: part_kept)
qed

lemma program_cases:
  assumes "placed_state s" "placed_step s op = (r, s')"
  obtains (other) "kept (fst s) (fst s')" "outcome_reply r = None" "placed_state s'"
  | (connection) t h c reply nonces where "op = (t, Inl (Incoming (Inr c)))" "snd s = Serving h" "r = Answered reply"
      "host_step X policy_default (h_nonce_policy h) (ho_fs ho) (h_replay h) (h_peers h) (fst s, h_nonces h) c =
        (reply, fst s', nonces)" "snd s' = Serving (h\<lparr>h_nonces := nonces\<rparr>)"
proof -
  obtain w proc where s: "s = (w, proc)" by fastforce
  obtain t mev where op: "op = (t, mev)" by fastforce
  have quiet: ?thesis if "kept w (fst s')" "outcome_reply r = None" "placed_state s'"
    using that s by (intro other) simp_all
  have unchanged: ?thesis if "s' = s" "r = Nothing"
    using that s assms(1) by (intro quiet) (simp_all add: kept_refl)
  consider (skipped) "\<not> machine_placed child root replay_node mev" | (outage) c where "mev = Inr c"
    | (event) ev where "mev = Inl ev" "event_placed child root replay_node ev"
    by (cases mev) (auto simp: machine_placed_def)
  then show ?thesis
  proof cases
    case skipped
    then show ?thesis using assms(2) op by (intro unchanged) (simp_all add: placed_step_def)
  next
    case (outage c)
    then show ?thesis
      using assms(2) op s lose_kept
      by (intro quiet) (auto simp: placed_step_def machine_placed_def placed_state_def)
  next
    case (event ev)
    then have step: "program_step X ho version (w, proc) ev = (r, s')"
      using assms(2) s op by (simp add: placed_step_def machine_placed_def)
    show ?thesis
    proof (cases proc)
      case Absent
      show ?thesis
      proof (cases ev)
        case (Invoked args)
        then show ?thesis using step Absent main_start_kept [of args w r s'] event(2) by (intro quiet) auto
      qed (use step Absent s unchanged in auto)
    next
      case (Serving h)
      show ?thesis
      proof (cases ev)
        case (Incoming i)
        show ?thesis
        proof (cases i)
          case (Inl e)
          then show ?thesis
            using step Incoming Serving assms(1) s by (intro quiet) (auto simp: serve_round_def kept_refl)
        next
          case (Inr c)
          then show ?thesis
            using step Incoming Serving s op event(1)
            by (intro connection [of t c h "outcome_reply r" "h_nonces (case snd s' of Serving h \<Rightarrow> h)"])
              (auto simp: serve_round_def split: prod.splits)
        qed
      next
        case Listener_ended
        then show ?thesis
          using step Serving serve_end_kept assms(1) s by (intro quiet) (auto simp: placed_state_def)
      next
        case Killed
        then show ?thesis
          using step Serving by (intro quiet) (auto simp: kept_refl placed_state_def)
      qed (use step Serving s in \<open>intro unchanged, simp_all\<close>)
    qed
  qed
qed

lemma host_one_shot:
  assumes "node (sd_dir (fr_directory store)) = replay_node"
  shows "one_shot (host_step X policy_default np (ho_fs ho) store peers) (\<lambda>_. True) (\<lambda>t. key_expiry (fst t)) cn_time
    (\<lambda>c r. if is_verified_reply r then Option.bind (connection_proof X peers c) (proof_replay_record X policy_default) else None)"
  using dpop_adapter.adapter_one_shot [OF host_adapter [OF replay_server [OF assms]], of X policy_default np peers]
  unfolding dpop_adapter.passed_record_def [OF host_adapter [OF replay_server [OF assms]], abs_def] .

text \<open>A connection, seen as a step of the host it reaches.\<close>

lemma connection_step:
  assumes "placed_state s" "snd s = Serving h"
    and "host_step X policy_default (h_nonce_policy h) (ho_fs ho) (h_replay h) (h_peers h) (fst s, h_nonces h) c =
      (reply, fst s', nonces)"
  shows "verified_record X (Answered reply) = Some (k, e) \<Longrightarrow> key_expiry (fst s') k = Some e \<and> cn_time c \<le> e"
    and "verified_record X (Answered reply) = Some (k, e) \<Longrightarrow> key_expiry (fst s) k = Some e' \<Longrightarrow> e' < cn_time c"
    and "key_expiry (fst s) k = Some e \<Longrightarrow> cn_time c \<le> e \<Longrightarrow> key_expiry (fst s') k = Some e"
proof -
  have node: "node (sd_dir (fr_directory (h_replay h))) = replay_node"
    using assms(1,2) by (simp add: placed_state_def)
  have accepted: "verified_record X (Answered reply) = (if is_verified_reply reply
      then Option.bind (connection_proof X (h_peers h) c) (proof_replay_record X policy_default) else None)"
    using answered_proof [OF assms(3)] by (simp add: verified_record_def)
  note host = host_one_shot [OF node, of "h_nonce_policy h" "h_peers h"]
  show "verified_record X (Answered reply) = Some (k, e) \<Longrightarrow> key_expiry (fst s') k = Some e \<and> cn_time c \<le> e"
    using one_shot.accept_records [OF host TrueI assms(3)] unfolding accepted by simp
  show "verified_record X (Answered reply) = Some (k, e) \<Longrightarrow> key_expiry (fst s) k = Some e' \<Longrightarrow> e' < cn_time c"
    using one_shot.accept_unrecorded [OF host TrueI assms(3)] unfolding accepted by simp
  show "key_expiry (fst s) k = Some e \<Longrightarrow> cn_time c \<le> e \<Longrightarrow> key_expiry (fst s') k = Some e"
    using one_shot.keeps_active [OF host TrueI assms(3)] by simp
qed

end

sublocale deployed_program \<subseteq> lives: one_shot placed_step placed_state "\<lambda>s. key_expiry (fst s)" machine_time "\<lambda>_. verified_record X"
proof (unfold_locales, goal_cases)
  case (1 s op r s')
  from 1 show ?case by (cases rule: program_cases) (use 1(1) in \<open>simp_all add: placed_state_def\<close>)
next
  case (2 s op r s' k e)
  from 2(1,2) show ?case
  proof (cases rule: program_cases)
    case (connection t h c reply nonces)
    then show ?thesis using connection_step(1) [OF 2(1) connection(2,4)] 2(3) by simp
  qed (use 2(3) in \<open>simp add: verified_record_def\<close>)
next
  case (3 s op r s' k e e')
  from 3(1,2) show ?case
  proof (cases rule: program_cases)
    case (connection t h c reply nonces)
    then show ?thesis using connection_step(2) [OF 3(1) connection(2,4)] 3(3,4) by simp
  qed (use 3(3) in \<open>simp add: verified_record_def\<close>)
next
  case (4 s op r s' k e)
  from 4(1,2) show ?case
  proof (cases rule: program_cases)
    case other
    then show ?thesis using kept_expiry 4(3) by blast
  next
    case (connection t h c reply nonces)
    then show ?thesis using connection_step(3) [OF 4(1) connection(2,4) 4(3)] 4(4) by simp
  qed
qed

text \<open>Times for the events that have none.\<close>

definition connection_times :: "'s host_event list \<Rightarrow> i64 list" where
  "connection_times events = concat (map (\<lambda>ev. case ev of Incoming (Inr c) \<Rightarrow> [cn_time c] | _ \<Rightarrow> []) events)"

definition program_events :: "('s host_event + 'c) list \<Rightarrow> 's host_event list" where
  "program_events events = concat (map (case_sum (\<lambda>ev. [ev]) (\<lambda>_. [])) events)"

lemma connection_times_Cons:
  "connection_times (program_events (ev # events)) =
     (case ev of Inl (Incoming (Inr c)) \<Rightarrow> [cn_time c] | _ \<Rightarrow> []) @ connection_times (program_events events)"
  by (auto simp: connection_times_def program_events_def split: sum.split host_event.split)

lemma event_times:
  assumes "sorted (connection_times (program_events events))" "\<forall>t \<in> set (connection_times (program_events events)). b \<le> t"
  obtains ts where "length ts = length events" "sorted (map machine_time (zip ts events))"
    "\<forall>t \<in> set (map machine_time (zip ts events)). b \<le> t"
  using assms
proof (induction events arbitrary: b thesis)
  case (Cons ev events)
  let ?t = "machine_time (b, ev)"
  have "sorted (connection_times (program_events events))" "\<forall>t \<in> set (connection_times (program_events events)). ?t \<le> t" "b \<le> ?t"
    using Cons.prems(2,3) unfolding connection_times_Cons by (cases ev; auto split: host_event.splits sum.splits)+
  then obtain ts where "length ts = length events" "sorted (map machine_time (zip ts events))"
    "\<forall>t \<in> set (map machine_time (zip ts events)). ?t \<le> t"
    using Cons.IH [of ?t] by blast
  then show ?case using \<open>b \<le> ?t\<close> by (intro Cons.prems(1) [of "b # ts"]) auto
qed simp

context deployed_program
begin

lemma placed_run:
  assumes "\<forall>ev \<in> set events. machine_placed child root replay_node ev" "length ts = length events"
  shows "run_ops placed_step s (zip ts events) = run_ops (outage_step X ho version lose) s events"
  using assms(2,1)
  by (induction ts events arbitrary: s rule: list_induct2) (auto simp: placed_step_def split: prod.splits)

lemma verified_recorded:
  assumes "placed_state s" "placed_step s op = (r, s')" "is_verified_reply (outcome_reply r)"
  shows "verified_record X r \<noteq> None"
  using assms(1,2)
proof (cases rule: program_cases)
  case (connection t h c reply nonces)
  have "node (sd_dir (fr_directory (h_replay h))) = replay_node"
    using assms(1) connection(2) by (simp add: placed_state_def)
  note adapter = host_adapter [OF replay_server [OF this]]
  have verified: "is_verified_reply reply" using assms(3) connection(3) by simp
  from dpop_adapter.passed_recorded [OF adapter connection(4) verified]
  show ?thesis
    using answered_proof [OF connection(4) verified] verified connection(3)
    by (simp add: dpop_adapter.passed_record_def [OF adapter] verified_record_def)
qed (use assms(3) in simp)

lemma verified_once:
  assumes "\<forall>ev \<in> set events. machine_placed child root replay_node ev" "sorted (connection_times (program_events events))"
    and run: "run_ops (outage_step X ho version lose) (w, Absent) events = (rs, s')"
    and ij: "i < length events" "j < length events"
    and acc: "is_verified_reply (outcome_reply (rs ! i))" "is_verified_reply (outcome_reply (rs ! j))"
      "reply_proof X (outcome_reply (rs ! i)) = reply_proof X (outcome_reply (rs ! j))"
  shows "i = j"
proof -
  have "\<exists>b. \<forall>t \<in> set (connection_times (program_events events)). b \<le> t"
    using assms(2) by (cases "connection_times (program_events events)") auto
  then obtain ts where ts: "length ts = length events" "sorted (map machine_time (zip ts events))"
    using event_times [OF assms(2)] by metis
  have s0: "placed_state (w, Absent)" by (simp add: placed_state_def)
  have run': "run_ops placed_step (w, Absent) (zip ts events) = (rs, s')"
    using placed_run [OF assms(1) ts(1)] run by simp
  have len: "length (zip ts events) = length events" using ts(1) by simp
  have recorded: "verified_record X (rs ! m) \<noteq> None"
    if m: "m < length events" "is_verified_reply (outcome_reply (rs ! m))" for m
  proof -
    have m': "m < length (zip ts events)" using m(1) len by simp
    show ?thesis
      by (rule run_ops_nth [OF run' m']) (rule verified_recorded [OF lives.run_inv [OF s0] _ m(2)])
  qed
  obtain k e where i: "verified_record X (rs ! i) = Some (k, e)"
    using recorded [OF ij(1) acc(1)] by auto
  then have "verified_record X (rs ! j) = Some (k, e)"
    using acc by (simp add: verified_record_def)
  with i show ?thesis
    using lives.accepted_once [OF s0 run' ts(2)] ij len by simp
qed

end


section \<open>Deployments\<close>

text \<open>A tree of directories, one of which holds the records and keeps the POSIX laws.\<close>

locale deployment = dir_tree "ho_fs ho" node root child attr xattr
  for ho :: "('h, 'f, 'w) host_ops" and node :: "'h \<Rightarrow> 'n" and root child attr xattr +
  fixes replay_node :: 'n
    and file_at :: "'w \<Rightarrow> str \<Rightarrow> dfile option"
    and opened :: "'w \<Rightarrow> 'f \<Rightarrow> str option"
    and created :: "'w \<Rightarrow> 'f \<Rightarrow> str option"
  assumes replay_directory: "node d = replay_node \<Longrightarrow> posix_directory (ho_fs ho) d file_at opened created"
    and lookup_law: "keeps file_at (op_open_root (ho_fs ho))" "keeps file_at (op_try_clone (ho_fs ho) d)"
      "keeps file_at (op_sub_dir (ho_fs ho) d n)" "keeps file_at (op_self_metadata (ho_fs ho) d)"
      "keeps file_at (op_metadata (ho_fs ho) d n)" "keeps file_at (op_open_file (ho_fs ho) d n)"
    and file_law: "keeps file_at (op_file_metadata (ho_fs ho) f)" "keeps file_at (op_file_read (ho_fs ho) f k)"
      "keeps file_at (op_file_lock (ho_fs ho) f)" "keeps file_at (op_get_xattr (ho_fs ho) f n)"
    and process_law: "keeps file_at (op_random (ho_fs ho) k)" "keeps file_at (op_read_path (ho_fs ho) p)"
    and elsewhere_law: "node d \<noteq> replay_node \<Longrightarrow> keeps file_at (op_new_file (ho_fs ho) d n m)"
      "node d \<noteq> replay_node \<Longrightarrow> keeps file_at (op_remove_file (ho_fs ho) d n)"
    and socket_law: "(\<And>q. path_parent (path_components s) = Some q \<Longrightarrow> \<not> leads_to child root q replay_node) \<Longrightarrow>
      keeps file_at (ho_connect ho s) \<and> keeps file_at (ho_bind ho s) \<and> keeps file_at (ho_set_permissions ho s m)"
begin

text \<open>The files with the names of records, and the expiry in one of them.\<close>

definition same_named :: "'w \<Rightarrow> 'w \<Rightarrow> bool" where
  "same_named w w' \<longleftrightarrow> (\<forall>n. list_all is_lower_hex n \<longrightarrow> file_at w' n = file_at w n)"

definition file_expiry :: "'w \<Rightarrow> ReplayKey \<Rightarrow> i64 option" where
  "file_expiry w k = Option.bind (file_at w (name_for k)) (\<lambda>x. recorded_expiry (df_content x))"

end

sublocale deployment \<subseteq> program: deployed_program ho node root child attr xattr replay_node file_at same_named file_expiry
  "\<lambda>(_ :: unit) w. w" X version
  for X :: externs and version :: str
proof (intro deployed_program.intro replay_world.intro dir_tree_axioms replay_world_axioms.intro deployed_program_axioms.intro,
    goal_cases)
  case (15 s m)
  then show ?case by (rule socket_law)
next
  case (18 w w' key e)
  then show ?case using name_for_hex [of key] by (simp add: same_named_def file_expiry_def)
next
  case (19 sd cap w)
  note pd = replay_directory [OF 19]
  show ?case
    by (rule wp_mono [OF posix_directory.wp_file_replay_store_open [OF pd refl]])
      (auto simp: same_named_def posix_directory.same_records_def [OF pd])
next
  case (20 store)
  note pd = replay_directory [OF 20]
  show ?case
    using posix_directory.file_server [OF pd refl]
    by (simp add: file_expiry_def [abs_def] posix_directory.expiry_at_def [OF pd, abs_def])
qed (auto simp: same_named_def intro: lookup_law file_law process_law elsewhere_law)

context deployment
begin

lemmas program_once = program.verified_once

end

lemma program_run:
  "run_ops (outage_step X ho version lose) s (map Inl events) = run_ops (program_step X ho version) s events"
  by (induction events arbitrary: s) (auto split: prod.splits)

lemma program_events_Inl: "program_events (map Inl events) = events"
  by (induction events) (simp_all add: program_events_def)

section \<open>Properties\<close>

text \<open>C5. The program answers \<open>Verified\<close> at most once for one proof, over any history of invocations: with
  whatever arguments and however often it is started, stopped or killed, on whatever connections,
  with any failure of sockets, files and directories. The replay directory keeps the POSIX laws, other
  directories are other directories, every serving invocation names that replay directory and puts its
  socket elsewhere, and the clock readings of the store do not go back.\<close>

theorem program_verifies_once:
  fixes events :: "'s host_event list"
  assumes "deployment ho node root child attr xattr replay_node file_at opened created"
    and "\<forall>ev \<in> set events. event_placed child root replay_node ev" "sorted (connection_times events)"
    and "run_ops (program_step X ho version) (w, Absent) events = (rs, s')"
    and "i < length events" "j < length events"
    and "is_verified_reply (outcome_reply (rs ! i))" "is_verified_reply (outcome_reply (rs ! j))"
    and "reply_proof X (outcome_reply (rs ! i)) = reply_proof X (outcome_reply (rs ! j))"
  shows "i = j"
proof -
  have run: "run_ops (outage_step X ho version (\<lambda>(_ :: unit) w. w)) (w, Absent) (map Inl events) = (rs, s')"
    using assms(4) by (simp add: program_run)
  show ?thesis
    using deployment.program_once [OF assms(1) _ _ run] assms(2,3,5-9)
    by (simp add: program_events_Inl machine_placed_def)
qed

text \<open>C10. The program does its work: over a working replay directory, a connection to a serving process
  that brings a request whose proof passes every check and whose token is bound to the proof key is
  answered, and the answer depends on the records alone. It is \<open>Verified\<close> with the key, or a replay when
  a live record has the key of the proof, or unavailable when the store is full.\<close>

theorem program_answers_valid_request:
  assumes laws: "b64_law X" "sha256_law X"
    and dir: "reliable_directory (ho_fs ho) (sd_dir (fr_directory (h_replay h))) file_at opened created healthy uid" "healthy w"
      "tidy (sd_owner_uid (fr_directory (h_replay h))) (file_at w)" "\<not> fr_poisoned (h_replay h)"
    and asked: "fst (read_frame (cn_ops c) (cn_stream c)) = Inr frame" "open_request X (h_peers h) frame = Inr a"
      "frame_request X (h_peers h) frame = Some request" "vr_version request = 1" "vr_access_token request \<noteq> []"
      "target_parse (vr_target request) = Inr target" "validate_method (vr_method request) = Inr ()"
      "required_nonce (h_nonce_policy h) expected_nonce (issue_nonce (cn_generated c)) (h_nonces h) = (Inr nonce, ns')"
      "parse_dpop_header_values X [vr_dpop_proof request] = Inr p"
    and valid: "cn_clock c = Inr now" "proof_checks X policy_default now p (service_request request target nonce)"
      "vr_confirmation_jkt request = Some (to_base64url X (thumbprint X (up_public_jwk p)))"
      "derive_replay_key X (thumbprint X (up_public_jwk p)) (vr_method request) target (clm_jti (up_claims p)) = Inr key"
      "in_i64 (clm_iat (up_claims p) + max_proof_age_seconds policy_default)"
      "cn_time c \<le> clm_iat (up_claims p) + max_proof_age_seconds policy_default"
  shows "fst (program_step X ho version (w, Serving h) (Incoming (Inr c))) = Answered (Some (Sealed a
    (if name_for key \<in> live_records (cn_time c) (file_at w) then rejected FC_Replay
     else if card (live_records (cn_time c) (file_at w)) < fr_capacity (h_replay h)
     then Verified 1 \<lparr>vb_key_thumbprint = to_base64url X (thumbprint X (up_public_jwk p)),
       vb_proof_issued_at_unix = clm_iat (up_claims p), vb_nonce_enforced = (h_nonce_policy h \<noteq> Optional),
       vb_replay_checked = True\<rparr>
     else rejected FC_ReplayStoreUnavailable)))"
  using connection_answered [OF laws dir asked valid] by (auto simp: serve_round_def split: prod.splits)

section \<open>A machine\<close>

text \<open>A disk with the operations \<open>ops\<close> under \<open>/run/replay\<close>, in a tree with a private directory \<open>/run/host\<close> for the
  socket, and one flag that says whether the socket is bound.\<close>

definition on_disk :: "('d, 'e, 'a) io \<Rightarrow> ('d \<times> bool, 'e, 'a) io" where
  "on_disk m w = (case m (fst w) of (r, d) \<Rightarrow> (r, d, snd w))"

lemma wp_on_disk: "wp (on_disk m) Q w = wp m (\<lambda>r d. Q r (d, snd w)) (fst w)"
  by (simp add: wp_def on_disk_def split: prod.splits)

lemma on_disk_wp: "wp m P (fst w) \<Longrightarrow> wp (on_disk m) (\<lambda>r w'. P r (fst w') \<and> snd w' = snd w) w"
  by (simp add: wp_on_disk)

definition replay_path :: "str list" where
  "replay_path = [''run'', ''replay'']"

definition machine_nodes :: "(str list \<times> Stat) list" where
  "machine_nodes =
     [([], \<lparr>st_mode = 0x41ED, st_uid = 0, st_gid = 0, st_size = 0\<rparr>),
      ([''run''], \<lparr>st_mode = 0x41ED, st_uid = 0, st_gid = 0, st_size = 0\<rparr>),
      (replay_path, \<lparr>st_mode = 0x41C0, st_uid = 1000, st_gid = 0, st_size = 0\<rparr>),
      ([''run'', ''host''], \<lparr>st_mode = 0x41C0, st_uid = 1000, st_gid = 0, st_size = 0\<rparr>)]"

definition machine_child :: "str list \<Rightarrow> str \<Rightarrow> str list option" where
  "machine_child n c = (if map_of machine_nodes (n @ [c]) = None then None else Some (n @ [c]))"

definition machine_attr :: "str list \<Rightarrow> Stat" where
  "machine_attr n = (case map_of machine_nodes n of
     Some st \<Rightarrow> st | None \<Rightarrow> \<lparr>st_mode = 0, st_uid = 0, st_gid = 0, st_size = 0\<rparr>)"

definition machine_fs :: "(unit, open_file, 'd) fs_ops \<Rightarrow> (str list, str list + open_file, 'd \<times> bool) fs_ops" where
  "machine_fs ops = \<lparr>
     op_open_root = ret [],
     op_try_clone = ret,
     op_sub_dir = (\<lambda>h c. case machine_child h c of None \<Rightarrow> raise NotFound | Some n \<Rightarrow> ret n),
     op_self_metadata = (\<lambda>h. ret (machine_attr h)),
     op_list_dir = (\<lambda>h. if h = replay_path then on_disk (op_list_dir ops ()) else ret []),
     op_metadata = (\<lambda>h n. if h = replay_path then on_disk (op_metadata ops () n)
       else (\<lambda>w. (if snd w then Inr \<lparr>st_mode = 0xC180, st_uid = 1000, st_gid = 0, st_size = 0\<rparr> else Inl NotFound, w))),
     op_open_file = (\<lambda>h n. if h = replay_path then bindM (on_disk (op_open_file ops () n)) (\<lambda>f. ret (Inr f))
       else ret (Inl (h @ [n]))),
     op_new_file = (\<lambda>h n m. if h = replay_path then bindM (on_disk (op_new_file ops () n m)) (\<lambda>f. ret (Inr f))
       else ret (Inl (h @ [n]))),
     op_remove_file = (\<lambda>h n. if h = replay_path then on_disk (op_remove_file ops () n)
       else (\<lambda>w. (Inr (), fst w, snd w \<and> n \<noteq> ''s''))),
     op_hardlink = (\<lambda>h a b. if h = replay_path then on_disk (op_hardlink ops () a b) else raise OtherKind),
     op_file_metadata = (\<lambda>f. case f of Inr g \<Rightarrow> on_disk (op_file_metadata ops g)
       | Inl p \<Rightarrow> ret \<lparr>st_mode = 0x8180, st_uid = 1000, st_gid = 0, st_size = (if last p = ''peers'' then 1 else 0)\<rparr>),
     op_file_read = (\<lambda>f k. case f of Inr g \<Rightarrow> on_disk (op_file_read ops g k) | Inl _ \<Rightarrow> ret (take k [6])),
     op_file_write = (\<lambda>f bs. case f of Inr g \<Rightarrow> on_disk (op_file_write ops g bs) | Inl _ \<Rightarrow> raise OtherKind),
     op_file_sync = (\<lambda>f. case f of Inr g \<Rightarrow> on_disk (op_file_sync ops g) | Inl _ \<Rightarrow> ret ()),
     op_file_lock = (\<lambda>f. case f of Inr g \<Rightarrow> on_disk (op_file_lock ops g) | Inl _ \<Rightarrow> ret ()),
     op_get_xattr = (\<lambda>_ _. ret None),
     op_random = (\<lambda>k. on_disk (op_random ops k)),
     op_read_path = (\<lambda>_. raise NotFound)\<rparr>"

definition machine :: "(unit, open_file, 'd) fs_ops \<Rightarrow> (str list, str list + open_file, 'd \<times> bool) host_ops" where
  "machine ops = \<lparr>ho_fs = machine_fs ops, ho_connect = (\<lambda>_. raise ConnectionRefused), ho_bind = (\<lambda>_ w. (Inr (), fst w, True)),
     ho_set_permissions = (\<lambda>_ _. ret ())\<rparr>"

text \<open>What is known of the open files of the disk, for the open files of the machine.\<close>

definition under :: "('d \<Rightarrow> open_file \<Rightarrow> str option) \<Rightarrow> 'd \<times> bool \<Rightarrow> str list + open_file \<Rightarrow> str option" where
  "under names w f = (case f of Inl _ \<Rightarrow> None | Inr g \<Rightarrow> names (fst w) g)"

lemmas machine_defs = machine_def machine_fs_def under_def

text \<open>The laws of the disk are laws of the machine.\<close>

lemma machine_posix:
  assumes "posix_directory ops () file_at opened created"
  shows "posix_directory (machine_fs ops) replay_path (\<lambda>w. file_at (fst w)) (under opened) (under created)"
proof (unfold_locales, goal_cases)
  case (1 w)
  show ?case using posix_directory.list_law [OF assms, of "fst w"] by (simp add: machine_defs wp_on_disk)
next
  case (2 n w)
  show ?case using posix_directory.metadata_law [OF assms, of n "fst w"] by (simp add: machine_defs wp_on_disk)
next
  case (3 n w)
  show ?case
    unfolding machine_defs fs_ops.simps
    by (simp, rule wp_bindI [OF on_disk_wp [OF posix_directory.open_law [OF assms]]]) (auto simp: wp_ret)
next
  case (4 f w)
  show ?case
    using posix_directory.file_metadata_law [OF assms, of _ "fst w"]
    by (cases f) (auto simp: machine_defs wp_on_disk wp_ret fun_eq_iff split: sum.splits elim!: wp_mono)
next
  case (5 f k w)
  show ?case
    using posix_directory.read_law [OF assms, of _ k "fst w"] by (cases f) (auto simp: machine_defs wp_on_disk wp_ret)
next
  case (6 n m w)
  show ?case
    unfolding machine_defs fs_ops.simps
    by (simp, rule wp_bindI [OF on_disk_wp [OF posix_directory.new_law [OF assms]]]) (auto simp: wp_ret)
next
  case (7 w f n x bs)
  then show ?case
    using posix_directory.write_law [OF assms, of "fst w" _ n x bs] by (cases f) (auto simp: machine_defs wp_on_disk)
next
  case (8 f w)
  show ?case
    using posix_directory.sync_law [OF assms, of _ "fst w"] by (cases f) (auto simp: machine_defs wp_on_disk wp_ret)
next
  case (9 f w)
  show ?case
    using posix_directory.lock_law [OF assms, of _ "fst w"] by (cases f) (auto simp: machine_defs wp_on_disk wp_ret)
next
  case (10 a b w)
  show ?case using posix_directory.link_law [OF assms, of a b "fst w"] by (simp add: machine_defs wp_on_disk)
next
  case (11 n w)
  show ?case using posix_directory.remove_law [OF assms, of n "fst w"] by (simp add: machine_defs wp_on_disk)
next
  case (12 k w)
  show ?case using posix_directory.random_law [OF assms, of k "fst w"] by (simp add: machine_defs wp_on_disk)
qed

lemma machine_reliable:
  assumes "reliable_directory ops () file_at opened created healthy uid"
  shows "reliable_directory (machine_fs ops) replay_path (\<lambda>w. file_at (fst w)) (under opened) (under created)
    (\<lambda>w. healthy (fst w)) uid"
proof (intro reliable_directory.intro reliable_directory_axioms.intro machine_posix, goal_cases)
  case 1
  show ?case using assms by (simp add: reliable_directory_def)
next
  case (2 w)
  then show ?case using reliable_directory.list_ok [OF assms, of "fst w"] by (simp add: machine_defs wp_on_disk)
next
  case (3 w n)
  then show ?case using reliable_directory.metadata_ok [OF assms, of "fst w" n] by (simp add: machine_defs wp_on_disk)
next
  case (4 w n)
  then show ?case
    unfolding machine_defs fs_ops.simps
    by (simp, intro wp_bindI [OF on_disk_wp [OF reliable_directory.open_ok [OF assms, of "fst w" n]]])
      (auto simp: wp_ret result_simps)
next
  case (5 w f n)
  then show ?case
    using reliable_directory.file_metadata_ok [OF assms, of "fst w" _ n] by (cases f) (auto simp: machine_defs wp_on_disk)
next
  case (6 w f n k)
  then show ?case
    using reliable_directory.read_ok [OF assms, of "fst w" _ n k] by (cases f) (auto simp: machine_defs wp_on_disk)
next
  case (7 w n m)
  then show ?case
    unfolding machine_defs fs_ops.simps
    by (simp, intro wp_bindI [OF on_disk_wp [OF reliable_directory.new_ok [OF assms, of "fst w" n m]]])
      (auto simp: wp_ret result_simps)
next
  case (8 w f n x bs)
  then show ?case
    using reliable_directory.write_ok [OF assms, of "fst w" _ n x bs] by (cases f) (auto simp: machine_defs wp_on_disk)
next
  case (9 w f)
  then show ?case
    using reliable_directory.sync_ok [OF assms, of "fst w"] by (cases f) (auto simp: machine_defs wp_on_disk wp_ret result_simps)
next
  case (10 w a b)
  then show ?case using reliable_directory.link_ok [OF assms, of "fst w" a b] by (simp add: machine_defs wp_on_disk)
next
  case (11 w n)
  then show ?case using reliable_directory.remove_ok [OF assms, of "fst w" n] by (simp add: machine_defs wp_on_disk)
next
  case (12 w k)
  then show ?case using reliable_directory.random_ok [OF assms, of "fst w" k] by (simp add: machine_defs wp_on_disk)
qed

lemma machine_tree: "dir_tree (ho_fs (machine ops)) id [] machine_child machine_attr (\<lambda>_ _. None)"
  by unfold_locales (auto simp: machine_defs ret_def raise_def split: option.splits)

text \<open>What calls on the disk and elsewhere leave alone.\<close>

lemma keeps_on_disk: "keeps part m \<Longrightarrow> keeps (\<lambda>w. part (fst w)) (on_disk m)"
  by (simp add: keeps_def wp_on_disk)

lemma keeps_direct:
  "keeps (\<lambda>w. part (fst w)) (\<lambda>w. (f w, w))" "keeps (\<lambda>w. part (fst w)) (\<lambda>w. (f w, fst w, g w))"
  by (simp_all add: keeps_def wp_def)

lemmas machine_keeps = keeps_intros keeps_on_disk keeps_direct

interpretation machine_host: deployment "machine disk_ops" id "[]" machine_child machine_attr "\<lambda>_ _. None" replay_path
  "\<lambda>w. disk_file_at (fst w)" "under disk_opened" "under disk_created"
proof (intro deployment.intro [OF machine_tree] deployment_axioms.intro, goal_cases)
  case (1 d)
  then show ?case using machine_posix [OF disk.posix_directory_axioms] by (simp add: machine_def)
next
  case (16 s m)
  show ?case by (auto simp: machine_def intro!: machine_keeps)
qed (auto simp: machine_defs keeps_def [of disk_file_at] intro!: machine_keeps wp_mono [OF disk.metadata_law]
    wp_mono [OF disk.open_law] wp_mono [OF disk.file_metadata_law] wp_mono [OF disk.read_law] wp_mono [OF disk.lock_law]
    wp_mono [OF disk.random_law] split: option.splits sum.splits)

definition sample_args :: "str list" where
  "sample_args = [''--socket'', ''/run/host/s'', ''--peer-credentials'', ''/run/peers'', ''--replay-dir'', ''/run/replay'']"

definition sample_host :: "(str list, str list + open_file) host" where
  "sample_host =
     \<lparr>h_parent = \<lparr>sd_dir = [''run'', ''host''], sd_owner_uid = 1000\<rparr>, h_socket_name = ''s'', h_peers = sample_peers,
      h_replay = \<lparr>fr_directory = \<lparr>sd_dir = replay_path, sd_owner_uid = 1000\<rparr>, fr_capacity = 4096,
        fr_instance_lock = Inr (File_handle INSTANCE_LOCK_NAME 1), fr_poisoned = False\<rparr>,
      h_nonces = \<lparr>ns_capacity = 64, ns_entries = [], ns_poisoned = False\<rparr>, h_nonce_policy = Optional\<rparr>"

definition running_disk :: disk where
  "running_disk = started_disk\<lparr>dk_random := 16\<rparr>"

lemma sample_started:
  "main_start host_X (machine disk_ops) [] sample_args (empty_disk, False) = (Started, (running_disk, True), Serving sample_host)"
  unfolding running_disk_def sample_host_def by code_simp

lemma sample_placed: "event_placed machine_child [] replay_path (Invoked sample_args)"
proof -
  have parsed: "parse_args sample_args = Inr (Serve \<lparr>cfg_socket = ''/run/host/s'', cfg_peer_credentials = ''/run/peers'',
      cfg_replay_dir = ''/run/replay'', cfg_nonce_context = None, cfg_socket_group_gid = None,
      cfg_replay_capacity = 4096, cfg_nonce_capacity = 64\<rparr>)"
    by code_simp
  have paths: "normalized_absolute_components (path_components ''/run/replay'') = Inr [''run'', ''replay'']"
    "walk machine_child [] [''run'', ''replay''] = Some [[], [''run''], [''run'', ''replay'']]"
    "path_parent (path_components ''/run/host/s'') = Some [RootDir, Normal ''run'', Normal ''host'']"
    "normalized_absolute_components [RootDir, Normal ''run'', Normal ''host''] = Inr [''run'', ''host'']"
    "walk machine_child [] [''run'', ''host''] = Some [[], [''run''], [''run'', ''host'']]"
    by code_simp+
  then show ?thesis
    using parsed by (auto simp: event_placed_def well_placed_def leads_to_def replay_path_def)
qed

lemma running_store:
  fixes store
  defines "store \<equiv> h_replay sample_host"
  shows "reliable_directory (ho_fs (machine disk_ops)) (sd_dir (fr_directory store)) (\<lambda>w. disk_file_at (fst w)) (under disk_opened)
      (under disk_created)
      (\<lambda>w. disk_healthy 1000 (fst w)) 1000" "disk_healthy 1000 (fst (running_disk, True))"
    "tidy (sd_owner_uid (fr_directory store)) (disk_file_at (fst (running_disk, True)))" "\<not> fr_poisoned store"
    "live_records 1010 (disk_file_at running_disk) = {}" "fr_capacity store = 4096"
  using machine_reliable [OF working_disk.reliable_directory_axioms] started_healthy started_tidy
  by (simp_all add: store_def sample_host_def running_disk_def disk_healthy_def machine_def)
    (auto simp: live_records_def disk_file_at_def started_disk_def special_not_record(2) split: if_splits)

lemma running_asked:
  fixes c
  defines "c \<equiv> sample_connection 1010"
  shows "open_request host_X (h_peers sample_host) [5] = Inr \<lparr>ar_peer_id = ''p'', ar_correlation = replicate 32 9, ar_payload = [4]\<rparr>"
    "frame_request host_X (h_peers sample_host) [5] = Some (svc_request (sample_call 1010))"
    "required_nonce (h_nonce_policy sample_host) expected_nonce (issue_nonce (cn_generated c)) (h_nonces sample_host) =
      (Inr None, h_nonces sample_host)"
    "cn_clock c = Inr 1010" "cn_time c = 1010"
  using host_frame(1) sample_asked(1) by (simp_all add: c_def sample_host_def required_nonce_def sample_connection_def)

text \<open>The premises about the proof, for any conclusion that needs them.\<close>

lemma running_valid:
  fixes req target
  defines "req \<equiv> svc_request (sample_call 1010)" and "target \<equiv> EffectiveRequestTarget ''http://a/b''"
  obtains p key where "parse_dpop_header_values host_X [vr_dpop_proof req] = Inr p"
    "proof_checks host_X policy_default 1010 p (service_request req target None)"
    "vr_confirmation_jkt req = Some (to_base64url host_X (thumbprint host_X (up_public_jwk p)))"
    "derive_replay_key host_X (thumbprint host_X (up_public_jwk p)) (vr_method req) target (clm_jti (up_claims p)) = Inr key"
    "in_i64 (clm_iat (up_claims p) + max_proof_age_seconds policy_default)"
    "cn_time (sample_connection 1010) \<le> clm_iat (up_claims p) + max_proof_age_seconds policy_default"
proof -
  obtain p key where "parse_dpop_header_values host_X [vr_dpop_proof req] = Inr p" "clm_iat (up_claims p) = 1000"
    "proof_checks host_X policy_default 1010 p (service_request req target None)"
    "vr_confirmation_jkt req = Some (to_base64url host_X (thumbprint host_X (up_public_jwk p)))"
    "derive_replay_key host_X (thumbprint host_X (up_public_jwk p)) (vr_method req) target (clm_jti (up_claims p)) = Inr key"
    using sample_valid unfolding req_def target_def by blast
  then show ?thesis
    using running_asked(5) by (intro that [of p key]) (simp_all add: in_i64_def policy_default_def)
qed

theorem program_answers_valid_request_witness:
  "\<exists>a b. fst (program_step host_X (machine disk_ops) [] ((running_disk, True), Serving sample_host)
     (Incoming (Inr (sample_connection 1010)))) = Answered (Some (Sealed a (Verified 1 b)))"
proof (rule running_valid, goal_cases)
  case (1 p key)
  show ?case
    using program_answers_valid_request [OF sample_b64_law sample_sha256_law running_store(1-4) sample_connection_read
        running_asked(1,2) sample_asked(2-5) running_asked(3) 1(1) running_asked(4) 1(2-6)]
    unfolding running_asked(5) by (simp add: running_store(5) sample_host_def)
qed

text \<open>The first connection to a host like the sample host, over any working directory without live records.\<close>

lemma running_answered:
  assumes dir: "reliable_directory (ho_fs ho) (sd_dir (fr_directory (h_replay h))) file_at opened created healthy uid" "healthy w"
      "tidy (sd_owner_uid (fr_directory (h_replay h))) (file_at w)" "\<not> fr_poisoned (h_replay h)"
    and "live_records 1010 (file_at w) = {}" "fr_capacity (h_replay h) = 4096"
    and h: "h_peers h = h_peers sample_host" "h_nonce_policy h = h_nonce_policy sample_host" "h_nonces h = h_nonces sample_host"
  shows "\<exists>a b. fst (program_step host_X ho [] (w, Serving h) (Incoming (Inr (sample_connection 1010)))) =
      Answered (Some (Sealed a (Verified 1 b))) \<and> open_request host_X (h_peers sample_host) [5] = Inr a"
proof (rule running_valid, goal_cases)
  case (1 p key)
  note asked = running_asked [folded h]
  show ?case
    using connection_answered [OF sample_b64_law sample_sha256_law dir sample_connection_read
        asked(1,2) sample_asked(2-5) asked(3) 1(1) asked(4) 1(2-6)] asked(1)
    unfolding running_asked(5)
    by (auto simp: assms(5,6) h serve_round_def split: prod.splits)
qed

text \<open>What a frame carries does not depend on who may open it.\<close>

lemma opened_payload:
  assumes "open_request X peers frame = Inr a" "open_request X peers' frame = Inr a'"
  shows "ar_payload a = ar_payload a'"
  using assms unfolding open_request_def open_frame_Inr_iff by (auto simp: frame_envelope_def)

lemma sample_reply_proof:
  assumes "program_step host_X ho [] s (Incoming (Inr (sample_connection t))) = (r, s')" "is_verified_reply (outcome_reply r)"
    and "open_request host_X peers [5] = Inr a"
  shows "reply_proof host_X (Some (Sealed a res)) = reply_proof host_X (outcome_reply r)"
proof -
  obtain w h where s: "s = (w, Serving h)"
    using assms(1,2) by (cases s; cases "snd s") auto
  obtain reply st where reply: "host_step host_X policy_default (h_nonce_policy h) (ho_fs ho) (h_replay h) (h_peers h)
      (w, h_nonces h) (sample_connection t) = (reply, st)" "outcome_reply r = reply"
    using assms(1) s by (auto simp: serve_round_def split: prod.splits)
  from reply(1) have "\<exists>a' res. open_request host_X (h_peers h) [5] = Inr a' \<and> reply = Some (Sealed a' res)"
  proof (cases rule: host_step_cases)
    case (answered frame rep)
    then have "frame = [5]" using sample_connection_read [of t] by simp
    from answered(3) show ?thesis
      by (cases rule: answer_frame_cases) (use answered(2) \<open>frame = [5]\<close> assms(2) reply(2) in auto)
  qed (use assms(2) reply(2) in simp)
  then show ?thesis using opened_payload [OF assms(3)] reply(2) by fastforce
qed

theorem program_verifies_once_witness:
  "\<exists>a b r2 r3 r4 s'. run_ops (program_step host_X (machine disk_ops) []) ((empty_disk, False), Absent)
       [Invoked sample_args, Incoming (Inr (sample_connection 1010)), Killed, Invoked sample_args,
        Incoming (Inr (sample_connection 1300))] =
       ([Started, Answered (Some (Sealed a (Verified 1 b))), r2, r3, r4], s') \<and>
     \<not> is_verified_reply (outcome_reply r4)"
proof -
  let ?step = "program_step host_X (machine disk_ops) [] :: _ \<Rightarrow> pipe host_event \<Rightarrow> _"
  let ?events = "[Invoked sample_args, Incoming (Inr (sample_connection 1010)), Killed, Invoked sample_args,
    Incoming (Inr (sample_connection 1300))]"
  obtain a b s1 where first: "?step ((running_disk, True), Serving sample_host) (Incoming (Inr (sample_connection 1010))) =
      (Answered (Some (Sealed a (Verified 1 b))), s1)" and a: "open_request host_X (h_peers sample_host) [5] = Inr a"
    using running_answered [OF running_store(1-4) _ running_store(6)] running_store(5) by (metis fst_conv prod.collapse)
  obtain r2 s2 where r2: "?step s1 Killed = (r2, s2)" by (meson surj_pair)
  obtain r3 s3 where r3: "?step s2 (Invoked sample_args) = (r3, s3)" by (meson surj_pair)
  obtain r4 s4 where r4: "?step s3 (Incoming (Inr (sample_connection 1300))) = (r4, s4)" by (meson surj_pair)
  have run: "run_ops ?step ((empty_disk, False), Absent) ?events =
      ([Started, Answered (Some (Sealed a (Verified 1 b))), r2, r3, r4], s4)"
    using sample_started first r2 r3 r4 by simp
  have "False" if verified: "is_verified_reply (outcome_reply r4)"
  proof -
    from sample_reply_proof [OF r4 that a]
    have "reply_proof host_X (outcome_reply (Answered (Some (Sealed a (Verified 1 b))))) = reply_proof host_X (outcome_reply r4)"
      by simp
    then have "(1 :: nat) = 4"
      using program_verifies_once [OF machine_host.deployment_axioms _ _ run, of 1 4] sample_placed verified
      by (simp add: event_placed_def connection_times_def sample_connection_def)
    then show False by simp
  qed
  with run show ?thesis by blast
qed

end
