(* ===== verification/Power_Loss.thy ===== *)
theory Power_Loss
  imports Disk_Model
begin

text \<open>
  The persistent replay store and power failures. A power failure keeps what was synced and leaves
  anything of what was not: entries as they were at the last sync of the directory or as they became
  since, files with any content. \<open>FileReplayStore::check_and_record\<close> syncs the record before it links it
  and the directory before it answers; the locale \<open>syncing_directory\<close> states what \<open>fsync\<close> promises, and the
  lemmas show that this order of calls keeps every accepted key accepted, and every record file whole.

  A failure in the middle of a call is a call whose remaining system calls all fail, followed by
  the loss of what was not synced.
\<close>

section \<open>What syncing promises\<close>

text \<open>
  \<open>outcomes w n\<close> are the files that \<open>n\<close> may name after a power failure in \<open>w\<close> (\<open>None\<close>: no file). \<open>solid w n\<close>
  says that the file named \<open>n\<close> is stored with its content, \<open>dir_file w f\<close> that \<open>f\<close> is the directory itself.
\<close>

locale syncing_directory = posix_directory sys dir file_at opened created
  for sys :: "('h, 'f, 'w) fs_ops" and dir :: 'h and file_at :: "'w \<Rightarrow> str \<Rightarrow> dfile option"
    and opened :: "'w \<Rightarrow> 'f \<Rightarrow> str option" and created :: "'w \<Rightarrow> 'f \<Rightarrow> str option" +
  fixes outcomes :: "'w \<Rightarrow> str \<Rightarrow> dfile option set"
    and solid :: "'w \<Rightarrow> str \<Rightarrow> bool"
    and dir_file :: "'w \<Rightarrow> 'f \<Rightarrow> bool"
  assumes quiet_list: "keeps outcomes (op_list_dir sys dir)"
    and quiet_metadata: "keeps outcomes (op_metadata sys dir n)"
    and quiet_open: "keeps outcomes (op_open_file sys dir n)" "keeps solid (op_open_file sys dir n)"
    and quiet_file: "keeps outcomes (op_file_metadata sys f)" "keeps outcomes (op_file_read sys f k)"
      "keeps outcomes (op_file_lock sys f)"
    and quiet_random: "keeps outcomes (op_random sys k)"
    and open_self: "wp (op_open_file sys dir ''.'') (\<lambda>r w'. \<forall>f. r = Inr f \<longrightarrow> dir_file w' f) w"
    and new_outcomes: "wp (op_new_file sys dir n m) (\<lambda>_ w'. \<forall>k. k \<noteq> n \<longrightarrow> outcomes w' k = outcomes w k) w"
    and write_outcomes: "created w f = Some n \<Longrightarrow> wp (op_file_write sys f bs) (\<lambda>_ w'. created w' f = Some n \<and>
      (\<forall>k. k \<noteq> n \<longrightarrow> outcomes w' k = outcomes w k)) w"
    and sync_outcomes: "wp (op_file_sync sys f) (\<lambda>r w'. (\<forall>n. outcomes w' n \<subseteq> outcomes w n) \<and>
      (\<forall>n. r = Inr () \<and> created w f = Some n \<longrightarrow> solid w' n) \<and>
      (\<forall>n. r = Inr () \<and> dir_file w f \<and> solid w n \<longrightarrow> outcomes w' n \<subseteq> {file_at w n})) w"
    and link_outcomes: "wp (op_hardlink sys dir a b) (\<lambda>r w'. (\<forall>k. k \<noteq> b \<longrightarrow> outcomes w' k = outcomes w k) \<and>
      (file_at w b \<noteq> None \<longrightarrow> outcomes w' b = outcomes w b) \<and>
      (solid w a \<longrightarrow> outcomes w' b \<subseteq> insert (file_at w a) (outcomes w b) \<and> (r = Inr () \<longrightarrow> solid w' b))) w"
    and remove_outcomes: "wp (op_remove_file sys dir n) (\<lambda>_ w'. (\<forall>k. k \<noteq> n \<longrightarrow> outcomes w' k = outcomes w k) \<and>
      outcomes w' n \<subseteq> insert None (outcomes w n)) w"

text \<open>The content of a record file, complete to its last byte.\<close>

definition whole_record :: "bytes \<Rightarrow> bool" where
  "whole_record content \<longleftrightarrow> (\<exists>e. content = as_bytes (fmt_i64 e @ [newline]))"

text \<open>A loop keeps what each of its steps keeps.\<close>

lemma wp_foldM_inv:
  assumes "J w" "\<And>acc x w. J w \<Longrightarrow> wp (f acc x) (\<lambda>_. J) w"
  shows "wp (foldM f acc xs) (\<lambda>_. J) w"
  using assms(1) by (induction xs arbitrary: acc w) (auto simp: wp_ret intro!: wp_bindI [OF assms(2)])

section \<open>What lasts\<close>

context syncing_directory
begin

definition expiry_of :: "dfile option \<Rightarrow> i64 option" where
  "expiry_of x = Option.bind x (\<lambda>x. recorded_expiry (df_content x))"

text \<open>A record is held when it is there and will be there after a power failure.\<close>

definition held :: "'w \<Rightarrow> str \<Rightarrow> i64 \<Rightarrow> bool" where
  "held w n e \<longleftrightarrow> expiry_at w n = Some e \<and> (\<forall>x \<in> outcomes w n. expiry_of x = Some e)"

definition whole_records :: "'w \<Rightarrow> bool" where
  "whole_records w \<longleftrightarrow> (\<forall>n x. list_all is_lower_hex n \<longrightarrow> file_at w n = Some x \<or> Some x \<in> outcomes w n \<longrightarrow>
     whole_record (df_content x))"

definition lasting :: "i64 \<Rightarrow> 'w \<Rightarrow> 'w \<Rightarrow> bool" where
  "lasting now w w' \<longleftrightarrow>
     (\<forall>n e. list_all is_lower_hex n \<longrightarrow> held w n e \<longrightarrow> now \<le> e \<longrightarrow> held w' n e) \<and>
     (whole_records w \<longrightarrow> whole_records w')"

text \<open>A step that leaves everything but one name as it is.\<close>

definition touches :: "str \<Rightarrow> 'w \<Rightarrow> 'w \<Rightarrow> bool" where
  "touches n w w' \<longleftrightarrow> (\<forall>k. k \<noteq> n \<longrightarrow> file_at w' k = file_at w k \<and> outcomes w' k \<subseteq> outcomes w k)"

lemma lasting_trans: "lasting now w u \<Longrightarrow> lasting now u w' \<Longrightarrow> lasting now w w'"
  by (simp add: lasting_def)

lemma held_mono:
  "held w n e \<Longrightarrow> file_at w' n = file_at w n \<Longrightarrow> outcomes w' n \<subseteq> outcomes w n \<Longrightarrow> held w' n e"
  by (auto simp: held_def expiry_at_def)

lemma whole_recordsD:
  "whole_records w \<Longrightarrow> list_all is_lower_hex n \<Longrightarrow> file_at w n = Some x \<or> Some x \<in> outcomes w n \<Longrightarrow>
   whole_record (df_content x)"
  unfolding whole_records_def by blast

lemma lasting_same:
  assumes "file_at w' = file_at w" "\<And>k. outcomes w' k \<subseteq> outcomes w k"
  shows "lasting now w w'"
proof -
  have "held w' n e" if "held w n e" for n e
    using held_mono [OF that _ assms(2)] assms(1) by simp
  moreover have "whole_records w'" if "whole_records w"
    unfolding whole_records_def assms(1) using whole_recordsD [OF that] assms(2) by blast
  ultimately show ?thesis by (simp add: lasting_def)
qed

lemma lasting_refl: "lasting now w w"
  by (simp add: lasting_def)

lemma held_touches: "touches n w w' \<Longrightarrow> k \<noteq> n \<Longrightarrow> held w k e \<Longrightarrow> held w' k e"
  unfolding touches_def by (blast intro: held_mono)

lemma whole_touches:
  assumes "touches n w w'" "whole_records w"
    and "\<And>x. list_all is_lower_hex n \<Longrightarrow> file_at w' n = Some x \<or> Some x \<in> outcomes w' n \<Longrightarrow> whole_record (df_content x)"
  shows "whole_records w'"
  unfolding whole_records_def
proof (intro allI impI)
  fix k x
  assume k: "list_all is_lower_hex k" "file_at w' k = Some x \<or> Some x \<in> outcomes w' k"
  show "whole_record (df_content x)"
  proof (cases "k = n")
    case False
    then have "file_at w k = Some x \<or> Some x \<in> outcomes w k"
      using k(2) assms(1) unfolding touches_def by auto
    then show ?thesis by (rule whole_recordsD [OF assms(2) k(1)])
  qed (use assms(3) k in simp)
qed

lemma lasting_touches: "touches n w w' \<Longrightarrow> \<not> list_all is_lower_hex n \<Longrightarrow> lasting now w w'"
  unfolding lasting_def by (metis held_touches whole_touches)

lemma touches_removed:
  assumes "file_at w' = file_at w \<or> file_at w' = (file_at w)(n := None)" "\<And>k. k \<noteq> n \<Longrightarrow> outcomes w' k = outcomes w k"
  shows "touches n w w'"
  using assms unfolding touches_def by auto

text \<open>Removing an expired record.\<close>

lemma lasting_removed:
  assumes "file_at w' = file_at w \<or> file_at w' = (file_at w)(n := None)"
    and "\<And>k. k \<noteq> n \<Longrightarrow> outcomes w' k = outcomes w k" "outcomes w' n \<subseteq> insert None (outcomes w n)"
    and "\<not> list_all is_lower_hex n \<or> (\<exists>e. expiry_at w n = Some e \<and> e < now)"
  shows "lasting now w w'"
proof (cases "list_all is_lower_hex n")
  case True
  have touch: "touches n w w'" using assms(1,2) by (rule touches_removed)
  have "k \<noteq> n" if "held w k e" "now \<le> e" for k e
    using that True assms(4) by (auto simp: held_def)
  moreover have "whole_records w'" if "whole_records w"
  proof (rule whole_touches [OF touch that])
    fix x
    assume "file_at w' n = Some x \<or> Some x \<in> outcomes w' n"
    then have "file_at w n = Some x \<or> Some x \<in> outcomes w n" using assms(1,3) by auto
    then show "whole_record (df_content x)" by (rule whole_recordsD [OF that True])
  qed
  ultimately show ?thesis using held_touches [OF touch] by (simp add: lasting_def)
qed (rule lasting_touches [OF touches_removed [OF assms(1,2)]])

text \<open>Linking a whole, stored file to a free name.\<close>

lemma lasting_linked:
  assumes files: "file_at w' = file_at w \<or> file_at w b = None \<and> file_at w' = (file_at w)(b := file_at w a)"
    and rest: "\<And>k. k \<noteq> b \<Longrightarrow> outcomes w' k = outcomes w k" "file_at w b \<noteq> None \<Longrightarrow> outcomes w' b = outcomes w b"
    and b: "outcomes w' b \<subseteq> insert (file_at w a) (outcomes w b)"
    and a: "file_at w a = Some x" "whole_record (df_content x)"
  shows "lasting now w w'"
proof (cases "file_at w b = None")
  case True
  have touch: "touches b w w'" using files rest(1) by (auto simp: touches_def)
  have "k \<noteq> b" if "held w k e" for k e
    using that True by (auto simp: held_def expiry_at_def)
  moreover have "whole_records w'" if "whole_records w"
  proof (rule whole_touches [OF touch that])
    fix y
    assume hex: "list_all is_lower_hex b" and "file_at w' b = Some y \<or> Some y \<in> outcomes w' b"
    then have "y = x \<or> Some y \<in> outcomes w b" using files b True a(1) by auto
    then show "whole_record (df_content y)" using a(2) whole_recordsD [OF that hex] by blast
  qed
  ultimately show ?thesis using held_touches [OF touch] by (simp add: lasting_def)
next
  case False
  then have "outcomes w' k = outcomes w k" for k
    using rest by (cases "k = b") simp_all
  then show ?thesis using files False by (intro lasting_same) simp_all
qed

section \<open>The calls of the store\<close>

lemmas quiet = keeps_intros quiet_list quiet_metadata quiet_open(1) quiet_file quiet_random

lemma quiet_port: "keeps outcomes m \<Longrightarrow> keeps outcomes (port m)"
  unfolding port_def by (rule quiet)

lemma quiet_sd:
  assumes "sd_dir d = dir"
  shows "keeps outcomes (sd_metadata sys d n)" "keeps outcomes (sd_open_file sys d n)" "keeps outcomes (sd_list_names sys d)"
  unfolding sd_metadata_def sd_open_file_def sd_list_names_def assms by (intro quiet keeps_foldM)+

lemma quiet_read:
  assumes "sd_dir d = dir"
  shows "keeps outcomes (read_expiry sys d n)" "keeps outcomes (validate_instance_lock sys d)"
  unfolding read_expiry_def validate_instance_lock_def
  by (intro quiet quiet_port quiet_sd [OF assms])+

lemma quiet_pending_name: "keeps outcomes (pending_name sys)"
  unfolding pending_name_def by (intro quiet quiet_port)

text \<open>A quiet call with a known effect on the files.\<close>

lemma wp_quiet:
  assumes "wp m P w" "keeps outcomes m"
  shows "wp m (\<lambda>r w'. P r w' \<and> outcomes w' = outcomes w) w"
  using wp_conj [OF assms(1) keepsD [OF assms(2)]] .

lemma power_remove:
  assumes d: "sd_dir d = dir" and n: "\<not> list_all is_lower_hex n \<or> (\<exists>e. expiry_at w n = Some e \<and> e < now)"
  shows "wp (sd_remove_file sys d n) (\<lambda>r w'. lasting now w w' \<and> touches n w w' \<and> (r = Inr () \<longrightarrow> file_at w' n = None)) w"
  unfolding sd_remove_file_def d
proof (rule wp_guarded)
  show "wp (op_remove_file sys dir n) (\<lambda>r w'. lasting now w w' \<and> touches n w w' \<and> (r = Inr () \<longrightarrow> file_at w' n = None)) w"
  proof (rule wp_both [OF remove_law remove_outcomes], goal_cases)
    case (1 r w')
    then show ?case
      using lasting_removed [OF _ _ _ n, of w'] touches_removed [of w' w n] by auto
  qed
qed (simp add: lasting_refl touches_def)

lemma power_new:
  assumes d: "sd_dir d = dir" and n: "\<not> list_all is_lower_hex n"
  shows "wp (sd_new_file sys d n m) (\<lambda>r w'. lasting now w w' \<and> (\<forall>k. k \<noteq> n \<longrightarrow> file_at w' k = file_at w k) \<and>
    (\<forall>f. r = Inr f \<longrightarrow> created w' f = Some n \<and> (\<exists>x. file_at w' n = Some x \<and> df_content x = []))) w"
  unfolding sd_new_file_def d
proof (rule wp_guarded)
  show "wp (op_new_file sys dir n m) (\<lambda>r w'. lasting now w w' \<and> (\<forall>k. k \<noteq> n \<longrightarrow> file_at w' k = file_at w k) \<and>
    (\<forall>f. r = Inr f \<longrightarrow> created w' f = Some n \<and> (\<exists>x. file_at w' n = Some x \<and> df_content x = []))) w"
  proof (rule wp_both [OF new_law new_outcomes], goal_cases)
    case (1 r w')
    then have "touches n w w'" by (auto simp: touches_def split: sum.splits)
    then show ?case using 1 lasting_touches [OF _ n] by (auto split: sum.splits)
  qed
qed (simp add: lasting_refl)

lemma power_sync_all:
  assumes "sd_dir d = dir"
  shows "wp (sd_sync_all sys d) (\<lambda>r w'. lasting now w w' \<and> file_at w' = file_at w \<and>
    (\<forall>n. r = Inr () \<and> solid w n \<longrightarrow> outcomes w' n \<subseteq> {file_at w n})) w"
  unfolding sd_sync_all_def assms
proof (rule wp_bindI [OF wp_conj [OF wp_conj [OF open_law open_self] wp_conj [OF keepsD [OF quiet_open(1)] keepsD [OF quiet_open(2)]]]],
    goal_cases)
  case (1 e u)
  then show ?case by (auto intro!: lasting_same)
next
  case (2 f u)
  then have u: "file_at u = file_at w" "dir_file u f" "outcomes u = outcomes w" "solid u = solid w" by auto
  show ?case
    by (rule wp_both [OF sync_law sync_outcomes]) (use u in \<open>auto intro!: lasting_same\<close>)
qed

lemma power_link:
  assumes d: "sd_dir d = dir" and a: "solid w a" "file_at w a = Some x" "whole_record (df_content x)"
  shows "wp (sd_hard_link sys d a b) (\<lambda>r w'. lasting now w w' \<and> (r = Inr () \<longrightarrow> solid w' b \<and> file_at w' b = Some x)) w"
  unfolding sd_hard_link_def d
proof (rule wp_guarded, rule wp_guarded)
  show "wp (op_hardlink sys dir a b) (\<lambda>r w'. lasting now w w' \<and> (r = Inr () \<longrightarrow> solid w' b \<and> file_at w' b = Some x)) w"
  proof (rule wp_both [OF link_law link_outcomes], goal_cases)
    case (1 r w')
    then show ?case using lasting_linked [OF _ _ _ _ a(2,3), of w' b now] a by auto
  qed
qed (simp_all add: lasting_refl)

lemma power_cleanup:
  assumes d: "sd_dir d = dir"
  shows "wp (cleanup_and_count sys d now) (\<lambda>_. lasting now w) w"
  unfolding cleanup_and_count_def
proof (rule wp_bind_portI [OF wp_quiet [OF wp_sd_list_names [OF d] quiet_sd(3) [OF d]]], goal_cases)
  case (2 names u)
  have step: "wp (if \<not> is_utf8 (as_bytes n) then raise DpopPortError
       else if is_pending_name n then ret k
       else if n = INSTANCE_LOCK_NAME then bindM (validate_instance_lock sys d) (\<lambda>_. ret k)
       else if \<not> is_record_name n then raise DpopPortError
       else bindM (read_expiry sys d n) (\<lambda>expiry.
         if expiry < now then bindM (port (sd_remove_file sys d n)) (\<lambda>_. ret k) else ret (k + 1)))
      (\<lambda>_. lasting now w) u" if u: "lasting now w u" for k :: nat and n u
  proof -
    have same: "lasting now w u'" if "file_at u' = file_at u" "outcomes u' = outcomes u" for u'
      using that by (intro lasting_trans [OF u] lasting_same) simp_all
    have lock: "wp (bindM (validate_instance_lock sys d) (\<lambda>_. ret k)) (\<lambda>_. lasting now w) u"
      using same by (intro wp_bindI [OF wp_quiet [OF wp_validate_instance_lock [OF d] quiet_read(2) [OF d]]])
        (auto simp: wp_simps)
    have remove: "wp (bindM (port (sd_remove_file sys d n)) (\<lambda>_. ret k)) (\<lambda>_. lasting now w) u'"
      if "file_at u' = file_at u" "outcomes u' = outcomes u" "expiry_at u n = Some e" "e < now" for u' e
    proof -
      have "expiry_at u' n = Some e" using that(1,3) by (simp add: expiry_at_def)
      then show ?thesis
        using lasting_trans [OF same [OF that(1,2)]] that(4)
        by (intro wp_bind_portI [OF power_remove [OF d, where now = now]]) (auto simp: wp_simps)
    qed
    have expiring: "wp (bindM (read_expiry sys d n) (\<lambda>expiry.
        if expiry < now then bindM (port (sd_remove_file sys d n)) (\<lambda>_. ret k) else ret (k + 1))) (\<lambda>_. lasting now w) u"
      if "is_record_name n"
      using same remove
      by (intro wp_bindI [OF wp_quiet [OF wp_read_expiry [OF d record_name_not_dot [OF that]] quiet_read(1) [OF d]]])
        (auto simp: wp_simps)
    show ?thesis using u lock expiring by (simp add: wp_simps)
  qed
  have "lasting now w u" using 2 by (intro lasting_same) simp_all
  then show ?case
    by (rule wp_foldM_inv [OF _ step])
qed (auto intro!: lasting_same)

text \<open>The order of the calls that publish a record: written, synced, linked, and the directory synced.\<close>

lemma power_publish:
  assumes d: "sd_dir d = dir" and f: "created w f = Some pending" "file_at w pending = Some x" "df_content x = []"
    and pending: "\<not> list_all is_lower_hex pending" and name: "list_all is_lower_hex name" and now: "now \<le> expires"
  shows "wp (publish_record sys d f pending name expires) (\<lambda>r w'. lasting now w w' \<and>
    (r = Inr () \<longrightarrow> held w' name expires)) w"
proof -
  let ?Q = "\<lambda>r w'. lasting now w w' \<and> (r = Inr () \<longrightarrow> held w' name expires)"
  let ?bytes = "as_bytes (fmt_i64 expires @ [newline])"
  have kept: "lasting now w u' \<and> held u' name expires"
    if "lasting now w u \<and> held u name expires" "lasting now u u'" for u u'
    using that lasting_trans name now unfolding lasting_def by blast
  have 6: "wp (port (sd_sync_all sys d)) ?Q u" if "lasting now w u \<and> held u name expires" for u
    using kept [OF that] by (intro wp_portI [OF power_sync_all [OF d, where now = now]]) blast+
  have 5: "wp (bindM (port (sd_remove_file sys d pending)) (\<lambda>_. port (sd_sync_all sys d))) ?Q u"
    if "lasting now w u \<and> held u name expires" for u
    using kept [OF that] pending by (intro wp_bind_portI [OF power_remove [OF d, where now = now]] 6) blast+
  have 4: "wp (bindM (port (sd_sync_all sys d)) (\<lambda>_. bindM (port (sd_remove_file sys d pending))
      (\<lambda>_. port (sd_sync_all sys d)))) ?Q u"
    if "lasting now w u" "solid u name" "file_at u name = Some y" "df_content y = ?bytes" for u y
  proof (rule wp_bind_portI [OF power_sync_all [OF d, where now = now]], goal_cases)
    case (1 e u')
    then show ?case using lasting_trans [OF that(1)] by blast
  next
    case (2 z u')
    have expiry: "recorded_expiry (df_content y) = Some expires" unfolding that(4) by (rule recorded_expiry_fmt)
    have "outcomes u' name \<subseteq> {Some y}" using 2 that(2,3) by auto
    then have "held u' name expires"
      using 2 that(3) expiry by (auto simp: held_def expiry_at_def expiry_of_def)
    then show ?case using 2 lasting_trans [OF that(1)] by (intro 5) blast
  qed
  have 3: "wp (bindM (port (sd_hard_link sys d pending name)) (\<lambda>_. bindM (port (sd_sync_all sys d))
      (\<lambda>_. bindM (port (sd_remove_file sys d pending)) (\<lambda>_. port (sd_sync_all sys d))))) ?Q u"
    if "lasting now w u" "solid u pending" "file_at u pending = Some y" "df_content y = ?bytes" for u y
  proof -
    have "whole_record (df_content y)" using that(4) by (auto simp: whole_record_def)
    then show ?thesis
      using lasting_trans [OF that(1)] that(4)
      by (intro wp_bind_portI [OF power_link [OF d that(2,3), where now = now]] 4) auto
  qed
  have synced: "wp (bindM (port (op_file_sync sys f)) (\<lambda>_. bindM (port (sd_hard_link sys d pending name))
      (\<lambda>_. bindM (port (sd_sync_all sys d)) (\<lambda>_. bindM (port (sd_remove_file sys d pending))
      (\<lambda>_. port (sd_sync_all sys d)))))) ?Q u"
    if u: "lasting now w u" "created u f = Some pending" "file_at u pending = Some y" "df_content y = ?bytes" for u y
  proof -
    have same: "lasting now w u'" if "file_at u' = file_at u" "\<forall>n. outcomes u' n \<subseteq> outcomes u n" for u'
      using that by (intro lasting_trans [OF u(1)] lasting_same) auto
    show ?thesis
      by (rule wp_bind_portI [OF wp_conj [OF sync_law sync_outcomes]])
        (use u same in \<open>auto intro!: 3 [of _ y]\<close>)
  qed
  show ?thesis
    unfolding publish_record_def
  proof (rule wp_bind_portI [OF wp_conj [OF write_law [OF f(1,2)] write_outcomes [OF f(1)]]], goal_cases)
    case (1 e u)
    then have "touches pending w u" by (auto simp: touches_def)
    then show ?case using lasting_touches [OF _ pending] by simp
  next
    case (2 z u)
    then obtain y where y: "file_at u = (file_at w)(pending \<mapsto> y)" "df_content y = ?bytes" using f(3) by auto
    have "touches pending w u" using 2 by (auto simp: touches_def)
    then have "lasting now w u" by (rule lasting_touches [OF _ pending])
    then show ?case using 2 y by (intro synced [of u y]) simp_all
  qed
qed

lemma power_create:
  assumes d: "sd_dir (fr_directory store) = dir" and name: "list_all is_lower_hex name" and now: "now \<le> expires"
  shows "wp (create_record sys store first active name expires) (\<lambda>r w'. lasting now w w' \<and>
    (r = Inr (Some Fresh) \<longrightarrow> held w' name expires)) w"
proof -
  let ?d = "fr_directory store"
  let ?Q = "\<lambda>r w'. lasting now w w' \<and> (r = Inr (Some Fresh) \<longrightarrow> held w' name expires)"
  let ?undo = "\<lambda>pending. bindM (attempt (sd_metadata sys ?d name)) (\<lambda>final.
      bindM (attempt (sd_remove_file sys ?d pending)) (\<lambda>_.
      bindM (attempt (sd_sync_all sys ?d)) (\<lambda>_.
        if is_ok final \<and> first then ret None else raise DpopPortError)))"
  let ?publish = "\<lambda>pending f. bindM (attempt (publish_record sys ?d f pending name expires)) (\<lambda>initialize.
      if is_ok initialize then ret (Some Fresh) else ?undo pending)"
  have undo: "wp (?undo pending) ?Q u" if u: "lasting now w u" and "\<not> list_all is_lower_hex pending" for u pending
  proof (rule wp_bind_attemptI [OF wp_quiet [OF wp_sd_metadata [OF d] quiet_sd(1) [OF d]]], goal_cases)
    case (1 final u1)
    then have u1: "lasting now w u1" by (intro lasting_trans [OF u] lasting_same) simp_all
    show ?case
    proof (rule wp_bind_attemptI [OF power_remove [OF d, where now = now]], goal_cases)
      case (2 _ u2)
      then have u2: "lasting now w u2" using lasting_trans [OF u1] by blast
      show ?case
        by (rule wp_bind_attemptI [OF power_sync_all [OF d, where now = now]])
          (use lasting_trans [OF u2] in \<open>auto simp: wp_simps\<close>)
    qed (use that in simp)
  qed
  have published: "wp (?publish pending f) ?Q u"
    if u: "lasting now w u" "created u f = Some pending" "file_at u pending = Some x" "df_content x = []"
      "\<not> list_all is_lower_hex pending" for u f pending x
    by (rule wp_bind_attemptI [OF power_publish [OF d u(2-5) name now]])
      (use undo [OF lasting_trans [OF u(1)] u(5)] lasting_trans [OF u(1)] in
        \<open>auto simp: wp_if wp_ret is_ok_iff split: if_splits\<close>)
  have new: "wp (bindM (attempt (sd_new_file sys ?d pending 0x180)) (\<lambda>r. case r of
        Inl e \<Rightarrow> if e = AlreadyExists \<and> first then ret None else raise DpopPortError
      | Inr file \<Rightarrow> ?publish pending file)) ?Q u"
    if u: "lasting now w u" and pending: "\<not> list_all is_lower_hex pending" for u pending
  proof (rule wp_bind_attemptI [OF power_new [OF d pending, where now = now]], goal_cases)
    case (1 r u')
    then have "lasting now w u'" using lasting_trans [OF u] by blast
    then show ?case using 1 published [OF _ _ _ _ pending, of u'] by (cases r) (auto simp: wp_ret wp_raise)
  qed
  show ?thesis
  proof (cases "active < fr_capacity store")
    case True
    have "wp (bindM (pending_name sys) (\<lambda>pending. bindM (attempt (sd_new_file sys ?d pending 0x180)) (\<lambda>r. case r of
        Inl e \<Rightarrow> if e = AlreadyExists \<and> first then ret None else raise DpopPortError
      | Inr file \<Rightarrow> ?publish pending file))) ?Q w"
    proof (rule wp_bindI [OF wp_quiet [OF wp_pending_name quiet_pending_name]], goal_cases)
      case (1 e u)
      then show ?case by (simp add: lasting_same)
    next
      case (2 pending u)
      then obtain s where s: "pending = PENDING_PREFIX @ s" by blast
      from 2 have "lasting now w u" by (intro lasting_same) simp_all
      then show ?case unfolding s by (rule new [OF _ pending_not_hex])
    qed
    then show ?thesis
      using True by (simp only: create_record_def Let_def not_le [symmetric] if_False)
  qed (simp add: create_record_def wp_raise lasting_refl)
qed

lemma power_attempt:
  assumes d: "sd_dir (fr_directory store) = dir" and name: "list_all is_lower_hex name" and now: "now \<le> expires"
  shows "wp (replay_attempt sys store first now name expires) (\<lambda>r w'. lasting now w w' \<and>
    (r = Inr (Some Fresh) \<longrightarrow> held w' name expires)) w"
proof -
  let ?d = "fr_directory store"
  let ?Q = "\<lambda>r w'. lasting now w w' \<and> (r = Inr (Some Fresh) \<longrightarrow> held w' name expires)"
  have dot: "name \<noteq> ''.''" using name dot_not_hex by auto
  have create: "wp (create_record sys store first active name expires) ?Q u" if "lasting now w u" for u active
    by (rule wp_mono [OF power_create [OF d name now]]) (use lasting_trans [OF that] in blast)
  have lookup: "wp (bindM (attempt (sd_metadata sys ?d name)) (\<lambda>m.
      if m = Inl NotFound then create_record sys store first active name expires else raise DpopPortError)) ?Q u"
    if u: "lasting now w u" for u active
  proof (rule wp_bind_attemptI [OF wp_quiet [OF wp_sd_metadata [OF d] quiet_sd(1) [OF d]]], goal_cases)
    case (1 m u')
    then have "lasting now w u'" by (intro lasting_trans [OF u] lasting_same) simp_all
    then show ?case using create by (auto simp: wp_if wp_raise)
  qed
  have remove: "wp (bindM (port (sd_remove_file sys ?d name)) (\<lambda>_. create_record sys store first active name expires)) ?Q u"
    if u: "lasting now w u" "expiry_at u name = Some e" "e < now" for u e active
    by (rule wp_bind_portI [OF power_remove [OF d, where now = now]])
      (use u create lasting_trans [OF u(1)] in auto)
  show ?thesis
    unfolding replay_attempt_def Let_def
  proof (rule wp_bindI [OF power_cleanup [OF d]], goal_cases)
    case (2 active u0)
    show ?case
    proof (rule wp_bind_attemptI [OF wp_quiet [OF wp_read_expiry [OF d dot] quiet_read(1) [OF d]]], goal_cases)
      case (1 r u)
      then have u: "lasting now w u" by (intro lasting_trans [OF 2] lasting_same) simp_all
      show ?case
      proof (cases r)
        case (Inl e)
        then show ?thesis using lookup [OF u] by simp
      next
        case (Inr e)
        then have "expiry_at u name = Some e" using 1 by (simp add: expiry_at_def)
        then show ?thesis using Inr u remove [OF u] by (auto simp: wp_ret not_le)
      qed
    qed
  qed simp
qed

text \<open>The whole operation: what was held stays, and a fresh answer means that the new record is held.\<close>

lemma power_check:
  assumes d: "sd_dir (fr_directory store) = dir"
  shows "wp (\<lambda>w. file_check_and_record sys store (Inr now) w key expires) (\<lambda>r w'. lasting now w w' \<and>
    (r = Inr Fresh \<longrightarrow> held w' (name_for key) expires)) w"
proof -
  let ?n = "name_for key"
  let ?Q = "\<lambda>r w'. lasting now w w' \<and> (r = Inr Fresh \<longrightarrow> held w' ?n expires)"
  note attempt1 = power_attempt [OF d name_for_hex]
  have second: "wp (bindM (replay_attempt sys store False now ?n expires)
      (\<lambda>r. case r of Some status \<Rightarrow> ret status | None \<Rightarrow> raise DpopPortError)) ?Q u"
    if u: "lasting now w u" "now \<le> expires" for u
    by (rule wp_bindI [OF attempt1 [OF u(2)]])
      (use lasting_trans [OF u(1)] in \<open>auto simp: wp_simps split: option.splits\<close>)
  have "wp (bindM (replay_attempt sys store True now ?n expires) (\<lambda>r. case r of
        Some status \<Rightarrow> ret status
      | None \<Rightarrow> bindM (replay_attempt sys store False now ?n expires)
          (\<lambda>r. case r of Some status \<Rightarrow> ret status | None \<Rightarrow> raise DpopPortError))) ?Q w" if "now \<le> expires"
    by (rule wp_bindI [OF attempt1 [OF that]]) (use second that in \<open>auto simp: wp_ret split: option.splits\<close>)
  then show ?thesis
    by (auto simp: file_check_and_record_def [abs_def] wp_simps lasting_refl)
qed

text \<open>Starting the store: only the lock file and pending files are touched.\<close>

lemma power_still:
  assumes "lasting now w u" "wp m P u" "keeps outcomes m" "\<And>r u'. P r u' \<Longrightarrow> file_at u' = file_at u"
  shows "wp m (\<lambda>_. lasting now w) u"
  by (rule wp_mono [OF wp_quiet [OF assms(2,3)]])
    (use assms(4) in \<open>auto intro!: lasting_trans [OF assms(1)] lasting_same\<close>)

lemma power_lock:
  assumes d: "sd_dir d = dir"
  shows "wp (acquire_instance_lock sys d) (\<lambda>_. lasting now w) w"
proof -
  let ?Q = "\<lambda>_. lasting now w"
  have meta: "wp (op_file_metadata sys f) ?Q u" and lock: "wp (op_file_lock sys f) ?Q u"
    and valid: "wp (validate_instance_lock sys d) ?Q u" and opens: "wp (sd_open_file sys d n) ?Q u"
    if "lasting now w u" for f u n
    by (rule power_still [OF that file_metadata_law quiet_file(1)] power_still [OF that lock_law quiet_file(3)]
        power_still [OF that wp_validate_instance_lock [OF d] quiet_read(2) [OF d]]
        power_still [OF that wp_sd_open_file [OF d] quiet_sd(2) [OF d]]; blast)+
  have open_it: "wp (bindM (validate_instance_lock sys d) (\<lambda>_. port (sd_open_file sys d INSTANCE_LOCK_NAME))) ?Q u"
    if "lasting now w u" for u
    by (rule wp_bindI [OF valid [OF that]]) (auto intro: wp_portI [OF opens])
  show ?thesis
    unfolding acquire_instance_lock_def
    by (rule wp_bind_attemptI [OF power_new [OF d lock_name_not_hex, where now = now]], rule wp_bindI [where P = ?Q])
      (auto simp: wp_ret wp_raise wp_if intro!: open_it wp_bind_portI [OF meta] wp_bind_portI [OF lock] split: sum.split)
qed

lemma power_pending:
  assumes d: "sd_dir d = dir" and u: "lasting now w u"
  shows "wp (cleanup_startup_pending sys d) (\<lambda>_. lasting now w) u"
proof -
  let ?Q = "\<lambda>_. lasting now w"
  have names: "wp (sd_list_names sys d) ?Q u"
    by (rule power_still [OF u wp_sd_list_names [OF d] quiet_sd(3) [OF d]]) blast
  have meta: "wp (sd_metadata sys d n) ?Q u" if "lasting now w u" for u n
    by (rule power_still [OF that wp_sd_metadata [OF d] quiet_sd(1) [OF d]]) blast
  have remove: "wp (sd_remove_file sys d n) ?Q u" if "lasting now w u" "is_pending_name n" for u n
    by (rule wp_mono [OF power_remove [OF d, where now = now]])
      (use is_pending_not_hex [OF that(2)] lasting_trans [OF that(1)] in blast)+
  have sync: "wp (sd_sync_all sys d) ?Q u" if "lasting now w u" for u
    by (rule wp_mono [OF power_sync_all [OF d, where now = now]]) (use lasting_trans [OF that] in blast)
  have clean: "wp (cleanup_pending sys d n) ?Q u" if "lasting now w u" "is_pending_name n" for u n
    unfolding cleanup_pending_def
    by (rule wp_bind_portI [OF meta [OF that(1)]]) (use that(2) in \<open>auto simp: wp_if wp_raise intro!: wp_portI [OF remove]\<close>)
  have loop: "wp (foldM (\<lambda>removed_any name.
      if \<not> is_utf8 (as_bytes name) then raise DpopPortError
      else if is_pending_name name then bindM (cleanup_pending sys d name) (\<lambda>_. ret True)
      else ret removed_any) False ns) ?Q u" if "lasting now w u" for ns u
    by (rule wp_foldM_inv [where J = "lasting now w", OF that]) (auto simp: wp_ret wp_raise wp_if intro!: wp_bindI [OF clean])
  show ?thesis
    unfolding cleanup_startup_pending_def
    by (rule wp_bind_portI [OF names]) (auto simp: wp_ret wp_if intro!: wp_bindI [OF loop] wp_portI [OF sync])
qed

lemma power_open:
  assumes d: "sd_dir d = dir"
  shows "wp (file_replay_store_open sys d cap) (\<lambda>_. lasting now w) w"
  unfolding file_replay_store_open_def
  by (rule wp_bindI [OF power_lock [OF d]], simp, rule wp_bindI [OF power_pending [OF d]]) (auto simp: wp_ret)

text \<open>The contract of a replay store holds of the records that are held.\<close>

definition held_expiry :: "'w \<Rightarrow> ReplayKey \<Rightarrow> i64 option" where
  "held_expiry w k = (case expiry_at w (name_for k) of
     None \<Rightarrow> None
   | Some e \<Rightarrow> if held w (name_for k) e then Some e else None)"

lemma held_expiry_iff: "held_expiry w k = Some e \<longleftrightarrow> held w (name_for k) e"
  by (auto simp: held_expiry_def held_def split: option.splits)

lemma held_expiryD: "held_expiry w k = Some e \<Longrightarrow> expiry_at w (name_for k) = Some e"
  by (simp add: held_expiry_iff held_def)

lemma held_expiry_lasting: "lasting now w w' \<Longrightarrow> held_expiry w k = Some e \<Longrightarrow> now \<le> e \<Longrightarrow> held_expiry w' k = Some e"
  unfolding held_expiry_iff lasting_def using name_for_hex by blast

lemma power_server:
  assumes d: "sd_dir (fr_directory store) = dir" and J: "\<And>now w w'. lasting now w w' \<Longrightarrow> J w \<Longrightarrow> J w'"
  shows "verifying_server (\<lambda>t. file_check_and_record sys store (Inr t)) J held_expiry"
proof (unfold_locales, goal_cases)
  case (1 w t k e r w')
  then show ?case using wpD [OF power_check [OF d] 1(2)] J by blast
next
  case (2 w t k e w')
  then show ?case
    using wpD [OF power_check [OF d] 2(2)] replay_store.check_fresh [OF file_replay_store [OF d] TrueI 2(2)]
    by (simp add: held_expiry_iff)
next
  case (3 w t k e w' e')
  then show ?case
    using replay_store.check_fresh_new [OF file_replay_store [OF d] TrueI 3(2)] held_expiryD by blast
next
  case (4 w t k e r w' k' e')
  then show ?case using wpD [OF power_check [OF d] 4(2)] held_expiry_lasting by blast
qed

end

section \<open>Histories with power failures\<close>

text \<open>\<open>Lost t c\<close> is a power failure at time \<open>t\<close>, where \<open>c\<close> decides what is left of the part that was not
  synced: the process is gone and the world is \<open>lose c w\<close>.\<close>

datatype 'c power_event =
    Alive store_event
  | Lost i64 'c

fun power_time :: "'c power_event \<Rightarrow> i64" where
  "power_time (Alive ev) = event_time ev"
| "power_time (Lost t c) = t"

fun power_step ::
  "externs \<Rightarrow> VerificationPolicy \<Rightarrow> ('h, 'f, 'w) fs_ops \<Rightarrow> ('c \<Rightarrow> 'w \<Rightarrow> 'w) \<Rightarrow> 'h SecureDir \<Rightarrow> nat
   \<Rightarrow> 'w \<times> ('h, 'f) FileReplayStore option \<Rightarrow> 'c power_event
   \<Rightarrow> (DpopError + VerifiedDpopProof) option \<times> ('w \<times> ('h, 'f) FileReplayStore option)" where
  "power_step X policy sys lose d cap s (Alive ev) = durable_step X policy sys d cap s ev"
| "power_step X policy sys lose d cap s (Lost t c) = (None, (lose c (fst s), None))"

fun power_accepts ::
  "externs \<Rightarrow> VerificationPolicy \<Rightarrow> 'c power_event \<Rightarrow> (DpopError + VerifiedDpopProof) option
   \<Rightarrow> (ReplayKey \<times> i64) option" where
  "power_accepts X policy (Alive ev) r = event_accepts X policy ev r"
| "power_accepts X policy (Lost t c) r = None"

locale power_store = syncing_directory sys dir file_at opened created outcomes solid dir_file +
    durable_store sys dir file_at opened created d cap X policy
  for sys :: "('h, 'f, 'w) fs_ops" and dir file_at opened created outcomes solid dir_file
    and d :: "'h SecureDir" and cap X policy +
  fixes lose :: "'c \<Rightarrow> 'w \<Rightarrow> 'w"
  assumes lose_outcome: "file_at (lose c w) n \<in> outcomes w n"
    and lose_settled: "outcomes (lose c w) n \<subseteq> {file_at (lose c w) n}"

lemma power_storeI:
  assumes "syncing_directory sys dir file_at opened created outcomes solid dir_file" "sd_dir d = dir"
    and "\<And>c w n. file_at (lose c w) n \<in> outcomes w n" "\<And>c w n. outcomes (lose c w) n \<subseteq> {file_at (lose c w) n}"
  shows "power_store sys dir file_at opened created outcomes solid dir_file d lose"
  using assms
  by (intro power_store.intro power_store_axioms.intro durable_store.intro durable_store_axioms.intro)
    (simp_all add: syncing_directory_def)

context power_store
begin

lemma lasting_lost: "lasting now w (lose c w)"
proof -
  have "held (lose c w) n e" if "held w n e" for n e
  proof -
    have "expiry_of (file_at (lose c w) n) = Some e" using that lose_outcome by (simp add: held_def)
    then show ?thesis
      using lose_settled [of c w n] by (auto simp: held_def expiry_at_def expiry_of_def)
  qed
  moreover have "whole_records (lose c w)" if "whole_records w"
    unfolding whole_records_def
  proof (intro allI impI)
    fix n x
    assume n: "list_all is_lower_hex n" "file_at (lose c w) n = Some x \<or> Some x \<in> outcomes (lose c w) n"
    then have "Some x \<in> outcomes w n"
      using lose_settled [of c w n] lose_outcome [of c w n] by auto
    then show "whole_record (df_content x)" using whole_recordsD [OF that n(1)] by blast
  qed
  ultimately show ?thesis by (simp add: lasting_def)
qed

lemma power_cases:
  assumes "store_over d cap s" "power_step X policy sys lose d cap s ev = (r, s')"
  obtains (verify) c store q where "ev = Alive (Presented c)" "snd s = Some store" "sd_dir (fr_directory store) = dir"
      "dpop_verify X policy (vc_clock c) (file_check_and_record sys store (Inr (vc_time c))) (vc_proof c) (vc_request c)
        (fst s) = (q, fst s')" "r = Some q" "snd s' = snd s"
  | (other) "\<And>now. lasting now (fst s) (fst s')" "power_accepts X policy ev r = None" "store_over d cap s'"
proof (cases ev)
  case (Lost t c)
  then show ?thesis using assms(2) lasting_lost by (intro other) (auto simp: store_over_def)
next
  case (Alive ev')
  then have step: "durable_step X policy sys d cap s ev' = (r, s')" using assms(2) by simp
  show ?thesis
  proof (cases ev')
    case (Restarted t)
    then have "lasting now (fst s) (fst s')" "event_accepts X policy ev' r = None" for now
      using step wpD [OF power_open [OF over_dir]] by (cases s; auto split: prod.splits sum.splits)+
    moreover have "store_over d cap s'" by (rule durable.inv_step [OF assms(1) step])
    ultimately show ?thesis using Alive by (intro other) simp_all
  next
    case (Presented c)
    show ?thesis
    proof (cases "snd s")
      case None
      then have "s' = s" "r = None" using step Presented by (cases s; simp)+
      then show ?thesis using assms(1) Alive Presented lasting_refl by (intro other) simp_all
    next
      case (Some store)
      then have "sd_dir (fr_directory store) = dir" using assms(1) over_dir by (simp add: store_over_def)
      then show ?thesis
        using step Alive Presented Some by (intro verify [of c store "the r"]) (cases s; auto split: prod.splits)+
    qed
  qed
qed

text \<open>A presented proof, for records that are held.\<close>

lemma presented_step:
  assumes "sd_dir (fr_directory store) = dir"
    and "dpop_verify X policy (vc_clock c) (file_check_and_record sys store (Inr (vc_time c))) (vc_proof c) (vc_request c) w =
      (q, w')"
  shows "accepted_call X policy c q = Some (k, e) \<Longrightarrow> held_expiry w' k = Some e \<and> vc_time c \<le> e"
    and "accepted_call X policy c q = Some (k, e) \<Longrightarrow> held_expiry w k = Some e' \<Longrightarrow> e' < vc_time c"
    and "held_expiry w k = Some e \<Longrightarrow> vc_time c \<le> e \<Longrightarrow> held_expiry w' k = Some e"
    and "whole_records w \<Longrightarrow> whole_records w'"
proof -
  have server: "verifying_server (\<lambda>t. file_check_and_record sys store (Inr t)) (\<lambda>_. True) held_expiry"
    by (rule power_server [OF assms(1)]) simp
  have whole: "verifying_server (\<lambda>t. file_check_and_record sys store (Inr t)) whole_records held_expiry"
    by (rule power_server [OF assms(1)]) (simp add: lasting_def)
  note contract = verifying_server.axioms [OF server]
  show "held_expiry w' k = Some e \<and> vc_time c \<le> e" if "accepted_call X policy c q = Some (k, e)"
    using replay_store.check_fresh [OF contract TrueI verifying_server.verify_accepted [OF server TrueI assms(2) that]] .
  show "e' < vc_time c" if "accepted_call X policy c q = Some (k, e)" "held_expiry w k = Some e'"
    using replay_store.check_fresh_new [OF contract TrueI verifying_server.verify_accepted [OF server TrueI assms(2) that(1)]
        that(2)] .
  show "held_expiry w' k = Some e" if "held_expiry w k = Some e" "vc_time c \<le> e"
    using verifying_server.verify_keeps [OF server TrueI assms(2) that] .
  show "whole_records w'" if "whole_records w"
    using verifying_server.verify_inv [OF whole that assms(2)] .
qed

end

sublocale power_store \<subseteq> power: one_shot "power_step X policy sys lose d cap" "store_over d cap"
  "\<lambda>s. held_expiry (fst s)" power_time "power_accepts X policy"
proof (unfold_locales, goal_cases)
  case (1 s ev r s')
  from 1 show ?case by (cases rule: power_cases) (use 1(1) in \<open>simp_all add: store_over_def\<close>)
next
  case (2 s ev r s' k e)
  from 2(1,2) show ?case
  proof (cases rule: power_cases)
    case (verify c store q)
    from presented_step [OF verify(3,4)] show ?thesis using 2(3) verify(1,5) by auto
  qed (use 2(3) in simp)
next
  case (3 s ev r s' k e e')
  from 3(1,2) show ?case
  proof (cases rule: power_cases)
    case (verify c store q)
    from presented_step [OF verify(3,4)] show ?thesis using 3(3,4) verify(1,5) by auto
  qed (use 3(3) in simp)
next
  case (4 s ev r s' k e)
  from 4(1,2) show ?case
  proof (cases rule: power_cases)
    case (verify c store q)
    from presented_step [OF verify(3,4)] show ?thesis using 4(3,4) verify(1) by auto
  next
    case other
    then show ?thesis using held_expiry_lasting 4(3,4) by blast
  qed
qed

context power_store
begin

lemma presented_once_power:
  assumes run: "run_ops (power_step X policy sys lose d cap) (w, None) events = (rs, s')" "sorted (map power_time events)"
    and ij: "i < length events" "j < length events" "events ! i = Alive (Presented ci)" "events ! j = Alive (Presented cj)"
    and acc: "rs ! i = Some (Inr vi)" "rs ! j = Some (Inr vj)" "vc_proof ci = vc_proof cj"
  shows "i = j"
proof -
  have key: "accepted_call X policy c (Inr v) = proof_replay_record X policy (vc_proof c) \<and>
      proof_replay_record X policy (vc_proof c) \<noteq> None"
    if m: "m < length events" "events ! m = Alive (Presented c)" "rs ! m = Some (Inr v)" for m c v
  proof (rule run_ops_nth [OF run(1) m(1)], goal_cases)
    case (1 s1 s2)
    then obtain w1 w2 store where "dpop_verify X policy (vc_clock c) (file_check_and_record sys store (Inr (vc_time c)))
        (vc_proof c) (vc_request c) w1 = (Inr v, w2)"
      using m by (cases s1) (auto split: option.splits prod.splits)
    then show ?case by (intro accepted_call_record) (simp_all add: result_simps)
  qed
  obtain k e where "power_accepts X policy (events ! i) (rs ! i) = Some (k, e)"
    "power_accepts X policy (events ! j) (rs ! j) = Some (k, e)"
    using key [OF ij(1,3) acc(1)] key [OF ij(2,4) acc(2)] ij(3,4) acc by auto
  then show ?thesis
    using power.accepted_once [OF _ run ij(1,2)] by (simp add: store_over_def)
qed

text \<open>No history tears a record.\<close>

lemma power_run_whole:
  assumes "run_ops (power_step X policy sys lose d cap) s events = (rs, s')" "store_over d cap s" "whole_records (fst s)"
  shows "whole_records (fst s')"
  using assms
proof (induction events arbitrary: s rs)
  case (Cons ev events)
  obtain r s1 rs1 where s1: "power_step X policy sys lose d cap s ev = (r, s1)"
    "run_ops (power_step X policy sys lose d cap) s1 events = (rs1, s')"
    using Cons.prems(1) by (auto split: prod.splits)
  have "whole_records (fst s1)"
    using Cons.prems(2) s1(1)
  proof (cases rule: power_cases)
    case (verify c store q)
    then show ?thesis using presented_step [OF verify(3,4)] Cons.prems(3) by blast
  next
    case other
    then show ?thesis using Cons.prems(3) by (auto simp: lasting_def)
  qed
  then show ?case using Cons.IH [OF s1(2)] power.inv_step [OF Cons.prems(2) s1(1)] by blast
qed simp

end

end
