(* ===== verification/Power_Disk.thy ===== *)
theory Power_Disk
  imports Power_Loss
begin

text \<open>
  The disk of \<open>Disk_Model\<close> with a write-back cache: beside what programs see it has the entries stored
  at the last sync of the directory, the changes of entries since, and the inodes stored with their
  content. A power failure picks an entry for every name among the stored one and the changes, and any
  content for every inode that is not stored. It keeps the laws of \<open>syncing_directory\<close>, and the witnesses
  of the properties about power failures run on it.
\<close>

record pdisk =
  pd_disk :: disk
  pd_base :: "(str \<times> nat) list"
  pd_log :: "(str \<times> nat option) list"
  pd_synced :: "nat list"

abbreviation pd_file_at :: "pdisk \<Rightarrow> str \<Rightarrow> dfile option" where
  "pd_file_at w \<equiv> disk_file_at (pd_disk w)"

abbreviation pd_opened :: "pdisk \<Rightarrow> open_file \<Rightarrow> str option" where
  "pd_opened w \<equiv> disk_opened (pd_disk w)"

text \<open>A created file has no other name, now or after a failure.\<close>

definition pd_created :: "pdisk \<Rightarrow> open_file \<Rightarrow> str option" where
  "pd_created w f = (case f of
     Dir_self \<Rightarrow> None
   | File_handle n i \<Rightarrow>
       if list_all (\<lambda>(m, j). j = i \<longrightarrow> m = n) (pd_base w) \<and> list_all (\<lambda>(m, j). j = Some i \<longrightarrow> m = n) (pd_log w)
       then disk_created (pd_disk w) f else None)"

definition pd_entry :: "pdisk \<Rightarrow> str \<Rightarrow> nat option" where
  "pd_entry w n = map_of (dk_names (pd_disk w)) n"

definition pd_candidates :: "pdisk \<Rightarrow> str \<Rightarrow> nat option list" where
  "pd_candidates w n = pd_entry w n # map_of (pd_base w) n # map snd (filter (\<lambda>(m, _). m = n) (pd_log w))"

definition entry_outcomes :: "pdisk \<Rightarrow> nat option \<Rightarrow> dfile option set" where
  "entry_outcomes w c = (case c of
     None \<Rightarrow> {None}
   | Some i \<Rightarrow> if i \<in> set (pd_synced w) then {map_of (dk_inodes (pd_disk w)) i} else UNIV)"

definition pd_outcomes :: "pdisk \<Rightarrow> str \<Rightarrow> dfile option set" where
  "pd_outcomes w n = (\<Union>c \<in> set (pd_candidates w n). entry_outcomes w c)"

definition pd_solid :: "pdisk \<Rightarrow> str \<Rightarrow> bool" where
  "pd_solid w n = (case pd_entry w n of None \<Rightarrow> True | Some i \<Rightarrow> i \<in> set (pd_synced w))"

definition pd_dir_file :: "pdisk \<Rightarrow> open_file \<Rightarrow> bool" where
  "pd_dir_file w f \<longleftrightarrow> f = Dir_self"

section \<open>Operations\<close>

text \<open>An operation of the disk, with what the cache notes about it.\<close>

definition pd_lift :: "(ErrorKind + 'a \<Rightarrow> pdisk \<Rightarrow> pdisk \<Rightarrow> pdisk) \<Rightarrow> (disk, 'a) sysop \<Rightarrow> (pdisk, 'a) sysop" where
  "pd_lift note m w = (case m (pd_disk w) of (r, d) \<Rightarrow> (r, note r w (w\<lparr>pd_disk := d\<rparr>)))"

definition pd_quiet :: "(disk, 'a) sysop \<Rightarrow> (pdisk, 'a) sysop" where
  "pd_quiet = pd_lift (\<lambda>_ _ w'. w')"

definition log_entry :: "str \<Rightarrow> pdisk \<Rightarrow> pdisk \<Rightarrow> pdisk" where
  "log_entry n w w' =
     (if pd_entry w' n = pd_entry w n then w' else w'\<lparr>pd_log := (n, pd_entry w' n) # pd_log w'\<rparr>)"

definition note_write :: "open_file \<Rightarrow> pdisk \<Rightarrow> pdisk" where
  "note_write f w = (case f of Dir_self \<Rightarrow> w | File_handle _ i \<Rightarrow> w\<lparr>pd_synced := removeAll i (pd_synced w)\<rparr>)"

definition note_sync :: "open_file \<Rightarrow> pdisk \<Rightarrow> pdisk" where
  "note_sync f w = (case f of
     Dir_self \<Rightarrow> w\<lparr>pd_base := dk_names (pd_disk w), pd_log := []\<rparr>
   | File_handle _ i \<Rightarrow> w\<lparr>pd_synced := i # pd_synced w\<rparr>)"

text \<open>A new file gets an inode that nothing refers to, on the disk or in the cache.\<close>

definition unused_inode :: "pdisk \<Rightarrow> nat" where
  "unused_inode w = Suc (foldr max (map snd (pd_base w) @ List.map_filter snd (pd_log w) @ pd_synced w) (fresh_inode (pd_disk w)))"

definition new_file_with :: "nat \<Rightarrow> str \<Rightarrow> u32 \<Rightarrow> (disk, open_file) sysop" where
  "new_file_with i n mode w = faulty w w
     (if map_of (dk_names w) n \<noteq> None then (Inl AlreadyExists, w)
      else
        (Inr (File_handle n i),
         w\<lparr>dk_names := (n, i) # dk_names w,
           dk_inodes := (i, \<lparr>df_mode = S_IFREG OR mode, df_uid = dk_uid w, df_gid = 0, df_content = []\<rparr>) # dk_inodes w\<rparr>))"

definition pd_new_file :: "unit \<Rightarrow> str \<Rightarrow> u32 \<Rightarrow> (pdisk, open_file) sysop" where
  "pd_new_file _ n mode w = pd_lift (\<lambda>_. log_entry n) (new_file_with (unused_inode w) n mode) w"

definition pd_ops :: "(unit, open_file, pdisk) fs_ops" where
  "pd_ops = \<lparr>
     op_open_root = pd_quiet (op_open_root disk_ops),
     op_try_clone = (\<lambda>h. pd_quiet (op_try_clone disk_ops h)),
     op_sub_dir = (\<lambda>h n. pd_quiet (op_sub_dir disk_ops h n)),
     op_self_metadata = (\<lambda>h. pd_quiet (op_self_metadata disk_ops h)),
     op_list_dir = (\<lambda>h. pd_quiet (disk_list_dir h)),
     op_metadata = (\<lambda>h n. pd_quiet (disk_metadata h n)),
     op_open_file = (\<lambda>h n. pd_quiet (disk_open_file h n)),
     op_new_file = pd_new_file,
     op_remove_file = (\<lambda>h n. pd_lift (\<lambda>_. log_entry n) (disk_remove_file h n)),
     op_hardlink = (\<lambda>h a b. pd_lift (\<lambda>_. log_entry b) (disk_hardlink h a b)),
     op_file_metadata = (\<lambda>f. pd_quiet (disk_file_metadata f)),
     op_file_read = (\<lambda>f k. pd_quiet (disk_file_read f k)),
     op_file_write = (\<lambda>f bs. pd_lift (\<lambda>_ _. note_write f) (disk_file_write f bs)),
     op_file_sync = (\<lambda>f. pd_lift (\<lambda>r _ w'. if is_ok r then note_sync f w' else w') (disk_file_ok f)),
     op_file_lock = (\<lambda>f. pd_quiet (disk_file_ok f)),
     op_get_xattr = (\<lambda>h a. pd_quiet (op_get_xattr disk_ops h a)),
     op_random = (\<lambda>k. pd_quiet (disk_random k)),
     op_read_path = (\<lambda>p. pd_quiet (op_read_path disk_ops p))\<rparr>"

section \<open>Power failures\<close>

text \<open>What is left: the entry that every name gets, the content of inodes that were not stored, and the
  faults of the disk after the failure.\<close>

record power_choice =
  pc_entry :: "str \<Rightarrow> nat"
  pc_content :: "nat \<Rightarrow> bytes"
  pc_faults :: "fault list"

definition left_entry :: "power_choice \<Rightarrow> pdisk \<Rightarrow> str \<Rightarrow> nat option" where
  "left_entry c w n = (let xs = pd_candidates w n in xs ! (pc_entry c n mod length xs))"

definition left_names :: "power_choice \<Rightarrow> pdisk \<Rightarrow> (str \<times> nat) list" where
  "left_names c w = List.map_filter (\<lambda>n. map_option (Pair n) (left_entry c w n))
     (remdups (map fst (dk_names (pd_disk w)) @ map fst (pd_base w) @ map fst (pd_log w)))"

definition pd_lose :: "power_choice \<Rightarrow> pdisk \<Rightarrow> pdisk" where
  "pd_lose c w =
     \<lparr>pd_disk = (pd_disk w)\<lparr>dk_names := left_names c w,
        dk_inodes := map (\<lambda>(i, x). (i, if i \<in> set (pd_synced w) then x else x\<lparr>df_content := pc_content c i\<rparr>))
          (dk_inodes (pd_disk w)),
        dk_faults := pc_faults c\<rparr>,
      pd_base = left_names c w, pd_log = [], pd_synced = map snd (left_names c w)\<rparr>"

section \<open>The laws\<close>

lemma wp_pd_lift: "wp (pd_lift note m) Q w = wp m (\<lambda>r d. Q r (note r w (w\<lparr>pd_disk := d\<rparr>))) (pd_disk w)"
  by (simp add: wp_def pd_lift_def split: prod.splits)

lemma pd_disk_notes [simp]:
  "pd_disk (log_entry n w w') = pd_disk w'" "pd_disk (note_write f w') = pd_disk w'" "pd_disk (note_sync f w') = pd_disk w'"
  by (simp_all add: log_entry_def note_write_def note_sync_def split: open_file.split)

lemma foldr_max_bounds: "x \<in> insert z (set xs) \<Longrightarrow> x \<le> foldr max xs (z :: nat)"
  by (induction xs) auto

lemma unused_inode_fresh:
  "(m, unused_inode w) \<notin> set (dk_names (pd_disk w))" "map_of (dk_inodes (pd_disk w)) (unused_inode w) = None"
  "(m, unused_inode w) \<notin> set (pd_base w)" "(m, Some (unused_inode w)) \<notin> set (pd_log w)" "unused_inode w \<notin> set (pd_synced w)"
proof -
  let ?cached = "map snd (pd_base w) @ List.map_filter snd (pd_log w) @ pd_synced w"
  have cached: "i < unused_inode w" if "i \<in> set ?cached" for i
    using foldr_max_bounds [of i "fresh_inode (pd_disk w)" ?cached] that by (simp add: unused_inode_def)
  have stored: "i < unused_inode w" if "i \<in> snd ` set (dk_names (pd_disk w)) \<union> fst ` set (dk_inodes (pd_disk w))" for i
  proof -
    have "i < fresh_inode (pd_disk w)"
      using foldr_max_ge [of i "map snd (dk_names (pd_disk w)) @ map fst (dk_inodes (pd_disk w))"] that
      by (auto simp: fresh_inode_def)
    also have "\<dots> < unused_inode w"
      using foldr_max_bounds [of "fresh_inode (pd_disk w)" "fresh_inode (pd_disk w)" ?cached] by (simp add: unused_inode_def)
    finally show ?thesis .
  qed
  show "(m, unused_inode w) \<notin> set (dk_names (pd_disk w))" using stored [of "unused_inode w"] by force
  show "map_of (dk_inodes (pd_disk w)) (unused_inode w) = None"
    using stored [of "unused_inode w"] unfolding map_of_eq_None_iff by blast
  show "(m, unused_inode w) \<notin> set (pd_base w)" "unused_inode w \<notin> set (pd_synced w)"
    using cached [of "unused_inode w"] by force+
  show "(m, Some (unused_inode w)) \<notin> set (pd_log w)"
  proof
    assume "(m, Some (unused_inode w)) \<in> set (pd_log w)"
    then have "unused_inode w \<in> set (List.map_filter snd (pd_log w))"
      by (induction "pd_log w" arbitrary: w rule: list.induct) (force simp: List.map_filter_def)+
    then show False using cached [of "unused_inode w"] by simp
  qed
qed

lemma new_file_with_at:
  assumes "map_of (dk_names w) n = None" "\<And>m. (m, i) \<notin> set (dk_names w)"
  shows "disk_file_at (w\<lparr>dk_names := (n, i) # dk_names w, dk_inodes := (i, x) # dk_inodes w\<rparr>) = (disk_file_at w)(n \<mapsto> x)"
proof -
  have "map_of (dk_names w) m \<noteq> Some i" for m using assms(2) map_of_SomeD by metis
  then show ?thesis by (auto simp: disk_file_at_def fun_eq_iff split: Option.bind_splits)
qed

lemma disk_created_name: "disk_created w f = Some n \<Longrightarrow> \<exists>i. f = File_handle n i"
  by (auto simp: disk_created_def split: open_file.splits if_splits)

lemma pd_created_disk: "pd_created w f = Some n \<Longrightarrow> disk_created (pd_disk w) f = Some n"
  by (auto simp: pd_created_def split: open_file.splits if_splits)

lemmas pd_defs = pd_ops_def pd_quiet_def wp_pd_lift

lemma disk_ops_fields:
  "op_list_dir disk_ops = disk_list_dir" "op_metadata disk_ops = disk_metadata" "op_open_file disk_ops = disk_open_file"
  "op_remove_file disk_ops = disk_remove_file" "op_hardlink disk_ops = disk_hardlink"
  "op_file_metadata disk_ops = disk_file_metadata" "op_file_read disk_ops = disk_file_read"
  "op_file_write disk_ops = disk_file_write" "op_file_sync disk_ops = disk_file_ok" "op_file_lock disk_ops = disk_file_ok"
  "op_random disk_ops = disk_random"
  by (simp_all add: disk_ops_def)

lemma pd_new_law:
  "wp (pd_new_file h n m) (\<lambda>r w'. case r of
        Inl _ \<Rightarrow> pd_file_at w' = pd_file_at w
      | Inr f \<Rightarrow> pd_file_at w n = None \<and> pd_created w' f = Some n \<and>
          (\<exists>x. df_content x = [] \<and> pd_file_at w' = (pd_file_at w)(n \<mapsto> x))) w"
proof -
  let ?i = "unused_inode w"
  let ?x = "\<lparr>df_mode = S_IFREG OR m, df_uid = dk_uid (pd_disk w), df_gid = 0, df_content = []\<rparr>"
  let ?d = "(pd_disk w)\<lparr>dk_names := (n, ?i) # dk_names (pd_disk w), dk_inodes := (?i, ?x) # dk_inodes (pd_disk w)\<rparr>"
  have made: "pd_created (log_entry n w (w\<lparr>pd_disk := d\<rparr>)) (File_handle n ?i) = Some n"
    if "dk_names d = (n, ?i) # dk_names (pd_disk w)" for d
    using that unused_inode_fresh [where w = w]
    by (auto simp: pd_created_def disk_created_def log_entry_def list_all_iff)
  have "wp (new_file_with ?i n m) (\<lambda>r d. case r of
        Inl _ \<Rightarrow> disk_file_at d = pd_file_at w
      | Inr f \<Rightarrow> pd_file_at w n = None \<and> pd_created (log_entry n w (w\<lparr>pd_disk := d\<rparr>)) f = Some n \<and>
          (\<exists>x. df_content x = [] \<and> disk_file_at d = (pd_file_at w)(n \<mapsto> x))) (pd_disk w)"
    unfolding wp_def new_file_with_def
    by (rule wp_faulty)
      (auto intro!: made exI [of _ ?x] simp: new_file_with_at unused_inode_fresh disk_file_at_def [of _ n])
  then show ?thesis by (auto simp: wp_def pd_new_file_def pd_lift_def split: prod.splits sum.splits)
qed

interpretation power_dir: posix_directory pd_ops "()" pd_file_at pd_opened pd_created
proof (unfold_locales, goal_cases)
  case (1 w)
  show ?case using disk.list_law [of  "pd_disk w"] by (simp add: pd_defs disk_ops_fields if_distrib cong: if_cong)
next
  case (2 n w)
  show ?case using disk.metadata_law [of n "pd_disk w"] by (simp add: pd_defs disk_ops_fields if_distrib cong: if_cong)
next
  case (3 n w)
  show ?case using disk.open_law [of n "pd_disk w"] by (simp add: pd_defs disk_ops_fields if_distrib cong: if_cong)
next
  case (4 f w)
  show ?case using disk.file_metadata_law [of f "pd_disk w"] by (simp add: pd_defs disk_ops_fields if_distrib cong: if_cong)
next
  case (5 f k w)
  show ?case using disk.read_law [of f k "pd_disk w"] by (simp add: pd_defs disk_ops_fields if_distrib cong: if_cong)
next
  case (6 n m w)
  show ?case using pd_new_law by (simp add: pd_ops_def)
next
  case (7 w f n x bs)
  then show ?case
    using disk.write_law [OF pd_created_disk [OF 7(1)] 7(2), of bs] by (simp add: pd_defs disk_ops_fields)
next
  case (8 f w)
  show ?case using disk.sync_law [of f "pd_disk w"] by (simp add: pd_defs disk_ops_fields if_distrib cong: if_cong)
next
  case (9 f w)
  show ?case using disk.lock_law [of f "pd_disk w"] by (simp add: pd_defs disk_ops_fields if_distrib cong: if_cong)
next
  case (10 a b w)
  show ?case using disk.link_law [of a b "pd_disk w"] by (simp add: pd_defs disk_ops_fields if_distrib cong: if_cong)
next
  case (11 n w)
  show ?case using disk.remove_law [of n "pd_disk w"] by (simp add: pd_defs disk_ops_fields if_distrib cong: if_cong)
next
  case (12 k w)
  show ?case using disk.random_law [of k "pd_disk w"] by (simp add: pd_defs disk_ops_fields if_distrib cong: if_cong)
qed

text \<open>Operations that change neither entries nor files.\<close>

lemma entry_outcomes_cong:
  "pd_synced w' = pd_synced w \<Longrightarrow> dk_inodes (pd_disk w') = dk_inodes (pd_disk w) \<Longrightarrow> entry_outcomes w' = entry_outcomes w"
  by (auto simp: entry_outcomes_def fun_eq_iff split: option.split)

lemma pd_view_same [simp]:
  assumes "dk_names d = dk_names (pd_disk w)" "dk_inodes d = dk_inodes (pd_disk w)"
  shows "pd_outcomes (w\<lparr>pd_disk := d\<rparr>) = pd_outcomes w" "pd_solid (w\<lparr>pd_disk := d\<rparr>) = pd_solid w"
  using assms entry_outcomes_cong [of "w\<lparr>pd_disk := d\<rparr>" w]
  by (auto simp: pd_outcomes_def pd_candidates_def pd_solid_def pd_entry_def fun_eq_iff split: option.split)

definition quiet_op :: "(disk, 'a) sysop \<Rightarrow> bool" where
  "quiet_op m \<longleftrightarrow> (\<forall>w. wp m (\<lambda>_ w'. dk_names w' = dk_names w \<and> dk_inodes w' = dk_inodes w) w)"

lemma pd_quiet_keeps:
  assumes "quiet_op m"
  shows "keeps pd_outcomes (pd_quiet m)" "keeps pd_solid (pd_quiet m)"
  using assms unfolding quiet_op_def keeps_def pd_quiet_def wp_pd_lift by (fast intro: wp_mono pd_view_same)+

lemma disk_quiet:
  "quiet_op (disk_list_dir h)" "quiet_op (disk_metadata h n)" "quiet_op (disk_open_file h n)"
  "quiet_op (disk_file_metadata f)" "quiet_op (disk_file_read f k)" "quiet_op (disk_file_ok f)" "quiet_op (disk_random k)"
  unfolding quiet_op_def disk_defs by (intro allI wp_faulty; simp)+

text \<open>Operations on one name.\<close>

lemma log_entry_other:
  assumes "\<And>k. k \<noteq> n \<Longrightarrow> map_of (dk_names d) k = map_of (dk_names (pd_disk w)) k"
    and "\<And>c. c \<in> set (pd_candidates w k) \<Longrightarrow> entry_outcomes (w\<lparr>pd_disk := d\<rparr>) c = entry_outcomes w c" "k \<noteq> n"
  shows "pd_outcomes (log_entry n w (w\<lparr>pd_disk := d\<rparr>)) k = pd_outcomes w k"
proof -
  let ?w = "log_entry n w (w\<lparr>pd_disk := d\<rparr>)"
  have "pd_candidates ?w k = pd_candidates w k"
    using assms(1,3) by (simp add: pd_candidates_def pd_entry_def log_entry_def)
  moreover have "entry_outcomes ?w = entry_outcomes (w\<lparr>pd_disk := d\<rparr>)"
    by (rule entry_outcomes_cong) (simp_all add: log_entry_def)
  ultimately show ?thesis using assms(2) by (simp add: pd_outcomes_def)
qed

lemma log_entry_self:
  assumes "dk_inodes d = dk_inodes (pd_disk w)"
  shows "pd_outcomes (log_entry n w (w\<lparr>pd_disk := d\<rparr>)) n \<subseteq>
    entry_outcomes w (map_of (dk_names d) n) \<union> pd_outcomes w n"
proof -
  let ?w = "log_entry n w (w\<lparr>pd_disk := d\<rparr>)"
  have "set (pd_candidates ?w n) \<subseteq> insert (map_of (dk_names d) n) (set (pd_candidates w n))"
    by (auto simp: pd_candidates_def pd_entry_def log_entry_def)
  moreover have "entry_outcomes ?w = entry_outcomes w"
    using assms by (intro entry_outcomes_cong) (simp_all add: log_entry_def)
  ultimately show ?thesis unfolding pd_outcomes_def by auto
qed

lemma entry_outcomes_self: "entry_outcomes w (pd_entry w n) \<subseteq> pd_outcomes w n"
  by (auto simp: pd_outcomes_def pd_candidates_def)

lemma solid_outcomes: "pd_solid w n \<Longrightarrow> entry_outcomes w (pd_entry w n) = {pd_file_at w n}"
  by (auto simp: pd_solid_def entry_outcomes_def disk_file_at_def pd_entry_def split: option.splits)

lemma remove_effect:
  "wp (disk_remove_file h n) (\<lambda>_ d. dk_inodes d = dk_inodes w \<and>
     (map_of (dk_names d) = map_of (dk_names w) \<or> map_of (dk_names d) = (map_of (dk_names w))(n := None))) w"
  unfolding disk_defs by (intro wp_faulty) (simp_all add: without_name_def map_of_filter_name)

lemma link_effect:
  "wp (disk_hardlink h a b) (\<lambda>r d. dk_inodes d = dk_inodes w \<and>
     (r \<noteq> Inr () \<and> map_of (dk_names d) = map_of (dk_names w) \<or>
      disk_file_at w b = None \<and> map_of (dk_names d) = (map_of (dk_names w))(b := map_of (dk_names w) a))) w"
proof (cases "linked_state a b w")
  case None
  show ?thesis unfolding disk_defs None option.case by (intro wp_faulty) auto
next
  case (Some w')
  then have "dk_inodes w' = dk_inodes w" "disk_file_at w b = None"
    "map_of (dk_names w') = (map_of (dk_names w))(b := map_of (dk_names w) a)"
    by (auto simp: linked_state_def disk_file_at_def split: option.splits if_splits)
  then show ?thesis unfolding disk_defs Some option.case by (intro wp_faulty) auto
qed

lemma new_effect:
  "wp (new_file_with i n m) (\<lambda>_ d. (\<forall>k. k \<noteq> n \<longrightarrow> map_of (dk_names d) k = map_of (dk_names w) k) \<and>
     (\<forall>j. j \<noteq> i \<longrightarrow> map_of (dk_inodes d) j = map_of (dk_inodes w) j)) w"
  unfolding wp_def new_file_with_def by (rule wp_faulty) auto

lemma write_effect:
  "wp (disk_file_write (File_handle n i) bs) (\<lambda>_ d. dk_names d = dk_names w \<and>
     (\<forall>j. j \<noteq> i \<longrightarrow> map_of (dk_inodes d) j = map_of (dk_inodes w) j)) w"
  unfolding disk_defs open_file.case by (rule wp_faulty) (auto simp: appended_def split: option.splits)

lemma entry_outcomes_inode:
  assumes "\<And>j. j \<noteq> i \<Longrightarrow> map_of (dk_inodes (pd_disk w')) j = map_of (dk_inodes (pd_disk w)) j"
    and "\<And>j. j \<noteq> i \<Longrightarrow> j \<in> set (pd_synced w') \<longleftrightarrow> j \<in> set (pd_synced w)" "c \<noteq> Some i"
  shows "entry_outcomes w' c = entry_outcomes w c"
  using assms by (auto simp: entry_outcomes_def split: option.split)

text \<open>A created file is no candidate for another name.\<close>

lemma created_candidates:
  assumes "pd_created w (File_handle n i) = Some n" "k \<noteq> n"
  shows "Some i \<notin> set (pd_candidates w k)"
proof -
  have "list_all (\<lambda>(m, j). j = i \<longrightarrow> m = n) (dk_names (pd_disk w))" "list_all (\<lambda>(m, j). j = i \<longrightarrow> m = n) (pd_base w)"
    and log: "list_all (\<lambda>(m, j). j = Some i \<longrightarrow> m = n) (pd_log w)"
    using assms(1) by (auto simp: pd_created_def disk_created_def split: if_splits)
  then have "map_of (dk_names (pd_disk w)) k \<noteq> Some i" "map_of (pd_base w) k \<noteq> Some i"
    using assms(2) by (auto simp: list_all_iff dest!: map_of_SomeD)
  then show ?thesis using log assms(2) by (auto simp: pd_candidates_def pd_entry_def list_all_iff)
qed

lemma pd_new_outcomes: "wp (pd_new_file h n m) (\<lambda>_ w'. \<forall>k. k \<noteq> n \<longrightarrow> pd_outcomes w' k = pd_outcomes w k) w"
proof -
  let ?i = "unused_inode w"
  have "wp (new_file_with ?i n m) (\<lambda>_ d. \<forall>k. k \<noteq> n \<longrightarrow> pd_outcomes (log_entry n w (w\<lparr>pd_disk := d\<rparr>)) k = pd_outcomes w k) (pd_disk w)"
  proof (rule wp_mono [OF new_effect], intro allI impI)
    fix d :: disk and k
    assume d: "(\<forall>k. k \<noteq> n \<longrightarrow> map_of (dk_names d) k = map_of (dk_names (pd_disk w)) k) \<and>
      (\<forall>j. j \<noteq> ?i \<longrightarrow> map_of (dk_inodes d) j = map_of (dk_inodes (pd_disk w)) j)" and k: "k \<noteq> n"
    have "entry_outcomes (w\<lparr>pd_disk := d\<rparr>) c = entry_outcomes w c" for c
    proof (cases "c = Some ?i")
      case True
      then show ?thesis using unused_inode_fresh(5) by (simp add: entry_outcomes_def)
    qed (rule entry_outcomes_inode [of ?i], use d in auto)
    then show "pd_outcomes (log_entry n w (w\<lparr>pd_disk := d\<rparr>)) k = pd_outcomes w k"
      using d k by (intro log_entry_other) auto
  qed
  then show ?thesis by (simp add: wp_def pd_new_file_def pd_lift_def split: prod.splits)
qed

lemma pd_write_outcomes:
  assumes "pd_created w f = Some n"
  shows "wp (op_file_write pd_ops f bs) (\<lambda>_ w'. pd_created w' f = Some n \<and> (\<forall>k. k \<noteq> n \<longrightarrow> pd_outcomes w' k = pd_outcomes w k)) w"
proof -
  obtain i where f: "f = File_handle n i" using disk_created_name [OF pd_created_disk [OF assms]] by blast
  note created = assms [unfolded f]
  show ?thesis
    unfolding pd_ops_def fs_ops.simps wp_pd_lift f
  proof (rule wp_mono [OF write_effect], intro conjI allI impI, goal_cases)
    case (1 r d)
    then show ?case
      using created by (simp add: pd_created_def disk_created_def note_write_def split: if_splits)
  next
    case (2 r d k)
    let ?w = "note_write (File_handle n i) (w\<lparr>pd_disk := d\<rparr>)"
    have "pd_candidates ?w k = pd_candidates w k"
      using 2 by (simp add: pd_candidates_def pd_entry_def note_write_def)
    moreover have "entry_outcomes ?w c = entry_outcomes w c" if "c \<in> set (pd_candidates w k)" for c
      using 2 that created_candidates [OF created 2(2)]
      by (intro entry_outcomes_inode [of i]) (auto simp: note_write_def)
    ultimately show ?case by (simp add: pd_outcomes_def)
  qed
qed

lemma pd_sync_outcomes:
  "wp (op_file_sync pd_ops f) (\<lambda>r w'. (\<forall>n. pd_outcomes w' n \<subseteq> pd_outcomes w n) \<and>
      (\<forall>n. r = Inr () \<and> pd_created w f = Some n \<longrightarrow> pd_solid w' n) \<and>
      (\<forall>n. r = Inr () \<and> pd_dir_file w f \<and> pd_solid w n \<longrightarrow> pd_outcomes w' n \<subseteq> {pd_file_at w n})) w"
proof -
  have dir: "pd_outcomes (note_sync Dir_self u) n = entry_outcomes u (pd_entry u n)" for u n
    using entry_outcomes_cong [of "note_sync Dir_self u" u]
    by (simp add: pd_outcomes_def pd_candidates_def pd_entry_def note_sync_def)
  have handle: "pd_outcomes (note_sync (File_handle m i) u) n \<subseteq> pd_outcomes u n" for u m i n
  proof -
    have "entry_outcomes (note_sync (File_handle m i) u) c \<subseteq> entry_outcomes u c" for c
      by (auto simp: entry_outcomes_def note_sync_def split: option.splits if_splits)
    then show ?thesis unfolding pd_outcomes_def
      by (simp add: pd_candidates_def pd_entry_def note_sync_def) blast
  qed
  have solid: "pd_solid (note_sync f u) n" if "pd_created u f = Some n" for u n
    using disk_created_name [OF pd_created_disk [OF that]] pd_created_disk [OF that]
    by (auto simp: pd_solid_def pd_entry_def note_sync_def disk_created_def split: if_splits)
  have same: "pd_outcomes (w\<lparr>pd_disk := d\<rparr>) = pd_outcomes w" "pd_created (w\<lparr>pd_disk := d\<rparr>) = pd_created w"
    "pd_solid (w\<lparr>pd_disk := d\<rparr>) = pd_solid w" "pd_file_at (w\<lparr>pd_disk := d\<rparr>) = pd_file_at w"
    if "dk_names d = dk_names (pd_disk w)" "dk_inodes d = dk_inodes (pd_disk w)" for d
    using that by (auto simp: pd_created_def disk_created_def disk_file_at_def fun_eq_iff split: open_file.split)
  show ?thesis
    unfolding pd_ops_def fs_ops.simps wp_pd_lift
  proof (rule wp_mono [OF disk_quiet(6) [unfolded quiet_op_def, rule_format]], goal_cases)
    case (1 r d)
    let ?u = "w\<lparr>pd_disk := d\<rparr>"
    note u = same [OF conjunct1 [OF 1] conjunct2 [OF 1]]
    show ?case
    proof (cases "is_ok r")
      case True
      have "pd_outcomes (note_sync f ?u) n \<subseteq> pd_outcomes w n" for n
      proof (cases f)
        case Dir_self
        then show ?thesis using dir entry_outcomes_self [of ?u n] u(1) by simp
      next
        case (File_handle m i)
        then show ?thesis using handle [of m i ?u n] u(1) by simp
      qed
      moreover have "pd_outcomes (note_sync Dir_self ?u) n = {pd_file_at w n}" if "pd_solid w n" for n
        using that u dir solid_outcomes [of ?u n] by simp
      ultimately show ?thesis using True u solid [of ?u] by (auto simp: pd_dir_file_def)
    qed (use u in \<open>auto simp: result_simps\<close>)
  qed
qed

lemma pd_link_outcomes:
  "wp (op_hardlink pd_ops h a b) (\<lambda>r w'. (\<forall>k. k \<noteq> b \<longrightarrow> pd_outcomes w' k = pd_outcomes w k) \<and>
      (pd_file_at w b \<noteq> None \<longrightarrow> pd_outcomes w' b = pd_outcomes w b) \<and>
      (pd_solid w a \<longrightarrow> pd_outcomes w' b \<subseteq> insert (pd_file_at w a) (pd_outcomes w b) \<and> (r = Inr () \<longrightarrow> pd_solid w' b))) w"
  unfolding pd_ops_def fs_ops.simps wp_pd_lift
proof (rule wp_mono [OF link_effect], goal_cases)
  case (1 r d)
  let ?w = "log_entry b w (w\<lparr>pd_disk := d\<rparr>)"
  have "entry_outcomes (w\<lparr>pd_disk := d\<rparr>) = entry_outcomes w" using 1 by (intro entry_outcomes_cong) simp_all
  then have others: "pd_outcomes ?w k = pd_outcomes w k" if "k \<noteq> b" for k
    using 1 that by (intro log_entry_other) auto
  have self: "pd_outcomes ?w b \<subseteq> entry_outcomes w (map_of (dk_names d) b) \<union> pd_outcomes w b"
    using 1 by (intro log_entry_self) simp
  from 1 consider (kept) "r \<noteq> Inr ()" "map_of (dk_names d) = map_of (dk_names (pd_disk w))"
    | (linked) "pd_file_at w b = None" "map_of (dk_names d) = (map_of (dk_names (pd_disk w)))(b := map_of (dk_names (pd_disk w)) a)"
    by metis
  then show ?case
  proof cases
    case kept
    have "pd_outcomes ?w b = pd_outcomes w b"
      using kept(2) 1 entry_outcomes_cong [of ?w w]
      by (simp add: pd_outcomes_def pd_candidates_def pd_entry_def log_entry_def)
    then show ?thesis using others kept(1) by auto
  next
    case linked
    have "pd_outcomes ?w b \<subseteq> insert (pd_file_at w a) (pd_outcomes w b)" if "pd_solid w a"
      using self solid_outcomes [OF that] linked(2) by (simp add: pd_entry_def)
    moreover have "pd_solid ?w b" if "pd_solid w a"
      using that linked(2) by (simp add: pd_solid_def pd_entry_def log_entry_def split: option.splits)
    ultimately show ?thesis using others linked(1) by simp
  qed
qed

lemma pd_remove_outcomes:
  "wp (op_remove_file pd_ops h n) (\<lambda>_ w'. (\<forall>k. k \<noteq> n \<longrightarrow> pd_outcomes w' k = pd_outcomes w k) \<and>
      pd_outcomes w' n \<subseteq> insert None (pd_outcomes w n)) w"
  unfolding pd_ops_def fs_ops.simps wp_pd_lift
proof (rule wp_mono [OF remove_effect], goal_cases)
  case (1 r d)
  let ?w = "log_entry n w (w\<lparr>pd_disk := d\<rparr>)"
  have "entry_outcomes (w\<lparr>pd_disk := d\<rparr>) = entry_outcomes w" using 1 by (intro entry_outcomes_cong) simp_all
  then have "pd_outcomes ?w k = pd_outcomes w k" if "k \<noteq> n" for k
    using 1 that by (intro log_entry_other) auto
  moreover have "entry_outcomes w (map_of (dk_names d) n) \<subseteq> insert None (pd_outcomes w n)"
    using 1 entry_outcomes_self [of w n] by (auto simp: pd_entry_def entry_outcomes_def)
  then have "pd_outcomes ?w n \<subseteq> insert None (pd_outcomes w n)"
    using log_entry_self [of d w n] 1 by blast
  ultimately show ?case by blast
qed

interpretation power_dir: syncing_directory pd_ops "()" pd_file_at pd_opened pd_created pd_outcomes pd_solid pd_dir_file
proof (unfold_locales, goal_cases)
  case (9 w)
  have "wp (disk_open_file () ''.'') (\<lambda>r _. \<forall>f. r = Inr f \<longrightarrow> f = Dir_self) (pd_disk w)"
    unfolding disk_defs by (rule wp_faulty) simp_all
  then show ?case by (simp add: pd_defs pd_dir_file_def)
next
  case (10 n m w)
  show ?case using pd_new_outcomes by (simp add: pd_ops_def)
qed (use pd_write_outcomes pd_sync_outcomes pd_link_outcomes pd_remove_outcomes in
    \<open>auto simp: pd_ops_def intro!: pd_quiet_keeps disk_quiet\<close>)

text \<open>A power failure leaves one of the outcomes, and then nothing is open.\<close>

lemma left_entry_candidate: "left_entry c w n \<in> set (pd_candidates w n)"
  unfolding left_entry_def Let_def by (rule nth_mem, rule mod_less_divisor) (simp add: pd_candidates_def)

lemma map_of_left:
  "map_of (List.map_filter (\<lambda>n. map_option (Pair n) (g n)) ns) k = (if k \<in> set ns then g k else None)"
proof (induction ns)
  case (Cons n ns)
  then show ?case by (cases "g n") (auto simp: List.map_filter_def)
qed (simp add: List.map_filter_def)

lemma left_names_entry: "map_of (left_names c w) n = left_entry c w n"
proof (cases "n \<in> set (map fst (dk_names (pd_disk w)) @ map fst (pd_base w) @ map fst (pd_log w))")
  case True
  then show ?thesis by (simp add: left_names_def map_of_left)
next
  case False
  then have "map_of (dk_names (pd_disk w)) n = None" "map_of (pd_base w) n = None" "filter (\<lambda>(m, _). m = n) (pd_log w) = []"
    by (auto simp: map_of_eq_None_iff filter_empty_conv) force
  then have "left_entry c w n = None"
    using left_entry_candidate [of c w n] by (simp add: pd_candidates_def pd_entry_def)
  then show ?thesis using False by (simp add: left_names_def map_of_left)
qed

lemma lose_outcome: "pd_file_at (pd_lose c w) n \<in> pd_outcomes w n"
proof -
  have inode: "map_of (dk_inodes (pd_disk (pd_lose c w))) i = map_of (dk_inodes (pd_disk w)) i" if "i \<in> set (pd_synced w)" for i
  proof -
    have "map_of (map (\<lambda>(i, x). (i, if i \<in> S then x else h i x)) xs) i = map_of xs i" if "i \<in> S"
      for xs :: "(nat \<times> dfile) list" and S h
      using that by (induction xs) auto
    then show ?thesis using that by (simp add: pd_lose_def)
  qed
  have "pd_file_at (pd_lose c w) n \<in> entry_outcomes w (left_entry c w n)"
  proof (cases "left_entry c w n")
    case None
    then show ?thesis using left_names_entry [of c w n] by (simp add: disk_file_at_def pd_lose_def entry_outcomes_def)
  next
    case (Some i)
    then have "pd_file_at (pd_lose c w) n = map_of (dk_inodes (pd_disk (pd_lose c w))) i"
      using left_names_entry [of c w n] by (simp add: disk_file_at_def pd_lose_def)
    then show ?thesis using Some inode [of i] by (simp add: entry_outcomes_def)
  qed
  then show ?thesis using left_entry_candidate [of c w n] unfolding pd_outcomes_def by blast
qed

lemma lose_settled: "pd_outcomes (pd_lose c w) n \<subseteq> {pd_file_at (pd_lose c w) n}"
proof -
  have "i \<in> set (pd_synced (pd_lose c w))" if "pd_entry (pd_lose c w) n = Some i" for i
    using that by (force simp: pd_entry_def pd_lose_def dest: map_of_SomeD)
  then have "pd_solid (pd_lose c w) n" by (simp add: pd_solid_def split: option.split)
  moreover have "set (pd_candidates (pd_lose c w) n) = {pd_entry (pd_lose c w) n}"
    by (simp add: pd_candidates_def pd_entry_def pd_lose_def)
  ultimately show ?thesis using solid_outcomes [of "pd_lose c w" n] by (simp add: pd_outcomes_def)
qed

interpretation power_disk: power_store pd_ops "()" pd_file_at pd_opened pd_created pd_outcomes pd_solid pd_dir_file
  d cap X policy pd_lose
  for d :: "unit SecureDir" and cap :: nat and X :: externs and policy :: VerificationPolicy
  by unfold_locales (simp_all add: lose_outcome lose_settled)

text \<open>Without faults the disk works, with its cache as without.\<close>

interpretation power_dir: reliable_directory pd_ops "()" pd_file_at pd_opened pd_created "\<lambda>w. disk_healthy uid (pd_disk w)" uid
  for uid :: u32
proof (unfold_locales, goal_cases)
  case (1 w)
  then show ?case using working_disk.list_ok [of uid "pd_disk w"] by (simp add: pd_defs disk_ops_fields)
next
  case (2 w n)
  then show ?case using working_disk.metadata_ok [of uid "pd_disk w" n] by (simp add: pd_defs disk_ops_fields)
next
  case (3 w n)
  then show ?case using working_disk.open_ok [of uid "pd_disk w" n] by (simp add: pd_defs disk_ops_fields)
next
  case (4 w f n)
  then show ?case using working_disk.file_metadata_ok [of uid "pd_disk w" f n] by (simp add: pd_defs disk_ops_fields)
next
  case (5 w f n k)
  then show ?case using working_disk.read_ok [of uid "pd_disk w" f n k] by (simp add: pd_defs disk_ops_fields)
next
  case (6 w n m)
  have names: "map_of (dk_names (pd_disk w)) n = None" using 6 healthy_file_at by blast
  have "disk_healthy uid ((pd_disk w)\<lparr>dk_names := (n, i) # dk_names (pd_disk w), dk_inodes := (i, x) # dk_inodes (pd_disk w)\<rparr>)"
    for i x using healthy_upd [OF 6(1) names, of i x i] by simp
  then show ?case
    using 6 names
    by (simp add: pd_ops_def pd_new_file_def pd_lift_def wp_def new_file_with_def healthy_faulty result_simps)
      (simp add: disk_healthy_def disk_file_at_def)
next
  case (7 w f n x bs)
  then show ?case
    using working_disk.write_ok [of uid "pd_disk w" f n x bs] pd_created_disk by (simp add: pd_defs disk_ops_fields)
next
  case (8 w f)
  then show ?case
    using working_disk.sync_ok [of uid "pd_disk w" f] by (simp add: pd_defs disk_ops_fields if_distrib cong: if_cong)
next
  case (9 w a b)
  then show ?case using working_disk.link_ok [of uid "pd_disk w" a b] by (simp add: pd_defs disk_ops_fields)
next
  case (10 w n)
  then show ?case using working_disk.remove_ok [of uid "pd_disk w" n] by (simp add: pd_defs disk_ops_fields)
next
  case (11 w k)
  then show ?case using working_disk.random_ok [of uid "pd_disk w" k] by (simp add: pd_defs disk_ops_fields)
qed

definition empty_pdisk :: pdisk where
  "empty_pdisk = \<lparr>pd_disk = empty_disk, pd_base = [], pd_log = [], pd_synced = []\<rparr>"

definition started_pdisk :: pdisk where
  "started_pdisk = \<lparr>pd_disk = empty_disk\<lparr>dk_names := [(INSTANCE_LOCK_NAME, 2)],
       dk_inodes := [(2, \<lparr>df_mode = 0x8180, df_uid = 1000, df_gid = 0, df_content = []\<rparr>)]\<rparr>,
     pd_base = [], pd_log = [(INSTANCE_LOCK_NAME, Some 2)], pd_synced = []\<rparr>"

definition power_file_store :: "(unit, open_file) FileReplayStore" where
  "power_file_store = \<lparr>fr_directory = sample_dir, fr_capacity = 2,
     fr_instance_lock = File_handle INSTANCE_LOCK_NAME 2, fr_poisoned = False\<rparr>"

lemma power_started: "file_replay_store_open pd_ops sample_dir 2 empty_pdisk = (Inr power_file_store, started_pdisk)"
  unfolding empty_pdisk_def started_pdisk_def power_file_store_def by code_simp

lemma power_started_tidy: "tidy 1000 (pd_file_at started_pdisk)"
proof -
  have "lock_ok 1000 \<lparr>df_mode = 0x8180, df_uid = 1000, df_gid = 0, df_content = []\<rparr>" by code_simp
  then show ?thesis by (auto simp: tidy_def disk_file_at_def started_pdisk_def)
qed

lemma power_started_fresh:
  assumes "length (replay_key_bytes key) = 32"
  shows "fst (file_check_and_record pd_ops power_file_store (Inr 1010) started_pdisk key 1300) = Inr Fresh"
proof -
  note power_started_tidy
  moreover have "disk_healthy 1000 (pd_disk started_pdisk)"
    by (simp add: disk_healthy_def started_pdisk_def empty_disk_def)
  moreover have "power_dir.live_names 1010 started_pdisk = {}"
    by (auto simp: power_dir.live_names_def power_dir.expiry_at_def disk_file_at_def started_pdisk_def
        special_not_record(2) split: if_splits)
  ultimately show ?thesis
    using power_dir.ok_file_check_and_record [of power_file_store 1000 started_pdisk key 1010 1300] assms
    by (auto simp: power_file_store_def sample_dir_def power_dir.decision_def)
qed

text \<open>A proof is accepted, the power fails, the host starts again and the proof is presented again. The
  failure takes for every entry what was stored last, and empties every file that was not.\<close>

definition power_events :: "UnverifiedDpopProof \<Rightarrow> power_choice power_event list" where
  "power_events p =
     [Alive (Restarted 1000),
      Alive (Presented \<lparr>vc_clock = Inr 1010, vc_time = 1010, vc_proof = p, vc_request = sample_request\<rparr>),
      Lost 1015 \<lparr>pc_entry = (\<lambda>_. 1), pc_content = (\<lambda>_. []), pc_faults = []\<rparr>,
      Alive (Restarted 1020),
      Alive (Presented \<lparr>vc_clock = Inr 1300, vc_time = 1300, vc_proof = p, vc_request = sample_request\<rparr>)]"

lemma power_events_run:
  obtains p v r3 r4 s' where "parse_dpop_header_values sample_X [proof_header_value sample_proof] = Inr p"
    "run_ops (power_step sample_X policy_default pd_ops pd_lose sample_dir 2) (empty_pdisk, None) (power_events p) =
      ([None, Some (Inr v), None, r3, r4], s')"
proof -
  let ?car = "\<lambda>t. file_check_and_record pd_ops power_file_store (Inr t)"
  let ?c = "\<lambda>p t. \<lparr>vc_clock = Inr t, vc_time = t, vc_proof = p, vc_request = sample_request\<rparr>"
  let ?step = "power_step sample_X policy_default pd_ops pd_lose sample_dir 2"
  have "?car 1010 started_pdisk key 1300 = (Inr Fresh, snd (?car 1010 started_pdisk key 1300))"
    if "length (replay_key_bytes key) = 32" for key
    using power_started_fresh [OF that] by (intro prod_eqI) simp_all
  then obtain p key v w1 where p: "parse_dpop_header_values sample_X [proof_header_value sample_proof] = Inr p"
    and v: "dpop_verify sample_X policy_default (Inr 1010) (?car 1010) p sample_request started_pdisk = (Inr v, w1)"
    using sample_accepted [of "?car 1010" started_pdisk "\<lambda>key. snd (?car 1010 started_pdisk key 1300)"] by blast
  obtain r3 s3 where r3: "?step (pd_lose \<lparr>pc_entry = (\<lambda>_. 1), pc_content = (\<lambda>_. []), pc_faults = []\<rparr> w1, None)
      (Alive (Restarted 1020)) = (r3, s3)" by (meson surj_pair)
  obtain r4 s4 where r4: "?step s3 (Alive (Presented (?c p 1300))) = (r4, s4)" by (meson surj_pair)
  have "run_ops ?step (empty_pdisk, None) (power_events p) = ([None, Some (Inr v), None, r3, r4], s4)"
    using power_started v r3 r4 by (simp add: power_events_def)
  with p show thesis by (rule that)
qed

section \<open>Properties\<close>

text \<open>No replay across power failures: along any sequence of presented proofs, restarts and power
  failures, a proof is accepted at most once, when the directory keeps the POSIX laws and the laws of
  \<open>fsync\<close>, a failure leaves any outcome for what was not synced, and clock readings do not go back.
  Any call may fail, so that a failure in the middle of a call is covered.\<close>

lemma power_loss_accepts_once:
  assumes "syncing_directory sys dir file_at opened created outcomes solid dir_file" "sd_dir d = dir"
    and lose: "\<And>c w n. file_at (lose c w) n \<in> outcomes w n" "\<And>c w n. outcomes (lose c w) n \<subseteq> {file_at (lose c w) n}"
    and "run_ops (power_step X policy sys lose d cap) (w, None) events = (rs, s')" "sorted (map power_time events)"
    and "i < length events" "j < length events" "events ! i = Alive (Presented ci)" "events ! j = Alive (Presented cj)"
    and "rs ! i = Some (Inr vi)" "rs ! j = Some (Inr vj)" "vc_proof ci = vc_proof cj"
  shows "i = j"
proof -
  have "power_store sys dir file_at opened created outcomes solid dir_file d lose"
    using assms(1) by (intro power_storeI assms(2) lose)
  then show ?thesis
    using assms(5-13) by (rule power_store.presented_once_power)
qed

text \<open>C11. No torn records: over a directory that starts without records, after any sequence of presented
  proofs, restarts and power failures, every record file is complete, and stays so after one more
  power failure at any moment.\<close>

theorem power_loss_tears_no_record:
  assumes "syncing_directory sys dir file_at opened created outcomes solid dir_file" "sd_dir d = dir"
    and lose: "\<And>c w n. file_at (lose c w) n \<in> outcomes w n" "\<And>c w n. outcomes (lose c w) n \<subseteq> {file_at (lose c w) n}"
    and run: "run_ops (power_step X policy sys lose d cap) (w, None) events = (rs, s')"
    and start: "\<And>n. list_all is_lower_hex n \<Longrightarrow> file_at w n = None \<and> outcomes w n \<subseteq> {None}"
    and n: "list_all is_lower_hex n" "file_at (fst s') n = Some x \<or> file_at (lose c (fst s')) n = Some x"
  shows "\<exists>e. df_content x = as_bytes (fmt_i64 e @ [newline])"
proof -
  have store: "power_store sys dir file_at opened created outcomes solid dir_file d lose"
    using assms(1) by (intro power_storeI assms(2) lose)
  note whole_def = syncing_directory.whole_records_def [OF assms(1)]
  have "syncing_directory.whole_records file_at outcomes w" using start unfolding whole_def by fastforce
  then have "syncing_directory.whole_records file_at outcomes (fst s')"
    using power_store.power_run_whole [OF store run] by (simp add: store_over_def)
  moreover have "file_at (fst s') n = Some x \<or> Some x \<in> outcomes (fst s') n" using n(2) lose(1) by metis
  ultimately have "whole_record (df_content x)" using n(1) unfolding whole_def by blast
  then show ?thesis by (simp add: whole_record_def)
qed

theorem power_loss_tears_no_record_witness:
  "\<exists>p rs s'. run_ops (power_step sample_X policy_default pd_ops pd_lose sample_dir 2) (empty_pdisk, None) (power_events p) = (rs, s') \<and>
     (\<forall>n c x. list_all is_lower_hex n \<and> pd_file_at (pd_lose c (fst s')) n = Some x \<longrightarrow>
        (\<exists>e. df_content x = as_bytes (fmt_i64 e @ [newline])))"
proof -
  obtain p rs s' where run: "run_ops (power_step sample_X policy_default pd_ops pd_lose sample_dir 2) (empty_pdisk, None)
      (power_events p) = (rs, s')"
    by (rule power_events_run) blast
  have start: "pd_file_at empty_pdisk n = None \<and> pd_outcomes empty_pdisk n \<subseteq> {None}" for n
    by (simp add: empty_pdisk_def empty_disk_def disk_file_at_def pd_outcomes_def pd_candidates_def pd_entry_def
        entry_outcomes_def)
  show ?thesis
    using power_loss_tears_no_record [OF power_dir.syncing_directory_axioms _ lose_outcome lose_settled run start] run
    by (meson old.unit.exhaust)
qed

end
