(* ===== verification/Host_Power.thy ===== *)
theory Host_Power
  imports Host_Main Power_Disk
begin

text \<open>
  The program \<open>keylix-verifier\<close> on a machine whose power may fail: a \<open>deployment\<close> whose replay directory
  also keeps the laws of \<open>fsync\<close>. An outage ends the process at any moment between two events and takes
  what was not synced; one in the middle of an event is an event whose remaining system calls fail,
  followed by the outage.
\<close>

lemma wp_all: "(\<And>x. wp m (P x) w) \<Longrightarrow> wp m (\<lambda>r w'. \<forall>x. P x r w') w"
  by (simp add: wp_def split_beta)

section \<open>Deployments with power failures\<close>

text \<open>The handle \<open>replay_dir\<close> is one of those that lead to the replay directory. Calls elsewhere change
  neither its files nor what a power failure may leave of them.\<close>

locale power_deployment = dir_tree "ho_fs ho" node root child attr xattr +
    storage: syncing_directory "ho_fs ho" replay_dir file_at opened created outcomes solid dir_file
  for ho :: "('h, 'f, 'w) host_ops" and node :: "'h \<Rightarrow> 'n" and root child attr xattr
    and replay_dir :: 'h and file_at opened created outcomes solid dir_file +
  fixes lose :: "'c \<Rightarrow> 'w \<Rightarrow> 'w"
  assumes same_storage: "node d = node replay_dir \<Longrightarrow>
      syncing_directory (ho_fs ho) d file_at opened created outcomes solid dir_file"
    and lookup_law: "keeps (\<lambda>w. (file_at w, outcomes w)) (op_open_root (ho_fs ho))"
      "keeps (\<lambda>w. (file_at w, outcomes w)) (op_try_clone (ho_fs ho) d)"
      "keeps (\<lambda>w. (file_at w, outcomes w)) (op_sub_dir (ho_fs ho) d n)"
      "keeps (\<lambda>w. (file_at w, outcomes w)) (op_self_metadata (ho_fs ho) d)"
      "keeps (\<lambda>w. (file_at w, outcomes w)) (op_metadata (ho_fs ho) d n)"
      "keeps (\<lambda>w. (file_at w, outcomes w)) (op_open_file (ho_fs ho) d n)"
    and file_law: "keeps (\<lambda>w. (file_at w, outcomes w)) (op_file_metadata (ho_fs ho) f)"
      "keeps (\<lambda>w. (file_at w, outcomes w)) (op_file_read (ho_fs ho) f k)"
      "keeps (\<lambda>w. (file_at w, outcomes w)) (op_file_lock (ho_fs ho) f)"
      "keeps (\<lambda>w. (file_at w, outcomes w)) (op_get_xattr (ho_fs ho) f n)"
    and process_law: "keeps (\<lambda>w. (file_at w, outcomes w)) (op_random (ho_fs ho) k)"
      "keeps (\<lambda>w. (file_at w, outcomes w)) (op_read_path (ho_fs ho) p)"
    and elsewhere_law: "node d \<noteq> node replay_dir \<Longrightarrow> keeps (\<lambda>w. (file_at w, outcomes w)) (op_new_file (ho_fs ho) d n m)"
      "node d \<noteq> node replay_dir \<Longrightarrow> keeps (\<lambda>w. (file_at w, outcomes w)) (op_remove_file (ho_fs ho) d n)"
    and socket_law: "(\<And>q. path_parent (path_components s) = Some q \<Longrightarrow> \<not> leads_to child root q (node replay_dir)) \<Longrightarrow>
      keeps (\<lambda>w. (file_at w, outcomes w)) (ho_connect ho s) \<and> keeps (\<lambda>w. (file_at w, outcomes w)) (ho_bind ho s) \<and>
      keeps (\<lambda>w. (file_at w, outcomes w)) (ho_set_permissions ho s m)"
    and lose_outcome: "file_at (lose c w) n \<in> outcomes w n"
    and lose_settled: "outcomes (lose c w) n \<subseteq> {file_at (lose c w) n}"
begin

text \<open>Changes after which every record that was held is held, whatever the time.\<close>

definition holds_on :: "'w \<Rightarrow> 'w \<Rightarrow> bool" where
  "holds_on w w' \<longleftrightarrow> (\<forall>now. storage.lasting now w w')"

end

sublocale power_deployment \<subseteq> program: deployed_program ho node root child attr xattr "node replay_dir"
  "\<lambda>w. (file_at w, outcomes w)" holds_on storage.held_expiry lose X version
  for X :: externs and version :: str
proof (intro deployed_program.intro replay_world.intro dir_tree_axioms replay_world_axioms.intro deployed_program_axioms.intro,
    goal_cases)
  case (15 s m)
  then show ?case by (rule socket_law)
next
  case (16 w' w)
  then show ?case by (auto simp: holds_on_def intro!: storage.lasting_same)
next
  case (17 w u w')
  then show ?case by (auto simp: holds_on_def intro: storage.lasting_trans)
next
  case (18 w w' key e)
  then show ?case using storage.held_expiry_lasting [of e w w' key e] by (simp add: holds_on_def)
next
  case (19 sd cap w)
  note dir = same_storage [OF 19]
  note pd = syncing_directory.axioms(1) [OF dir]
  show ?case
    by (rule wp_mono [OF wp_conj [OF wp_all [where P = "\<lambda>now _. storage.lasting now w",
              OF syncing_directory.power_open [OF dir refl]]
            posix_directory.wp_file_replay_store_open [OF pd refl]]])
      (auto simp: holds_on_def)
next
  case (20 store)
  show ?case by (rule syncing_directory.power_server [OF same_storage [OF 20] refl]) simp
next
  case (21 w c)
  have "power_store (ho_fs ho) replay_dir file_at opened created outcomes solid dir_file
      \<lparr>sd_dir = replay_dir, sd_owner_uid = 0\<rparr> lose"
    using lose_outcome lose_settled by (intro power_storeI storage.syncing_directory_axioms) simp_all
  then show ?case using power_store.lasting_lost by (auto simp: holds_on_def)
qed (auto intro: lookup_law file_law process_law elsewhere_law)

context power_deployment
begin

lemmas outage_once = program.verified_once

end

section \<open>A machine with a write-back cache\<close>

text \<open>An outage of the machine: the disk loses what it may lose, and the socket is gone.\<close>

definition machine_lose :: "power_choice \<Rightarrow> pdisk \<times> bool \<Rightarrow> pdisk \<times> bool" where
  "machine_lose c w = (pd_lose c (fst w), False)"

definition machine_dir_file :: "pdisk \<times> bool \<Rightarrow> str list + open_file \<Rightarrow> bool" where
  "machine_dir_file w f \<longleftrightarrow> f = Inr Dir_self"

lemma keeps_pair: "keeps f m \<Longrightarrow> keeps g m \<Longrightarrow> keeps (\<lambda>w. (f w, g w)) m"
  by (simp add: keeps_def wp_def split_beta)

lemma machine_syncing:
  "syncing_directory (machine_fs pd_ops) replay_path (\<lambda>w. pd_file_at (fst w)) (under pd_opened) (under pd_created)
     (\<lambda>w. pd_outcomes (fst w)) (\<lambda>w. pd_solid (fst w)) machine_dir_file"
proof (intro syncing_directory.intro syncing_directory_axioms.intro machine_posix power_dir.posix_directory_axioms, goal_cases)
  case (9 w)
  show ?case
    using power_dir.open_self [of "fst w"]
    by (auto simp: machine_fs_def wp_simps wp_on_disk machine_dir_file_def pd_dir_file_def split: sum.splits elim!: wp_mono)
next
  case (10 n m w)
  show ?case
    using power_dir.new_outcomes [of n m "fst w"]
    by (auto simp: machine_fs_def wp_simps wp_on_disk split: sum.splits elim!: wp_mono)
next
  case (11 w f n bs)
  then show ?case
    using power_dir.write_outcomes [of "fst w" _ n bs]
    by (cases f) (auto simp: machine_fs_def under_def wp_on_disk elim!: wp_mono)
next
  case (12 f w)
  show ?case
    using power_dir.sync_outcomes [of _ "fst w"]
    by (cases f) (auto simp: machine_fs_def under_def wp_on_disk wp_ret machine_dir_file_def pd_dir_file_def elim!: wp_mono)
next
  case (13 a b w)
  show ?case using power_dir.link_outcomes [of a b "fst w"] by (simp add: machine_fs_def wp_on_disk)
next
  case (14 n w)
  show ?case using power_dir.remove_outcomes [of n "fst w"] by (simp add: machine_fs_def wp_on_disk)
qed (auto simp: machine_fs_def intro!: machine_keeps power_dir.quiet_list power_dir.quiet_metadata power_dir.quiet_open
    power_dir.quiet_file power_dir.quiet_random split: sum.split)

lemma power_files:
  "keeps pd_file_at (op_metadata pd_ops () n)" "keeps pd_file_at (op_open_file pd_ops () n)"
  "keeps pd_file_at (op_file_metadata pd_ops f)" "keeps pd_file_at (op_file_read pd_ops f k)"
  "keeps pd_file_at (op_file_lock pd_ops f)" "keeps pd_file_at (op_random pd_ops k)"
  by (auto simp: keeps_def intro: wp_mono [OF power_dir.metadata_law] wp_mono [OF power_dir.open_law]
      wp_mono [OF power_dir.file_metadata_law] wp_mono [OF power_dir.read_law] wp_mono [OF power_dir.lock_law]
      wp_mono [OF power_dir.random_law])

interpretation power_machine: power_deployment "machine pd_ops" id "[]" machine_child machine_attr "\<lambda>_ _. None" replay_path
  "\<lambda>w. pd_file_at (fst w)" "under pd_opened" "under pd_created" "\<lambda>w. pd_outcomes (fst w)" "\<lambda>w. pd_solid (fst w)"
  machine_dir_file machine_lose
proof (intro power_deployment.intro [OF machine_tree] power_deployment_axioms.intro, goal_cases)
  case 1
  show ?case using machine_syncing by (simp add: machine_def)
next
  case (2 d)
  then show ?case using machine_syncing by (simp add: machine_def)
next
  case (17 s m)
  show ?case by (auto simp: machine_def intro!: keeps_pair machine_keeps)
next
  case (18 c w n)
  show ?case by (simp add: machine_lose_def lose_outcome)
next
  case (19 c w n)
  show ?case using lose_settled by (simp add: machine_lose_def)
qed (auto simp: machine_defs intro!: keeps_pair machine_keeps power_dir.quiet_metadata power_dir.quiet_open power_dir.quiet_file
    power_dir.quiet_random power_files split: option.splits sum.splits)

definition running_pdisk :: pdisk where
  "running_pdisk = started_pdisk\<lparr>pd_disk := (pd_disk started_pdisk)\<lparr>dk_random := 16\<rparr>\<rparr>"

definition power_host :: "(str list, str list + open_file) host" where
  "power_host = sample_host\<lparr>h_replay := (h_replay sample_host)\<lparr>fr_instance_lock := Inr (File_handle INSTANCE_LOCK_NAME 2)\<rparr>\<rparr>"

lemma power_main_started:
  "main_start host_X (machine pd_ops) [] sample_args (empty_pdisk, False) = (Started, (running_pdisk, True), Serving power_host)"
  unfolding running_pdisk_def power_host_def sample_host_def started_pdisk_def empty_pdisk_def by code_simp

lemma power_first:
  "\<exists>a b. fst (program_step host_X (machine pd_ops) [] ((running_pdisk, True), Serving power_host)
      (Incoming (Inr (sample_connection 1010)))) = Answered (Some (Sealed a (Verified 1 b))) \<and>
    open_request host_X (h_peers sample_host) [5] = Inr a"
proof (rule running_answered)
  show "reliable_directory (ho_fs (machine pd_ops)) (sd_dir (fr_directory (h_replay power_host))) (\<lambda>w. pd_file_at (fst w))
      (under pd_opened) (under pd_created) (\<lambda>w. disk_healthy 1000 (pd_disk (fst w))) 1000"
    using machine_reliable [OF power_dir.reliable_directory_axioms] by (simp add: machine_def power_host_def sample_host_def)
  have "pd_file_at running_pdisk = pd_file_at started_pdisk"
    by (simp add: running_pdisk_def)
  moreover have "live_records 1010 (pd_file_at started_pdisk) = {}"
    by (auto simp: live_records_def disk_file_at_def started_pdisk_def special_not_record(2) split: if_splits)
  ultimately show "live_records 1010 (pd_file_at (fst (running_pdisk, True))) = {}"
    "tidy (sd_owner_uid (fr_directory (h_replay power_host))) (pd_file_at (fst (running_pdisk, True)))"
    using power_started_tidy by (simp_all add: power_host_def sample_host_def)
  show "disk_healthy 1000 (pd_disk (fst (running_pdisk, True)))"
    by (simp add: running_pdisk_def started_pdisk_def empty_disk_def disk_healthy_def)
qed (simp_all add: power_host_def sample_host_def)

section \<open>Properties\<close>

text \<open>C6. The program answers \<open>Verified\<close> at most once for one proof, power failures included: over any
  history of invocations, kills, connections and outages, with any failure of sockets, files and
  directories, where an outage leaves any outcome for what was not synced. The replay directory keeps
  the POSIX laws and those of \<open>fsync\<close>, other directories are other directories, every serving invocation
  names that replay directory and puts its socket elsewhere, and the clock readings of the store do
  not go back.\<close>

theorem program_survives_power_loss:
  fixes events :: "('s host_event + 'c) list"
  assumes "power_deployment ho node root child attr xattr replay_dir file_at opened created outcomes solid dir_file lose"
    and "\<forall>ev \<in> set events. machine_placed child root (node replay_dir) ev" "sorted (connection_times (program_events events))"
    and "run_ops (outage_step X ho version lose) (w, Absent) events = (rs, s')"
    and "i < length events" "j < length events"
    and "is_verified_reply (outcome_reply (rs ! i))" "is_verified_reply (outcome_reply (rs ! j))"
    and "reply_proof X (outcome_reply (rs ! i)) = reply_proof X (outcome_reply (rs ! j))"
  shows "i = j"
  using power_deployment.outage_once [OF assms] .

theorem program_survives_power_loss_witness:
  "\<exists>a b r2 r3 r4 s'. run_ops (outage_step host_X (machine pd_ops) [] machine_lose) ((empty_pdisk, False), Absent)
       [Inl (Invoked sample_args), Inl (Incoming (Inr (sample_connection 1010))),
        Inr \<lparr>pc_entry = (\<lambda>_. 1), pc_content = (\<lambda>_. []), pc_faults = []\<rparr>, Inl (Invoked sample_args),
        Inl (Incoming (Inr (sample_connection 1300)))] =
       ([Started, Answered (Some (Sealed a (Verified 1 b))), r2, r3, r4], s') \<and>
     \<not> is_verified_reply (outcome_reply r4)"
proof -
  let ?step = "outage_step host_X (machine pd_ops) [] machine_lose :: _ \<Rightarrow> pipe host_event + power_choice \<Rightarrow> _"
  let ?outage = "\<lparr>pc_entry = (\<lambda>_. 1), pc_content = (\<lambda>_. []), pc_faults = []\<rparr>"
  let ?events = "[Inl (Invoked sample_args), Inl (Incoming (Inr (sample_connection 1010))), Inr ?outage,
    Inl (Invoked sample_args), Inl (Incoming (Inr (sample_connection 1300)))]"
  obtain a b s1 where first: "?step ((running_pdisk, True), Serving power_host) (Inl (Incoming (Inr (sample_connection 1010)))) =
      (Answered (Some (Sealed a (Verified 1 b))), s1)" and a: "open_request host_X (h_peers sample_host) [5] = Inr a"
    using power_first by (metis outage_step.simps(1) prod.collapse)
  obtain r2 s2 where r2: "?step s1 (Inr ?outage) = (r2, s2)" by (meson surj_pair)
  obtain r3 s3 where r3: "?step s2 (Inl (Invoked sample_args)) = (r3, s3)" by (meson surj_pair)
  obtain r4 s4 where r4: "?step s3 (Inl (Incoming (Inr (sample_connection 1300)))) = (r4, s4)" by (meson surj_pair)
  have start: "?step ((empty_pdisk, False), Absent) (Inl (Invoked sample_args)) = (Started, (running_pdisk, True), Serving power_host)"
    using power_main_started by simp
  have run: "run_ops ?step ((empty_pdisk, False), Absent) ?events =
      ([Started, Answered (Some (Sealed a (Verified 1 b))), r2, r3, r4], s4)"
    by (simp only: run_ops.simps start first r2 r3 r4 case_prod_conv)
  have False if verified: "is_verified_reply (outcome_reply r4)"
  proof -
    from r4 have "program_step host_X (machine pd_ops) [] s3 (Incoming (Inr (sample_connection 1300))) = (r4, s4)" by simp
    from sample_reply_proof [OF this verified a]
    have "reply_proof host_X (outcome_reply (Answered (Some (Sealed a (Verified 1 b))))) = reply_proof host_X (outcome_reply r4)"
      by simp
    then have "(1 :: nat) = 4"
      using program_survives_power_loss [OF power_machine.power_deployment_axioms _ _ run, of 1 4] sample_placed verified
      by (simp add: machine_placed_def event_placed_def connection_times_def program_events_def sample_connection_def)
    then show False by simp
  qed
  with run show ?thesis by blast
qed

end
