(* ===== verification/Redaction.thy ===== *)
theory Redaction
  imports Mcp Http_Target Observe Conformance
begin

text \<open>
  What the crates print: the hand-written \<open>Debug\<close> and \<open>Display\<close> implementations, which keep credentials,
  keys and request data out of logs. The texts are those of \<open>{:?}\<close> and \<open>{}\<close>; an implementation that
  writes a fixed text ignores its value, the others show exactly what \<open>debug_texts_reveal_only\<close> says.
\<close>

section \<open>Formatting\<close>

text \<open>\<open>Formatter::debug_struct\<close> with its fields, which are not pretty-printed.\<close>

fun debug_fields :: "(str \<times> str) list \<Rightarrow> str" where
  "debug_fields [] = []"
| "debug_fields [(n, v)] = n @ '': '' @ v"
| "debug_fields ((n, v) # f # fs) = n @ '': '' @ v @ '', '' @ debug_fields (f # fs)"

definition debug_struct :: "str \<Rightarrow> (str \<times> str) list \<Rightarrow> str" where
  "debug_struct name fs = name @ '' { '' @ debug_fields fs @ '' }''"

text \<open>\<open>Debug\<close> of a text without quotes, backslashes and control characters.\<close>

definition quoted :: "str \<Rightarrow> str" where
  "quoted s = CHR 0x22 # s @ [CHR 0x22]"

definition redacted_option :: "'a option \<Rightarrow> str" where
  "redacted_option x = (case x of None \<Rightarrow> ''None'' | Some _ \<Rightarrow> ''Some('' @ quoted ''[redacted]'' @ '')'')"

section \<open>keylix-core\<close>

definition thumbprint_debug :: "JwkThumbprint \<Rightarrow> str" where
  "thumbprint_debug _ = ''JwkThumbprint([redacted])''"

definition jwk_debug :: "PublicP256Jwk \<Rightarrow> str" where
  "jwk_debug _ = debug_struct ''PublicP256Jwk''
     [(''kty'', quoted ''EC''), (''crv'', quoted ''P-256''), (''coordinates'', quoted ''[redacted public key coordinates]'')]"

fun jwk_error_display :: "JwkError \<Rightarrow> str" where
  "jwk_error_display InvalidJson = ''invalid JWK JSON''"
| "jwk_error_display UnsupportedKeyType = ''unsupported JWK key type''"
| "jwk_error_display UnsupportedCurve = ''unsupported JWK curve''"
| "jwk_error_display PrivateKeyMaterial = ''private key material is not permitted in a public JWK''"
| "jwk_error_display (InvalidCoordinateEncoding coordinate) = ''invalid base64url encoding for JWK coordinate '' @ coordinate"
| "jwk_error_display (InvalidCoordinateLength coordinate) = ''invalid byte length for JWK coordinate '' @ coordinate"
| "jwk_error_display InvalidPublicPoint = ''invalid P-256 public key point''"

section \<open>keylix-dpop\<close>

definition proof_id_debug :: "ProofId \<Rightarrow> str" where
  "proof_id_debug _ = ''ProofId([redacted])''"

definition nonce_debug :: "DpopNonce \<Rightarrow> str" where
  "nonce_debug _ = ''DpopNonce([redacted])''"

definition replay_key_debug :: "ReplayKey \<Rightarrow> str" where
  "replay_key_debug _ = ''ReplayKey([redacted])''"

text \<open>The signer is its key pair, which the model does not hold.\<close>

definition signer_debug :: str where
  "signer_debug = ''AwsLcP256Signer([private signing capability])''"

definition port_error_display :: "DpopPortError \<Rightarrow> str" where
  "port_error_display _ = ''DPoP dependency failure''"

definition target_debug :: "EffectiveRequestTarget \<Rightarrow> str" where
  "target_debug _ = ''EffectiveRequestTarget([redacted])''"

text \<open>The method of a \<open>DpopRequest\<close> is an HTTP token, so that its \<open>Debug\<close> needs no escapes.\<close>

definition dpop_request_debug :: "DpopRequest \<Rightarrow> str" where
  "dpop_request_debug r = debug_struct ''DpopRequest''
     [(''method'', quoted (req_method r)), (''target'', quoted ''[redacted]''),
      (''has_access_token'', bool_debug (req_access_token r \<noteq> None)), (''has_nonce'', bool_debug (req_nonce r \<noteq> None))]"

definition dpop_proof_debug :: "DpopProof \<Rightarrow> str" where
  "dpop_proof_debug _ = ''DpopProof([redacted])''"

definition unverified_proof_debug :: "UnverifiedDpopProof \<Rightarrow> str" where
  "unverified_proof_debug _ = ''UnverifiedDpopProof([redacted])''"

definition verified_proof_debug :: "VerifiedDpopProof \<Rightarrow> str" where
  "verified_proof_debug v = debug_struct ''VerifiedDpopProof''
     [(''algorithm'', quoted ''ES256''), (''key_thumbprint'', quoted ''[redacted]''),
      (''issued_at_unix'', fmt_i64 (vp_issued_at_unix v)), (''nonce_enforced'', bool_debug (vp_nonce_enforced v)),
      (''replay_checked'', bool_debug (vp_replay_checked v)),
      (''access_token_hash_verified'', bool_debug (vp_access_token_hash_verified v))]"

text \<open>The derived \<open>Debug\<close> of the metadata, and the stores that show it.\<close>

definition metadata_debug :: "StateStoreMetadata \<Rightarrow> str" where
  "metadata_debug m = debug_struct ''StateStoreMetadata''
     [(''topology'', case md_topology m of SingleProcess \<Rightarrow> ''SingleProcess''),
      (''consistency'', case md_consistency m of ProcessLocalAtomic \<Rightarrow> ''ProcessLocalAtomic''),
      (''capacity'', nat_to_string (md_capacity m))]"

definition replay_store_debug :: "InMemoryReplayStore \<Rightarrow> str" where
  "replay_store_debug st = debug_struct ''InMemoryReplayStore''
     [(''metadata'', metadata_debug (store_metadata (rs_capacity st))), (''entries'', quoted ''[redacted replay state]'')]"

fun namespace_debug :: "NonceNamespace \<Rightarrow> str" where
  "namespace_debug AuthorizationServer = ''AuthorizationServer''"
| "namespace_debug ResourceServer = ''ResourceServer''"

definition nonce_context_debug :: "NonceContext \<Rightarrow> str" where
  "nonce_context_debug c = debug_struct ''NonceContext''
     [(''namespace'', namespace_debug (nc_namespace c)), (''server_id'', quoted ''[redacted]'')]"

definition client_nonce_store_debug :: "InMemoryNonceStore \<Rightarrow> str" where
  "client_nonce_store_debug st = debug_struct ''InMemoryClientNonceStore''
     [(''metadata'', metadata_debug (client_nonce_metadata st)), (''entries'', quoted ''[redacted nonce state]'')]"

definition server_nonce_store_debug :: "InMemoryNonceStore \<Rightarrow> str" where
  "server_nonce_store_debug st = debug_struct ''InMemoryServerNonceStore''
     [(''metadata'', metadata_debug (server_nonce_metadata st)), (''entries'', quoted ''[redacted nonce state]'')]"

section \<open>keylix-oauth\<close>

definition fingerprint_debug :: "TokenFingerprint \<Rightarrow> str" where
  "fingerprint_debug _ = ''TokenFingerprint([redacted])''"

definition host_token_debug :: "HostValidatedToken \<Rightarrow> str" where
  "host_token_debug h = debug_struct ''HostValidatedToken''
     [(''source'', source_debug (hv_source h)), (''fingerprint'', quoted ''[redacted]''),
      (''confirmation'', redacted_option (hv_confirmation h))]"

definition sender_binding_debug :: "VerifiedSenderBinding \<Rightarrow> str" where
  "sender_binding_debug b = debug_struct ''VerifiedSenderBinding''
     [(''mechanism'', quoted ''DPoP''), (''validation_source'', source_debug (sb_source b)),
      (''key_thumbprint'', quoted ''[redacted]''), (''proof_issued_at_unix'', fmt_i64 (sb_proof_issued_at_unix b)),
      (''nonce_enforced'', bool_debug (sb_nonce_enforced b)), (''replay_checked'', bool_debug (sb_replay_checked b))]"

definition access_token_debug :: "BoundAccessToken \<Rightarrow> str" where
  "access_token_debug _ = debug_struct ''BoundAccessToken''
     [(''value'', quoted ''[redacted]''), (''proof_key'', quoted ''[redacted]'')]"

definition refresh_token_debug :: "BoundRefreshToken \<Rightarrow> str" where
  "refresh_token_debug _ = debug_struct ''BoundRefreshToken''
     [(''value'', quoted ''[redacted]''), (''proof_key'', quoted ''[redacted]'')]"

definition token_set_debug :: "BoundTokenSet \<Rightarrow> str" where
  "token_set_debug s = debug_struct ''BoundTokenSet''
     [(''access_token'', quoted ''[redacted]''), (''refresh_token'', redacted_option (ts_refresh_token s))]"

definition token_endpoint_debug :: "TokenEndpointDpop \<Rightarrow> str" where
  "token_endpoint_debug _ = ''TokenEndpointDpop([redacted proof])''"

definition authorization_debug :: "ProtectedResourceAuthorization \<Rightarrow> str" where
  "authorization_debug _ = ''ProtectedResourceAuthorization([redacted credentials])''"

definition required_client_debug :: "DpopRequiredClient \<Rightarrow> str" where
  "required_client_debug _ = ''DpopRequiredClient([credential capabilities redacted])''"

definition retry_budget_debug :: "NonceRetryBudget \<Rightarrow> str" where
  "retry_budget_debug b = debug_struct ''NonceRetryBudget'' [(''remaining'', nat_to_string (unat (budget_remaining b)))]"

fun oauth_error_display :: "OAuthDpopError \<Rightarrow> str" where
  "oauth_error_display TokenTypeNotDpop = ''DPoP token type required''"
| "oauth_error_display TokenIdentityMismatch = ''validated token identity mismatch''"
| "oauth_error_display TokenBindingMissing = ''validated token is not DPoP-bound''"
| "oauth_error_display TokenBindingMalformed = ''validated token binding is malformed''"
| "oauth_error_display TokenBindingMismatch = ''validated token binding does not match proof key''"
| "oauth_error_display ProofNotAccessTokenBound = ''DPoP proof was not verified against access token''"
| "oauth_error_display TokenInactive = ''validated token is inactive''"
| "oauth_error_display ProofKeyContinuityMismatch = ''DPoP proof-key continuity mismatch''"
| "oauth_error_display NonceContextMismatch = ''OAuth DPoP nonce context mismatch''"
| "oauth_error_display NonceStateUnavailable = ''OAuth DPoP nonce state unavailable''"
| "oauth_error_display NonceRetryLimitExceeded = ''OAuth DPoP nonce retry limit exceeded''"
| "oauth_error_display InvalidCredential = ''invalid OAuth credential value''"
| "oauth_error_display (Dpop error_value) = dpop_error_display error_value"

section \<open>keylix-http\<close>

definition forwarding_headers_debug :: "ForwardingHeaders \<Rightarrow> str" where
  "forwarding_headers_debug h = debug_struct ''ForwardingHeaders''
     [(''has_forwarded'', bool_debug (fh_forwarded h \<noteq> None)),
      (''has_x_forwarded_proto'', bool_debug (fh_x_forwarded_proto h \<noteq> None)),
      (''has_x_forwarded_host'', bool_debug (fh_x_forwarded_host h \<noteq> None))]"

fun http_error_display :: "HttpTargetError \<Rightarrow> str" where
  "http_error_display UntrustedProxy = ''immediate peer is not a trusted proxy''"
| "http_error_display MissingForwardingMetadata = ''required forwarding metadata is missing''"
| "http_error_display AmbiguousForwardingMetadata = ''forwarding metadata is ambiguous''"
| "http_error_display InvalidForwardingMetadata = ''forwarding metadata is invalid''"
| "http_error_display InvalidRequestTarget_http = ''trusted request target is invalid''"

fun family_debug :: "ProxyHeaderFamily \<Rightarrow> str" where
  "family_debug Forwarded = ''Forwarded''"
| "family_debug XForwarded = ''XForwarded''"

text \<open>A resolver is its family and the host's trust decision, which is not shown.\<close>

definition resolver_debug :: "ProxyHeaderFamily \<Rightarrow> str" where
  "resolver_debug family = debug_struct ''TrustedProxyTargetResolver''
     [(''family'', family_debug family), (''trust'', quoted ''[host policy]'')]"

section \<open>keylix-mcp\<close>

fun mcp_error_display :: "McpDpopError \<Rightarrow> str" where
  "mcp_error_display McpDpopError.UnsupportedProfile = ''unsupported MCP DPoP profile''"
| "mcp_error_display (OAuth _) = ''MCP DPoP authorization failed''"
| "mcp_error_display ExistingAuthorization = ''pre-existing authorization value rejected''"
| "mcp_error_display ExistingDpopHeader = ''pre-existing DPoP header rejected''"
| "mcp_error_display InvalidHeaderValue = ''invalid generated MCP DPoP header value''"

text \<open>\<open>Error::source\<close>.\<close>

fun mcp_error_source :: "McpDpopError \<Rightarrow> OAuthDpopError option" where
  "mcp_error_source (OAuth error_value) = Some error_value"
| "mcp_error_source _ = None"

definition mcp_client_debug :: "McpDpopClient \<Rightarrow> str" where
  "mcp_client_debug _ = ''McpDpopClient([credential capabilities redacted])''"

definition mcp_authorization_debug :: "McpHttpAuthorization \<Rightarrow> str" where
  "mcp_authorization_debug _ = ''McpHttpAuthorization([redacted credentials])''"

fun http_client_error_debug :: "'e DpopStreamableHttpClientError \<Rightarrow> str" where
  "http_client_error_debug (Keylix _) = ''DpopStreamableHttpClientError::Keylix([redacted])''"
| "http_client_error_debug (Inner _) = ''DpopStreamableHttpClientError::Inner([redacted])''"

fun http_client_error_display :: "'e DpopStreamableHttpClientError \<Rightarrow> str" where
  "http_client_error_display (Keylix _) = ''Keylix MCP DPoP HTTP decoration failed''"
| "http_client_error_display (Inner _) = ''wrapped MCP HTTP client failed''"

fun http_client_error_source :: "'e DpopStreamableHttpClientError \<Rightarrow> McpDpopError + 'e" where
  "http_client_error_source (Keylix error_value) = Inl error_value"
| "http_client_error_source (Inner error_value) = Inr error_value"

text \<open>The method of an \<open>McpHttpRequest\<close> may be any text; \<open>str_debug\<close> is \<open>Debug\<close> of \<open>str\<close>.\<close>

definition mcp_request_debug :: "(str \<Rightarrow> str) \<Rightarrow> McpHttpRequest \<Rightarrow> str" where
  "mcp_request_debug str_debug r = debug_struct ''McpHttpRequest''
     [(''method'', str_debug (mr_method r)), (''target'', target_debug (mr_target r)),
      (''access_token'', quoted ''[redacted]''), (''dpop_header_values'', quoted ''[redacted]''),
      (''nonce'', redacted_option (mr_nonce r))]"

fun server_error_display :: "McpDpopServerError \<Rightarrow> str" where
  "server_error_display (Proof _) = ''MCP DPoP proof verification failed''"
| "server_error_display (SenderBinding _) = ''MCP OAuth sender binding failed''"

text \<open>\<open>Error::source\<close>, by its \<open>Display\<close> text.\<close>

fun server_error_source :: "McpDpopServerError \<Rightarrow> str option" where
  "server_error_source (Proof error_value) = Some (dpop_error_display error_value)"
| "server_error_source (SenderBinding error_value) = Some (oauth_error_display error_value)"

text \<open>The server and the wrapped HTTP client hold capabilities only.\<close>

definition mcp_server_debug :: str where
  "mcp_server_debug = ''McpDpopServer([verification capabilities])''"

definition http_client_debug :: str where
  "http_client_debug = ''DpopStreamableHttpClient([credential capabilities redacted])''"

section \<open>keylix-observe\<close>

fun evidence_error_display :: "EvidenceError \<Rightarrow> str" where
  "evidence_error_display InvalidVerificationTime = ''invalid evidence verification time''"

section \<open>What the texts determine\<close>

text \<open>Two texts that go on after a separator that neither has.\<close>

lemma append_sep_eq:
  assumes "c \<notin> set a" "c \<notin> set b"
  shows "a @ c # x = b @ c # y \<longleftrightarrow> a = b \<and> x = y"
  using assms
proof (induction a arbitrary: b)
  case Nil
  then show ?case by (cases b) auto
next
  case (Cons d a)
  then show ?case by (cases b) auto
qed

lemma nat_to_string_eq: "nat_to_string m = nat_to_string n \<longleftrightarrow> m = n"
proof
  assume "nat_to_string m = nat_to_string n"
  then have "digits_value 10 (nat_to_string m) = digits_value 10 (nat_to_string n)" by simp
  then show "m = n" by (simp add: digits_value_fmt)
qed simp

lemma nat_to_string_chars: "CHR '','' \<notin> set (nat_to_string n)" "CHR ''-'' \<notin> set (nat_to_string n)"
  "CHR '' '' \<notin> set (nat_to_string n)"
proof -
  have "\<not> is_digit_of 10 (CHR '','')" "\<not> is_digit_of 10 (CHR ''-'')" "\<not> is_digit_of 10 (CHR '' '')" by code_simp+
  then show "CHR '','' \<notin> set (nat_to_string n)" "CHR ''-'' \<notin> set (nat_to_string n)" "CHR '' '' \<notin> set (nat_to_string n)"
    using fmt_radix_digits [of 10] by auto
qed

lemma fmt_i64_eq: "fmt_i64 m = fmt_i64 n \<longleftrightarrow> m = n"
proof -
  have "CHR ''-'' # xs \<noteq> nat_to_string k" for xs k
    using nat_to_string_chars(2) [of k] by (metis list.set_intros(1))
  from this this [symmetric] show ?thesis by (auto simp: fmt_i64_def nat_to_string_eq)
qed

lemma fmt_i64_no_comma: "CHR '','' \<notin> set (fmt_i64 n)"
  using nat_to_string_chars by (auto simp: fmt_i64_def)

lemma bool_debug_eq: "bool_debug b = bool_debug c \<longleftrightarrow> b = c"
  by (simp add: bool_debug_def)

lemma bool_debug_no_comma: "CHR '','' \<notin> set (bool_debug b)"
  by (simp add: bool_debug_def)

lemma source_debug_eq: "source_debug s = source_debug t \<longleftrightarrow> s = t"
  by (cases s; cases t) simp_all

lemma source_debug_no_comma: "CHR '','' \<notin> set (source_debug s)"
  by (cases s) simp_all

lemma namespace_debug_eq: "namespace_debug s = namespace_debug t \<longleftrightarrow> s = t"
  by (cases s; cases t) simp_all

lemma namespace_debug_no_comma: "CHR '','' \<notin> set (namespace_debug s)"
  by (cases s) simp_all

lemma redacted_option_eq: "redacted_option x = redacted_option y \<longleftrightarrow> (x = None \<longleftrightarrow> y = None)"
  by (simp add: redacted_option_def split: option.splits)

lemmas debug_eqs = debug_struct_def quoted_def append_sep_eq fmt_i64_eq fmt_i64_no_comma bool_debug_eq bool_debug_no_comma
  source_debug_eq source_debug_no_comma namespace_debug_eq namespace_debug_no_comma redacted_option_eq

lemma verified_proof_debug_eq:
  "verified_proof_debug v = verified_proof_debug v' \<longleftrightarrow>
     v'\<lparr>vp_key_thumbprint := vp_key_thumbprint v\<rparr> = v"
  by (cases v; cases v') (auto simp: verified_proof_debug_def debug_eqs)

lemma sender_binding_debug_eq:
  "sender_binding_debug b = sender_binding_debug b' \<longleftrightarrow> b'\<lparr>sb_key_thumbprint := sb_key_thumbprint b\<rparr> = b"
  by (cases b; cases b') (auto simp: sender_binding_debug_def debug_eqs)

lemma host_token_debug_eq:
  "host_token_debug h = host_token_debug h' \<longleftrightarrow>
     hv_source h = hv_source h' \<and> (hv_confirmation h = None \<longleftrightarrow> hv_confirmation h' = None)"
  by (simp add: host_token_debug_def debug_eqs)

lemma store_debug_eq:
  "replay_store_debug r = replay_store_debug r' \<longleftrightarrow> rs_capacity r = rs_capacity r'"
  "client_nonce_store_debug n = client_nonce_store_debug n' \<longleftrightarrow> ns_capacity n = ns_capacity n'"
  "server_nonce_store_debug n = server_nonce_store_debug n' \<longleftrightarrow> ns_capacity n = ns_capacity n'"
  by (simp_all add: replay_store_debug_def client_nonce_store_debug_def server_nonce_store_debug_def metadata_debug_def
      store_metadata_def client_nonce_metadata_def server_nonce_metadata_def nat_to_string_eq debug_eqs)

lemma method_no_quote: "validate_method m = Inr () \<Longrightarrow> CHR 0x22 \<notin> set m"
proof
  assume m: "validate_method m = Inr ()" "CHR 0x22 \<in> set m"
  have "\<not> is_http_token_byte (byte_of (CHR 0x22))" by code_simp
  then show False using m by (auto simp: validate_method_def list_all_iff as_bytes_def split: if_splits)
qed

lemma dpop_request_debug_eq:
  assumes "validate_method (req_method r) = Inr ()" "validate_method (req_method r') = Inr ()"
  shows "dpop_request_debug r = dpop_request_debug r' \<longleftrightarrow>
    req_method r = req_method r' \<and> (req_access_token r = None \<longleftrightarrow> req_access_token r' = None) \<and>
    (req_nonce r = None \<longleftrightarrow> req_nonce r' = None)"
  using method_no_quote [OF assms(1)] method_no_quote [OF assms(2)]
  by (simp add: dpop_request_debug_def debug_eqs) auto

text \<open>C39. Logs show what they should and nothing else. The \<open>Debug\<close> text of a verified proof or of a sender
  binding determines everything but the key; that of a host-validated token its source and whether it
  has a confirmation; that of a request its method and whether it has a token and a nonce; that of a
  token set whether it has a refresh token; that of a nonce context its namespace; those of the stores
  their capacity; that of forwarding headers which are present. No token, key, nonce, target, server
  identifier, header value or recorded entry has any influence on a text.\<close>

theorem debug_texts_reveal_only:
  assumes "validate_method (req_method r) = Inr ()" "validate_method (req_method r') = Inr ()"
  shows "(verified_proof_debug v = verified_proof_debug v' \<longleftrightarrow> v'\<lparr>vp_key_thumbprint := vp_key_thumbprint v\<rparr> = v) \<and>
    (sender_binding_debug b = sender_binding_debug b' \<longleftrightarrow> b'\<lparr>sb_key_thumbprint := sb_key_thumbprint b\<rparr> = b) \<and>
    (host_token_debug h = host_token_debug h' \<longleftrightarrow>
      hv_source h = hv_source h' \<and> (hv_confirmation h = None \<longleftrightarrow> hv_confirmation h' = None)) \<and>
    (dpop_request_debug r = dpop_request_debug r' \<longleftrightarrow>
      req_method r = req_method r' \<and> (req_access_token r = None \<longleftrightarrow> req_access_token r' = None) \<and>
      (req_nonce r = None \<longleftrightarrow> req_nonce r' = None)) \<and>
    (token_set_debug s = token_set_debug s' \<longleftrightarrow> (ts_refresh_token s = None \<longleftrightarrow> ts_refresh_token s' = None)) \<and>
    (nonce_context_debug c = nonce_context_debug c' \<longleftrightarrow> nc_namespace c = nc_namespace c') \<and>
    (replay_store_debug rs = replay_store_debug rs' \<longleftrightarrow> rs_capacity rs = rs_capacity rs') \<and>
    (client_nonce_store_debug ns = client_nonce_store_debug ns' \<longleftrightarrow> ns_capacity ns = ns_capacity ns') \<and>
    (server_nonce_store_debug ns = server_nonce_store_debug ns' \<longleftrightarrow> ns_capacity ns = ns_capacity ns') \<and>
    (forwarding_headers_debug fh = forwarding_headers_debug fh' \<longleftrightarrow>
      (fh_forwarded fh = None \<longleftrightarrow> fh_forwarded fh' = None) \<and>
      (fh_x_forwarded_proto fh = None \<longleftrightarrow> fh_x_forwarded_proto fh' = None) \<and>
      (fh_x_forwarded_host fh = None \<longleftrightarrow> fh_x_forwarded_host fh' = None))"
proof (intro conjI)
  show "forwarding_headers_debug fh = forwarding_headers_debug fh' \<longleftrightarrow>
      (fh_forwarded fh = None \<longleftrightarrow> fh_forwarded fh' = None) \<and>
      (fh_x_forwarded_proto fh = None \<longleftrightarrow> fh_x_forwarded_proto fh' = None) \<and>
      (fh_x_forwarded_host fh = None \<longleftrightarrow> fh_x_forwarded_host fh' = None)"
    by (simp add: forwarding_headers_debug_def debug_eqs) auto
qed (simp_all only: verified_proof_debug_eq sender_binding_debug_eq host_token_debug_eq dpop_request_debug_eq [OF assms]
    store_debug_eq, simp_all add: token_set_debug_def nonce_context_debug_def debug_eqs)

theorem debug_texts_reveal_only_witness:
  "dpop_request_debug sample_request = dpop_request_debug (sample_request\<lparr>req_access_token := Some [9], req_target := EffectiveRequestTarget ''http://c/d''\<rparr>) \<and>
   dpop_request_debug sample_request \<noteq> dpop_request_debug (sample_request\<lparr>req_nonce := None\<rparr>)"
proof -
  have "validate_method (req_method sample_request) = Inr ()" by code_simp
  then show ?thesis
    using debug_texts_reveal_only [of sample_request "sample_request\<lparr>req_access_token := Some [9], req_target := EffectiveRequestTarget ''http://c/d''\<rparr>"]
      debug_texts_reveal_only [of sample_request "sample_request\<lparr>req_nonce := None\<rparr>"]
    by (simp add: sample_request_def)
qed

end
