(* ===== verification/Spec2Isabelle.thy ===== *)
theory Spec2Isabelle
  imports Mcp Http_Target Observe Conformance Replay_Mutex Host_Power Redaction
begin

text \<open>
  \<^bold>\<open>Keylix: a verification of the DPoP sender-binding stack.\<close>

  Keylix binds OAuth access tokens to a key held by the sender (RFC 9449, DPoP). A client signs, for
  every request, a short-lived proof over method, target, token hash and nonce; a server checks the
  proof, refuses replays, and compares the proof key with the key the token is bound to. The
  repository is a set of Rust crates, and this development follows them file by file.

  \<^bold>\<open>Parts of the program and where they are modelled\<close> (paths under \<open>src/crates/\<close>).

  \<^item> Rust and its standard library: \<open>Rust_Prelude\<close> (the \<open>?\<close> operator on sums, strings as bytes, ASCII
    classes, association maps for \<open>HashMap\<close>), \<open>Rust_Numbers\<close> (number texts, IPv6 addresses, \<open>i64\<close>
    arithmetic), \<open>Rust_Io\<close> (computations that change the world and may fail, with a weakest
    precondition calculus; paths, lines, UTF-8).
  \<^item> Third-party code: \<open>Externs\<close> is the record of functions the crates call (SHA-256, base64url, JSON
    parser and printer, P-256, HMAC), an argument \<open>X\<close> of everything that uses them, with their laws
    as predicates; \<open>Extern_Model\<close> is an executable instance that satisfies the laws.
  \<^item> \<open>keylix-core\<close> (\<open>jwk.rs\<close>, \<open>thumbprint.rs\<close>): \<open>Core_Jwk\<close>.
  \<^item> \<open>keylix-dpop\<close>: \<open>Dpop_Ports\<close> (\<open>error.rs\<close>, \<open>ports.rs\<close>), \<open>Dpop_Request\<close> (\<open>request.rs\<close>: the URI normalizer),
    \<open>Dpop_Proof\<close> (\<open>proof.rs\<close>: building, parsing, verifying), \<open>Dpop_State\<close> (\<open>state.rs\<close>: replay and nonce
    stores).
  \<^item> \<open>keylix-oauth\<close>: \<open>OAuth_Binding\<close> (\<open>binding.rs\<close>) and \<open>OAuth_Client\<close> (\<open>client.rs\<close>, \<open>retry.rs\<close>).
  \<^item> \<open>keylix-http\<close> (\<open>lib.rs\<close>): \<open>Http_Target\<close>. \<open>keylix-mcp\<close> (\<open>lib.rs\<close>, \<open>server.rs\<close>): \<open>Mcp\<close>.
    \<open>keylix-observe\<close> (\<open>lib.rs\<close>): \<open>Observe\<close>. \<open>keylix-conformance\<close> (\<open>ai_adversary.rs\<close> and its program):
    \<open>Conformance\<close>. The \<open>Debug\<close> and \<open>Display\<close> texts of all crates: \<open>Redaction\<close>.
  \<^item> \<open>keylix-verifier\<close>: \<open>Verifier_App\<close> and \<open>Verifier_Ipc\<close> (\<open>lib.rs\<close>: application service, authenticated
    frames), \<open>Secure_Fs\<close> and \<open>Secure_Paths\<close> (\<open>secure_fs.rs\<close>), \<open>Replay_File\<close>, \<open>Replay_Progress\<close> and
    \<open>Disk_Model\<close> (\<open>replay.rs\<close>), \<open>Replay_Spec\<close> (a specification of \<open>ReplayStore\<close> and its two
    implementations), \<open>Concurrent_Replay\<close> and \<open>Replay_Mutex\<close> (both stores under interleaved threads),
    \<open>Power_Loss\<close> and \<open>Power_Disk\<close> (the store on disk under power failures), \<open>Host_Framing\<close>,
    \<open>Verifier_Host\<close>, \<open>Host_Main\<close> (\<open>main.rs\<close>: frames, connections and start, the program over its
    invocations) and \<open>Host_Power\<close> (the program under power failures).

  \<^bold>\<open>How state and operations correspond.\<close> A struct is a record with a field prefix, an enum a datatype,
  a method a definition with the source's name (suffixed where it would clash). A store operation
  takes the store and returns result and store; since every in-memory operation runs under its mutex,
  a call is one step, and a poisoned lock is a flag of the state. \<open>Concurrent_Replay\<close> cuts
  \<open>check_and_record\<close> into its steps before and under the lock (\<open>memory_thread\<close>, \<open>file_thread\<close>) and lets any
  number of calls interleave while the clock moves; \<open>Replay_Mutex\<close> cuts the section under the lock of the
  in-memory store once more, into its statements and the mutex itself (\<open>mutex_step\<close>), and shows that it may be
  taken as one step. Values a call takes from outside
  (clock readings, random bytes, signatures, the trust decision for a proxy, the wrapped HTTP client)
  are arguments. File system and socket code is written over records of system calls (\<open>fs_ops\<close>,
  \<open>sock_ops\<close>, \<open>host_ops\<close>) on an arbitrary world, in the order in which the source makes the calls, with
  every error branch. Errors are the left side of a sum. Bytes are \<open>8 word\<close>, file modes and ids
  \<open>32 word\<close>; \<open>i64\<close> values are integers with the checked additions of the source written out;
  \<open>usize\<close> counts of held records are natural numbers.

  \<^bold>\<open>Interfaces\<close> (locales) and their interpretations.

  \<^item> \<open>one_shot\<close> (\<open>One_Shot\<close>): a step function that records what it accepts accepts a record once, along
    any run with non-decreasing times. \<open>replay_store\<close> (the contract of \<open>ReplayStore\<close>) and
    \<open>verifying_server\<close> are sublocales of it, and \<open>dpop_adapter\<close> (\<open>Dpop_Adapter\<close>) carries it to any
    component in front of the verifier: interpreted for the in-memory store, the MCP server, the
    verifier application.
  \<^item> \<open>posix_directory\<close> (\<open>Replay_File\<close>): the laws of \<open>openat\<close>, \<open>linkat\<close>, \<open>unlinkat\<close> and file reads and writes
    on one directory, where any call may fail with or without having taken effect;
    \<open>durable_store\<close> adds restarts, \<open>reliable_directory\<close> (\<open>Replay_Progress\<close>) calls that succeed. All are
    interpreted on an inode-level disk with injected faults (\<open>Disk_Model\<close>).
  \<^item> \<open>syncing_directory\<close> (\<open>Power_Loss\<close>): a \<open>posix_directory\<close> with the laws of \<open>fsync\<close>, over the files that each
    name may have after a power failure; \<open>power_store\<close> adds the failures themselves and is \<open>one_shot\<close> for
    the records that a failure cannot take away. Interpreted on the disk with a write-back cache
    (\<open>Power_Disk\<close>).
  \<^item> \<open>refines_replay_spec\<close> (\<open>Replay_Spec\<close>): an implementation whose steps are those of the specification
    of a replay store gives its answers along any run; interpreted for both stores.
  \<^item> \<open>dir_tree\<close> (\<open>Secure_Paths\<close>): descriptor-relative opening over a tree of directories.
    \<open>byte_sink\<close> and \<open>byte_source\<close> (\<open>Host_Framing\<close>): a stream that appends what was written, and one that
    delivers what is pending in pieces; both interpreted on a pipe. \<open>client_nonce_store\<close>
    (\<open>Dpop_State\<close>): the contract of the nonce store.
  \<^item> \<open>replay_world\<close> (\<open>Host_Main\<close>): a \<open>dir_tree\<close> with a part that holds the replay records, which calls
    elsewhere leave alone; \<open>deployed_program\<close> shows there, once, that the program is \<open>one_shot\<close> over all
    its lives and outages. \<open>deployment\<close> (\<open>Host_Main\<close>: the records are in a \<open>posix_directory\<close>) and
    \<open>power_deployment\<close> (\<open>Host_Power\<close>: in a \<open>syncing_directory\<close>) are sublocales of it, and one machine, a
    tree over either disk, keeps the laws of both.

  \<^bold>\<open>What the lemmas show.\<close> Verification accepts exactly what RFC 9449 asks for, and an accepted proof
  is bound to its text, key, token and request. A proof is accepted at most once: by the in-memory
  store, by the store on disk across crashes, restarts and power failures, by the whole program over any
  history of invocations, kills, connections and power failures. Both stores stay within their capacity,
  never lose a live record and implement one specification; no power failure tears a record file; over a working disk
  the program answers every valid request. Interleaved calls of the in-memory store, one statement at a
  time, are linearizable with respect to that specification and accept a key once while its expiry is not past; because that store reads its clock before it
  locks, a race at the expiry second accepts it again, which the store on disk excludes. URI
  normalization is idempotent and equals its specification; the accepted key documents are described exactly. The authenticated frames cannot be
  reflected or confused, and an answer reaches the client that asked. The host starts
  only from trusted directories, serves only on well-formed command lines, reads only bounded frames
  and ends every read; the frames that survive writing and reading are described exactly, and the longest
  one that is written does not. The OAuth and MCP clients keep keys and nonces apart; the conformance
  evaluator observes what the protocol prescribes; debug texts reveal the public parts only. The last
  part, below, composes client and server.

  \<^bold>\<open>Bounds and termination.\<close> No definition uses fuel: loops over lists and texts are structural, the
  others (dot segments, reading and writing of frames) are total functions with a measure. The frame
  reader also has a counted form, which shows that 65537 rounds are always enough.

  \<^bold>\<open>Assumptions.\<close> They are premises of the theorems that need them: laws of base64url, SHA-256 length
  and HMAC (\<open>b64_law\<close>, \<open>sha256_law\<close>, \<open>hmac_law\<close>), JSON round trips of the documents involved, absence of
  a digest collision on the two messages compared, the POSIX laws and those of \<open>fsync\<close>, and clock
  readings that do not go back where one acceptance is claimed. Each theorem with premises has an instance in which they hold.

  \<^bold>\<open>Not modelled.\<close> A panic of one thread while it holds a lock
  (the flag of a poisoned lock is part of the state, its cause is not); the
  secrecy and unforgeability of the cryptography itself; the pretty-printed form of \<open>Debug\<close> texts and
  the escapes of \<open>Debug\<close> for \<open>str\<close>; the non-Linux variants of two checks that only return an error;
  module declarations, tests, fuzz targets, examples, scripts and packaging, which hold no logic of the
  program.
\<close>

section \<open>From the client to the server\<close>

lemma mcp_verify_ran:
  assumes "parse_dpop_header_values X (mr_dpop_header_values request) = Inr p"
    and "validate_method (mr_method request) = Inr ()"
  shows "mcp_verify X policy clock car request h store =
    (case dpop_verify X policy clock car p (mcp_dpop_request request) store of
       (Inl e, store') \<Rightarrow> (Inl (Proof e), store')
     | (Inr v, store') \<Rightarrow>
         (map_err SenderBinding (compose_sender_binding X v (mr_access_token request) h), store'))"
  using assms by (simp add: mcp_verify_def dpop_request_new_def mcp_dpop_request_eq)

section \<open>Properties\<close>

text \<open>C9. The two ends fit together: the authorization an MCP client builds for a protected resource
  is accepted by the MCP server adapter that sees the same method, target, token and nonce, as
  long as the proof is fresh by the server's clock and the host confirms the key the token is
  bound to; and presenting it once more, while it would still be fresh, is refused as a replay.\<close>

theorem issued_proof_accepted_then_replay_refused:
  assumes env: "b64_law X" "sha256_law X" "wf_jwk X (cl_public_jwk (mc_client mc))"
    and attempt: "resource_attempt X mc lookup (Inr issued) (Inr pid) m target tok = Inr a"
    and nonce: "lookup (mc_resource_server mc) = Inr nonce"
    and dreq: "dreq = \<lparr>req_method = m, req_target = target,
      req_access_token = Some (as_bytes (at_value tok)), req_nonce = nonce\<rparr>"
    and wf: "wf_request dreq" "is_ok (proof_id_new (proof_id_str pid))"
    and readable: "build_readable X (cl_public_jwk (mc_client mc)) (built_claims X dreq pid issued) (DpopProof (ma_proof a))"
    and time: "in_i64 issued" "in_i64 (issued + max_proof_age_seconds policy)"
      "issued \<le> now + allowed_future_skew_seconds policy" "now \<le> later" "later \<le> issued + max_proof_age_seconds policy"
    and host: "from_host_validated_jwt X (as_bytes (at_value tok)) (Some (to_base64url X (at_proof_key tok))) = Inr h"
    and store: "replay_store_new capacity = Inr store"
    and request: "request = \<lparr>mr_method = m, mr_target = target, mr_access_token = as_bytes (at_value tok),
      mr_dpop_header_values = [ma_proof a], mr_nonce = nonce\<rparr>"
  shows "\<exists>b store1. mcp_verify X policy (Inr now) (replay_check_and_record (Inr now)) request h store = (Inr b, store1) \<and>
    sb_key_thumbprint b = at_proof_key tok \<and>
    fst (mcp_verify X policy (Inr later) (replay_check_and_record (Inr later)) request h store1) =
      Inl (Proof ReplayDetected)"
proof -
  let ?jwk = "cl_public_jwk (mc_client mc)"
  have key: "thumbprint X ?jwk = at_proof_key tok" "validate_method m = Inr ()"
    and built: "dpop_build X (Inr issued) (Inr pid) ?jwk (cl_sign (mc_client mc)) dreq = Inr (DpopProof (ma_proof a))"
    using attempt nonce unfolding dreq resource_attempt_Inr_iff protected_resource_Inr_iff by auto
  obtain p where p: "parse_dpop_header_values X [ma_proof a] = Inr p" "up_public_jwk p = ?jwk"
    "clm_jti (up_claims p) = proof_id_str pid" "clm_iat (up_claims p) = issued"
    and checks: "\<And>policy now. now \<le> issued + max_proof_age_seconds policy \<Longrightarrow>
      issued \<le> now + allowed_future_skew_seconds policy \<Longrightarrow> proof_checks X policy now p dreq"
    using build_parse [OF env wf time(1) built readable] by auto
  obtain replay_key where rk: "derive_replay_key X (thumbprint X ?jwk) (req_method dreq) (req_target dreq)
      (proof_id_str pid) = Inr replay_key"
    using replay_key_exists [OF wf(1) env(2), of "proof_id_str pid" ?jwk] wf(2)
    by (auto simp: proof_id_new_def is_ok_iff split: if_splits)
  obtain v store1 where v: "dpop_verify X policy (Inr now) (replay_check_and_record (Inr now)) p dreq store =
      (Inr v, store1)" "vp_key_thumbprint v = thumbprint X ?jwk" "vp_access_token_hash_verified v"
    "fst (dpop_verify X policy (Inr later) (replay_check_and_record (Inr later)) p dreq store1) = Inl ReplayDetected"
    using accepted_then_replay [OF store checks checks time(4), of policy replay_key] rk p time
    by (auto simp: dreq)
  obtain b where b: "compose_sender_binding X v (as_bytes (at_value tok)) h = Inr b" "sb_key_thumbprint b = at_proof_key tok"
    using host v(2,3) key(1) parse_jkt_thumbprint [OF env(1,2), of ?jwk]
    by (auto simp: from_host_validated_jwt_def host_validated_new_Inr_iff compose_sender_binding_Inr_iff)
  have r: "mcp_dpop_request request = dreq" "mr_access_token request = as_bytes (at_value tok)"
    by (simp_all add: mcp_dpop_request_def request dreq)
  have ran: "parse_dpop_header_values X (mr_dpop_header_values request) = Inr p" "validate_method (mr_method request) = Inr ()"
    using p(1) key(2) by (simp_all add: request)
  show ?thesis
    unfolding mcp_verify_ran [OF ran] r using v(1,4) b by (auto split: prod.splits sum.splits)
qed

theorem issued_proof_accepted_then_replay_refused_witness:
  "\<exists>a h b store store1.
     resource_attempt sample_X (sc_dpop sample_streamable) (\<lambda>_. Inr (Some (DpopNonce ''n1''))) (Inr 1000) (Inr (ProofId ''id''))
       ''GET'' (EffectiveRequestTarget ''http://a/b'') (sc_access_token sample_streamable) = Inr a \<and>
     replay_store_new 1 = Inr store \<and>
     mcp_verify sample_X policy_default (Inr 1010) (replay_check_and_record (Inr 1010))
       \<lparr>mr_method = ''GET'', mr_target = EffectiveRequestTarget ''http://a/b'', mr_access_token = [1, 2, 3],
        mr_dpop_header_values = [ma_proof a], mr_nonce = Some (DpopNonce ''n1'')\<rparr> h store = (Inr b, store1) \<and>
     sb_key_thumbprint b = thumbprint sample_X sample_jwk"
proof -
  let ?mc = "sc_dpop sample_streamable" and ?tok = "sc_access_token sample_streamable"
  let ?dreq = "\<lparr>req_method = ''GET'', req_target = EffectiveRequestTarget ''http://a/b'',
    req_access_token = Some (as_bytes (at_value ?tok)), req_nonce = Some (DpopNonce ''n1'')\<rparr>"
  have tok: "as_bytes (at_value ?tok) = [1, 2, 3]" "at_proof_key ?tok = thumbprint sample_X sample_jwk"
    and mc: "cl_public_jwk (mc_client ?mc) = sample_jwk" "cl_sign (mc_client ?mc) = (\<lambda>_. Inr (replicate 64 7))"
      "nc_namespace (mc_resource_server ?mc) = ResourceServer"
    by (simp_all add: sample_streamable_def sample_client_def)
  have dreq: "?dreq = sample_request"
    by (simp add: tok sample_request_def)
  have "validate_method ''GET'' = Inr ()" by code_simp
  then have a: "resource_attempt sample_X ?mc (\<lambda>_. Inr (Some (DpopNonce ''n1''))) (Inr 1000) (Inr (ProofId ''id''))
      ''GET'' (EffectiveRequestTarget ''http://a/b'') ?tok =
      Inr \<lparr>ma_authorization = ''DPoP '' @ at_value ?tok, ma_proof = proof_header_value sample_proof\<rparr>" (is "_ = Inr ?a")
    unfolding resource_attempt_Inr_iff protected_resource_Inr_iff mc tok
    using sample_build by (auto simp: sample_request_def)
  obtain h where h: "from_host_validated_jwt sample_X (as_bytes (at_value ?tok))
      (Some (to_base64url sample_X (at_proof_key ?tok))) = Inr h"
    using sample_host_token [of "[1, 2, 3]"] unfolding tok from_host_validated_jwt_def by blast
  have "wf_jwk sample_X (cl_public_jwk (mc_client ?mc))"
    using sample_jwk_wf(1) [of sample_docs] by (simp add: mc)
  moreover have "wf_request ?dreq"
    unfolding dreq by (rule sample_request_wf(1))
  moreover have "build_readable sample_X (cl_public_jwk (mc_client ?mc)) (built_claims sample_X ?dreq (ProofId ''id'') 1000)
      (DpopProof (ma_proof ?a))"
    unfolding dreq using sample_build_readable by (simp add: mc)
  ultimately show ?thesis
    using issued_proof_accepted_then_replay_refused [OF sample_b64_law sample_sha256_law _ a refl refl _ sample_request_wf(2) _
        _ _ _ _ _ h _ refl, of policy_default 1010 1010 1] a
    unfolding tok by (auto simp: in_i64_def policy_default_def replay_store_new_def)
qed

end
